(* ===== verification/Prelude.thy ===== *)
theory Prelude
  imports Main "HOL-Library.Word" "HOL-Library.Multiset" "HOL-Library.List_Lexorder"
    "HOL-Library.Char_ord" "HOL-Library.Monad_Syntax"
begin

text \<open>
  Shared vocabulary of the development: the widths of the Go integers the sources use, the
  list operations of the packages \<^verbatim>\<open>slices\<close> and \<^verbatim>\<open>sort\<close>, the "seen map" loop that
  drops repeated elements, the finite sets that Go writes as \<^verbatim>\<open>map[K]struct{}\<close>, and the
  lemmas on words that the address arithmetic needs.

  The \<^theory_text>\<open>named_theorems\<close> collections declared here are filled by the component theories:
  \<open>netip_simps\<close> unfolds the address operations of \<^verbatim>\<open>net/netip\<close>, \<open>gostring_simps\<close> those of
  \<^verbatim>\<open>strings\<close>, \<open>wf_intros\<close> collects the preservation lemmas of the invariants.
\<close>

unbundle bit_operations_syntax

named_theorems netip_simps
named_theorems gostring_simps
named_theorems wf_intros

type_synonym u8 = "8 word"
type_synonym u16 = "16 word"
type_synonym u32 = "32 word"
type_synonym u64 = "64 word"

section \<open>Loops over slices\<close>

text \<open>
  The idiom \<^verbatim>\<open>if _, dup := seen[x]; dup { continue }; seen[x] = struct{}{}; out = append(out, x)\<close>:
  the first occurrence of every element is kept, in order.
\<close>

fun dedup_from :: "'a set \<Rightarrow> 'a list \<Rightarrow> 'a list" where
  "dedup_from seen [] = []"
| "dedup_from seen (x # xs) =
     (if x \<in> seen then dedup_from seen xs else x # dedup_from (insert x seen) xs)"

lemma set_dedup_from [simp]: "set (dedup_from seen xs) = set xs - seen"
  by (induction xs arbitrary: seen) auto

lemma distinct_dedup_from [simp]: "distinct (dedup_from seen xs)"
  by (induction xs arbitrary: seen) auto

lemma dedup_from_distinct:
  "distinct xs \<Longrightarrow> set xs \<inter> seen = {} \<Longrightarrow> dedup_from seen xs = xs"
  by (induction xs arbitrary: seen) auto

lemma length_dedup_from: "length (dedup_from seen xs) \<le> length xs"
  by (induction xs arbitrary: seen) (auto intro: le_SucI)

lemma dedup_from_cong:
  "seen \<inter> set xs = seen' \<inter> set xs \<Longrightarrow> dedup_from seen xs = dedup_from seen' xs"
proof (induction xs arbitrary: seen seen')
  case Nil
  then show ?case by simp
next
  case (Cons x xs)
  have mem: "x \<in> seen \<longleftrightarrow> x \<in> seen'"
    using Cons.prems by auto
  have "dedup_from seen xs = dedup_from seen' xs"
    using Cons.prems by (intro Cons.IH) auto
  moreover have "dedup_from (insert x seen) xs = dedup_from (insert x seen') xs"
    using Cons.prems by (intro Cons.IH) auto
  ultimately show ?case
    using mem by simp
qed

lemma dedup_from_append:
  "dedup_from seen (xs @ ys) = dedup_from seen xs @ dedup_from (seen \<union> set xs) ys"
  by (induction xs arbitrary: seen) (auto simp: insert_absorb)

lemma filter_dedup_from:
  "filter P (dedup_from seen xs) = dedup_from seen (filter P xs)"
proof (induction xs arbitrary: seen)
  case Nil
  then show ?case by simp
next
  case (Cons x xs)
  have "\<not> P x \<Longrightarrow> dedup_from (insert x seen) (filter P xs) = dedup_from seen (filter P xs)"
    by (rule dedup_from_cong) auto
  then show ?case
    using Cons.IH by auto
qed

text \<open>\<^verbatim>\<open>slices.Sort\<close> followed by \<^verbatim>\<open>slices.Compact\<close>: the sorted list of the distinct elements.\<close>

definition sort_compact :: "'a::linorder list \<Rightarrow> 'a list" where
  "sort_compact xs = remdups_adj (sort xs)"

lemma set_sort_compact [simp]: "set (sort_compact xs) = set xs"
  by (simp add: sort_compact_def)

lemma sorted_sort_compact [simp]: "sorted (sort_compact xs)"
  by (simp add: sort_compact_def)

lemma distinct_remdups_adj_sorted: "sorted xs \<Longrightarrow> distinct (remdups_adj xs)"
proof (induction xs rule: remdups_adj.induct)
  case (3 x y xs)
  show ?case
  proof (cases "x = y")
    case True
    with 3 show ?thesis by simp
  next
    case False
    with "3.prems" have "x \<notin> set (y # xs)" by auto
    with False 3 show ?thesis by simp
  qed
qed simp_all

lemma distinct_sort_compact [simp]: "distinct (sort_compact xs)"
  by (simp add: sort_compact_def distinct_remdups_adj_sorted)

lemma sort_compact_eq_iff: "sort_compact xs = sort_compact ys \<longleftrightarrow> set xs = set ys"
proof
  assume "sort_compact xs = sort_compact ys"
  then have "set (sort_compact xs) = set (sort_compact ys)" by simp
  then show "set xs = set ys" by simp
next
  assume "set xs = set ys"
  then show "sort_compact xs = sort_compact ys"
    by (intro sorted_distinct_set_unique) simp_all
qed

lemma sort_compact_idem [simp]: "sort_compact (sort_compact xs) = sort_compact xs"
  by (simp add: sort_compact_eq_iff)

lemma length_sort_compact: "length (sort_compact xs) = card (set xs)"
  by (metis distinct_card distinct_sort_compact set_sort_compact)

section \<open>Errors as values\<close>

text \<open>A Go function returning \<^verbatim>\<open>(T, error)\<close> returns \<^typ>\<open>'e + 'a\<close>; one returning \<^verbatim>\<open>error\<close> alone
  and changing state returns the optional error beside the new state.\<close>

abbreviation is_ok :: "'e + 'a \<Rightarrow> bool" where
  "is_ok r \<equiv> \<not> isl r"

lemma is_ok_iff: "is_ok r \<longleftrightarrow> (\<exists>x. r = Inr x)"
  by (cases r) auto

section \<open>Maps with finite domain\<close>

lemma finite_dom_upd [simp]: "finite (dom (m(k := v))) \<longleftrightarrow> finite (dom m)"
proof -
  have "dom (m(k := v)) \<subseteq> insert k (dom m)" "dom m \<subseteq> insert k (dom (m(k := v)))"
    by (auto simp: dom_def split: if_splits)
  then show ?thesis
    by (meson finite.insertI finite_subset)
qed

lemma card_dom_delete:
  "finite (dom m) \<Longrightarrow> k \<in> dom m \<Longrightarrow> card (dom (m(k := None))) = card (dom m) - 1"
  by (simp add: card_Diff_singleton)

lemma card_dom_insert:
  "finite (dom m) \<Longrightarrow> k \<notin> dom m \<Longrightarrow> card (dom (m(k \<mapsto> v))) = Suc (card (dom m))"
  by simp

section \<open>Words\<close>

lemma drop_bit_xor_eq_0_iff:
  fixes a b :: "'a::len word"
  shows "drop_bit n (a XOR b) = 0 \<longleftrightarrow> drop_bit n a = drop_bit n b"
proof -
  have "x XOR y = 0 \<longleftrightarrow> x = y" for x y :: "'a word"
    by (metis xor.left_neutral xor.right_neutral xor_self_eq xor.assoc)
  then show ?thesis by simp
qed

lemma drop_bit_eq_iff_div:
  fixes a b :: "'a::len word"
  shows "drop_bit n a = drop_bit n b \<longleftrightarrow> unat a div 2 ^ n = unat b div 2 ^ n"
  by (simp only: word_unat_eq_iff unat_drop_bit_eq drop_bit_nat_def)

lemma unat_and_not_mask:
  fixes w :: "'a::len word"
  shows "unat (w AND NOT (mask n)) = unat w div 2 ^ n * 2 ^ n"
proof -
  have "w AND NOT (mask n) = push_bit n (drop_bit n w)"
    by (rule bit_word_eqI) (auto simp: bit_simps not_less)
  moreover have "unat (push_bit n (drop_bit n w)) = unat w div 2 ^ n * 2 ^ n"
  proof -
    have "unat w div 2 ^ n * 2 ^ n \<le> unat w"
      by simp
    then have "unat w div 2 ^ n * 2 ^ n < 2 ^ LENGTH('a)"
      using unsigned_less [of w, where ?'a = nat] by linarith
    then show ?thesis
      by (simp only: unsigned_push_bit_eq unat_drop_bit_eq push_bit_nat_def drop_bit_nat_def
          take_bit_nat_def mod_less)
  qed
  ultimately show ?thesis by simp
qed

end
