(* ===== verification/GoStrings.thy ===== *)
theory GoStrings
  imports Prelude
begin

text \<open>
  The functions of the Go packages \<^verbatim>\<open>strings\<close> and \<^verbatim>\<open>strconv\<close> the sources call. A Go string is
  a sequence of bytes, so it is a \<^typ>\<open>string\<close> here (a \<^typ>\<open>char\<close> is a byte) and \<^verbatim>\<open>len\<close> is
  \<^term>\<open>length\<close>.

  \<^verbatim>\<open>strings.ToLower\<close> maps the ASCII letters of an ASCII string; on a string with a byte
  outside ASCII it consults the Unicode case tables, which are a parameter of the model (the
  argument \<open>ul\<close>, a function on the whole string). \<^verbatim>\<open>strings.TrimSpace\<close> is modelled on all strings:
  it removes the UTF-8 encodings of the code points with the Unicode property White\_Space.
\<close>

section \<open>Bytes\<close>

abbreviation ord :: "char \<Rightarrow> nat" where
  "ord c \<equiv> of_char c"

definition is_ascii :: "char \<Rightarrow> bool" where
  "is_ascii c \<longleftrightarrow> ord c < 128"

definition is_digit :: "char \<Rightarrow> bool" where
  "is_digit c \<longleftrightarrow> 48 \<le> ord c \<and> ord c \<le> 57"

definition is_lower :: "char \<Rightarrow> bool" where
  "is_lower c \<longleftrightarrow> 97 \<le> ord c \<and> ord c \<le> 122"

definition is_upper :: "char \<Rightarrow> bool" where
  "is_upper c \<longleftrightarrow> 65 \<le> ord c \<and> ord c \<le> 90"

definition lower_char :: "char \<Rightarrow> char" where
  "lower_char c = (if is_upper c then char_of (ord c + 32) else c)"

lemma ord_char_of [simp]: "n < 256 \<Longrightarrow> ord (char_of n) = n"
  by (simp add: of_char_of)

lemma ord_less_256 [simp]: "ord c < 256"
  by (rule nat_of_char_less_256)

lemma ord_lower_char: "ord (lower_char c) = (if is_upper c then ord c + 32 else ord c)"
  by (simp add: lower_char_def is_upper_def)

lemma lower_char_idem [simp]: "lower_char (lower_char c) = lower_char c"
  by (auto simp: lower_char_def is_upper_def)

lemma lower_char_id: "\<not> is_upper c \<Longrightarrow> lower_char c = c"
  by (simp add: lower_char_def)

section \<open>Prefixes and suffixes\<close>

definition HasPrefix :: "string \<Rightarrow> string \<Rightarrow> bool" where
  "HasPrefix s p \<longleftrightarrow> take (length p) s = p"

definition HasSuffix :: "string \<Rightarrow> string \<Rightarrow> bool" where
  "HasSuffix s x \<longleftrightarrow> length x \<le> length s \<and> drop (length s - length x) s = x"

definition TrimSuffix :: "string \<Rightarrow> string \<Rightarrow> string" where
  "TrimSuffix s x = (if HasSuffix s x then take (length s - length x) s else s)"

definition TrimPrefix :: "string \<Rightarrow> string \<Rightarrow> string" where
  "TrimPrefix s p = (if HasPrefix s p then drop (length p) s else s)"

definition CutPrefix :: "string \<Rightarrow> string \<Rightarrow> string option" where
  "CutPrefix s p = (if HasPrefix s p then Some (drop (length p) s) else None)"

definition CutSuffix :: "string \<Rightarrow> string \<Rightarrow> string option" where
  "CutSuffix s x = (if HasSuffix s x then Some (take (length s - length x) s) else None)"

lemma HasPrefix_iff: "HasPrefix s p \<longleftrightarrow> (\<exists>t. s = p @ t)"
  by (metis HasPrefix_def append_take_drop_id append_eq_conv_conj)

lemma HasSuffix_iff: "HasSuffix s x \<longleftrightarrow> (\<exists>t. s = t @ x)"
proof
  assume "HasSuffix s x"
  then have "s = take (length s - length x) s @ x"
    by (metis HasSuffix_def append_take_drop_id)
  then show "\<exists>t. s = t @ x" ..
qed (auto simp: HasSuffix_def)

lemma HasPrefix_append [simp]: "HasPrefix (p @ t) p"
  by (auto simp: HasPrefix_iff)

lemma HasSuffix_append [simp]: "HasSuffix (t @ x) x"
  by (auto simp: HasSuffix_iff)

lemma CutPrefix_append [simp]: "CutPrefix (p @ t) p = Some t"
  by (simp add: CutPrefix_def)

lemma CutSuffix_append [simp]: "CutSuffix (t @ x) x = Some t"
  by (simp add: CutSuffix_def)

lemma CutSuffix_Some_iff: "CutSuffix s x = Some t \<longleftrightarrow> s = t @ x"
  by (auto simp: CutSuffix_def HasSuffix_iff)

lemma CutPrefix_Some_iff: "CutPrefix s p = Some t \<longleftrightarrow> s = p @ t"
  by (auto simp: CutPrefix_def HasPrefix_iff)

lemma TrimSuffix_append [simp]: "TrimSuffix (t @ x) x = t"
  by (simp add: TrimSuffix_def)

lemma TrimSuffix_id: "\<not> HasSuffix s x \<Longrightarrow> TrimSuffix s x = s"
  by (simp add: TrimSuffix_def)

lemma HasSuffix_single: "HasSuffix s [c] \<longleftrightarrow> s \<noteq> [] \<and> last s = c"
  by (cases s rule: rev_cases) (auto simp: HasSuffix_def)

section \<open>Splitting and joining at a byte\<close>

text \<open>\<^verbatim>\<open>strings.Cut(s, sep)\<close> for a one-byte separator: \<^term>\<open>None\<close> when it is absent.\<close>

fun Cut :: "char \<Rightarrow> string \<Rightarrow> (string \<times> string) option" where
  "Cut c [] = None"
| "Cut c (x # xs) =
     (if x = c then Some ([], xs)
      else case Cut c xs of None \<Rightarrow> None | Some (a, b) \<Rightarrow> Some (x # a, b))"

lemma Cut_append [simp]: "c \<notin> set a \<Longrightarrow> Cut c (a @ c # b) = Some (a, b)"
  by (induction a) auto

lemma Cut_None_iff: "Cut c s = None \<longleftrightarrow> c \<notin> set s"
  by (induction s) (auto split: option.splits)

lemma Cut_SomeD: "Cut c s = Some (a, b) \<Longrightarrow> s = a @ c # b \<and> c \<notin> set a"
  by (induction s arbitrary: a) (auto split: if_splits option.splits)

text \<open>\<^verbatim>\<open>strings.Split(s, sep)\<close> for a one-byte separator; the result is never empty.\<close>

fun Split :: "char \<Rightarrow> string \<Rightarrow> string list" where
  "Split c [] = [[]]"
| "Split c (x # xs) =
     (if x = c then [] # Split c xs
      else case Split c xs of [] \<Rightarrow> [[x]] | w # ws \<Rightarrow> (x # w) # ws)"

fun Join :: "string list \<Rightarrow> string \<Rightarrow> string" where
  "Join [] sep = []"
| "Join [w] sep = w"
| "Join (w # v # ws) sep = w @ sep @ Join (v # ws) sep"

lemma Split_ne [simp]: "Split c s \<noteq> []"
  by (cases "(c, s)" rule: Split.cases) (auto split: list.splits)

lemma Split_append:
  "c \<notin> set a \<Longrightarrow> Split c (a @ c # b) = a # Split c b"
  by (induction a) auto

lemma Split_single: "c \<notin> set a \<Longrightarrow> Split c a = [a]"
  by (induction a) auto

lemma Split_snoc: "Split c (t @ [c]) = Split c t @ [[]]"
proof (induction t)
  case Nil
  then show ?case by simp
next
  case (Cons x t)
  then show ?case by (cases "Split c t") auto
qed

lemma Split_append2: "Split c (a @ c # b) = Split c a @ Split c b"
proof (induction a)
  case Nil
  then show ?case by simp
next
  case (Cons x a)
  then show ?case by (cases "Split c a") auto
qed

lemma Join_Split: "Join (Split c s) [c] = s"
proof (induction s)
  case Nil
  then show ?case by simp
next
  case (Cons x s)
  obtain w ws where "Split c s = w # ws"
    by (cases "Split c s") auto
  with Cons show ?case
    by (cases ws) auto
qed

lemma Split_pieces: "w \<in> set (Split c s) \<Longrightarrow> c \<notin> set w"
proof (induction s arbitrary: w)
  case Nil
  then show ?case by simp
next
  case (Cons x s)
  obtain v vs where v: "Split c s = v # vs"
    by (cases "Split c s") auto
  show ?case
    using Cons.prems Cons.IH [of w] Cons.IH [of v] v by (auto split: if_splits)
qed

lemma Split_Join: "ws \<noteq> [] \<Longrightarrow> (\<forall>w\<in>set ws. c \<notin> set w) \<Longrightarrow> Split c (Join ws [c]) = ws"
proof (induction ws rule: list_nonempty_induct)
  case (single w)
  then show ?case by (simp add: Split_single)
next
  case (cons w ws)
  then show ?case by (cases ws) (auto simp: Split_append)
qed

lemma length_Split: "length (Split c s) = Suc (count_list s c)"
proof (induction s)
  case Nil
  then show ?case by simp
next
  case (Cons x s)
  obtain v vs where "Split c s = v # vs"
    by (cases "Split c s") auto
  with Cons show ?case by auto
qed

section \<open>Case and white space\<close>

definition ToLower :: "(string \<Rightarrow> string) \<Rightarrow> string \<Rightarrow> string" where
  "ToLower ul s = (if list_all is_ascii s then map lower_char s else ul s)"

text \<open>The UTF-8 encodings of the code points \<^verbatim>\<open>unicode.IsSpace\<close> accepts.\<close>

definition utf8_bytes :: "nat list \<Rightarrow> string" where
  "utf8_bytes = map char_of"

definition space_encodings :: "string list" where
  "space_encodings =
     map (\<lambda>n. utf8_bytes [n]) [9, 10, 11, 12, 13, 32]
     @ map utf8_bytes [[194, 133], [194, 160], [225, 154, 128]]
     @ map (\<lambda>n. utf8_bytes [226, 128, n]) [128, 129, 130, 131, 132, 133, 134, 135, 136, 137, 138]
     @ map utf8_bytes [[226, 128, 168], [226, 128, 169], [226, 128, 175], [226, 129, 159],
         [227, 128, 128]]"

definition leading_space :: "string \<Rightarrow> nat" where
  "leading_space s =
     (case find (HasPrefix s) space_encodings of None \<Rightarrow> 0 | Some e \<Rightarrow> length e)"

definition trailing_space :: "string \<Rightarrow> nat" where
  "trailing_space s =
     (case find (HasSuffix s) space_encodings of None \<Rightarrow> 0 | Some e \<Rightarrow> length e)"

function TrimLeftSpace :: "string \<Rightarrow> string" where
  "TrimLeftSpace s =
     (if s = [] \<or> leading_space s = 0 then s else TrimLeftSpace (drop (leading_space s) s))"
  by pat_completeness auto
termination
  by (relation "measure length") auto

function TrimRightSpace :: "string \<Rightarrow> string" where
  "TrimRightSpace s =
     (if s = [] \<or> trailing_space s = 0 then s
      else TrimRightSpace (take (length s - trailing_space s) s))"
  by pat_completeness auto
termination
  by (relation "measure length") auto

declare TrimLeftSpace.simps [simp del] TrimRightSpace.simps [simp del]

definition TrimSpace :: "string \<Rightarrow> string" where
  "TrimSpace s = TrimRightSpace (TrimLeftSpace s)"

lemma TrimSpace_Nil [simp]: "TrimSpace [] = []"
  by (simp add: TrimSpace_def TrimLeftSpace.simps TrimRightSpace.simps)

lemma ToLower_ascii: "list_all is_ascii s \<Longrightarrow> ToLower ul s = map lower_char s"
  by (simp add: ToLower_def)

lemma ToLower_fixed:
  "list_all is_ascii s \<Longrightarrow> list_all (\<lambda>c. \<not> is_upper c) s \<Longrightarrow> ToLower ul s = s"
  by (induction s) (auto simp: ToLower_def lower_char_id)

section \<open>Decimal numbers\<close>

definition digit_char :: "nat \<Rightarrow> char" where
  "digit_char d = char_of (48 + d)"

fun Itoa :: "nat \<Rightarrow> string" where
  "Itoa n = (if n < 10 then [digit_char n] else Itoa (n div 10) @ [digit_char (n mod 10)])"

declare Itoa.simps [simp del]

definition Itoa_int :: "int \<Rightarrow> string" where
  "Itoa_int z = (if z < 0 then CHR ''-'' # Itoa (nat (- z)) else Itoa (nat z))"

lemma ord_digit_char [simp]: "d < 10 \<Longrightarrow> ord (digit_char d) = 48 + d"
  by (simp add: digit_char_def)

lemma is_digit_digit_char [simp]: "d < 10 \<Longrightarrow> is_digit (digit_char d)"
  by (simp add: is_digit_def)

lemma Itoa_digits: "list_all is_digit (Itoa n)"
proof (induction n rule: Itoa.induct)
  case (1 n)
  then show ?case
    by (subst Itoa.simps) (auto simp: list_all_iff)
qed

lemma Itoa_ne [simp]: "Itoa n \<noteq> []"
  by (subst Itoa.simps) simp

lemma Itoa_digitD: "c \<in> set (Itoa n) \<Longrightarrow> is_digit c"
  using Itoa_digits [of n] by (auto simp: list_all_iff)

lemma Itoa_1: "n < 10 \<Longrightarrow> Itoa n = [digit_char n]"
  by (subst Itoa.simps) simp

lemma Itoa_2: "10 \<le> n \<Longrightarrow> n < 100 \<Longrightarrow> Itoa n = [digit_char (n div 10), digit_char (n mod 10)]"
  by (subst Itoa.simps) (simp add: Itoa_1)

lemma Itoa_3:
  assumes "100 \<le> n" and "n < 1000"
  shows "Itoa n = [digit_char (n div 100), digit_char (n div 10 mod 10), digit_char (n mod 10)]"
proof -
  have "Itoa n = Itoa (n div 10) @ [digit_char (n mod 10)]"
    using assms by (subst Itoa.simps) simp
  moreover have "Itoa (n div 10) = [digit_char (n div 10 div 10), digit_char (n div 10 mod 10)]"
    using assms by (intro Itoa_2) auto
  moreover have "n div 10 div 10 = n div 100"
    by (simp add: div_mult2_eq)
  ultimately show ?thesis by simp
qed

lemma Itoa_extend: "0 < v \<Longrightarrow> d < 10 \<Longrightarrow> Itoa (v * 10 + d) = Itoa v @ [digit_char d]"
  by (subst Itoa.simps) simp

text \<open>\<^verbatim>\<open>strconv.Atoi\<close> and \<^verbatim>\<open>strconv.ParseUint\<close> in base ten on an unsigned numeral, without the
  range check (which each caller adds).\<close>

definition digit_val :: "char \<Rightarrow> nat" where
  "digit_val c = ord c - 48"

definition dec_val :: "string \<Rightarrow> nat" where
  "dec_val s = foldl (\<lambda>a c. a * 10 + digit_val c) 0 s"

definition parse_dec :: "string \<Rightarrow> nat option" where
  "parse_dec s = (if s \<noteq> [] \<and> list_all is_digit s then Some (dec_val s) else None)"

lemma dec_val_snoc: "dec_val (s @ [c]) = dec_val s * 10 + digit_val c"
  by (simp add: dec_val_def)

lemma dec_val_Itoa: "dec_val (Itoa n) = n"
proof (induction n rule: Itoa.induct)
  case (1 n)
  show ?case
  proof (cases "n < 10")
    case True
    then show ?thesis by (simp add: Itoa_1 dec_val_def digit_val_def)
  next
    case False
    then have "Itoa n = Itoa (n div 10) @ [digit_char (n mod 10)]"
      by (subst Itoa.simps) simp
    with False 1 show ?thesis
      by (simp add: dec_val_snoc digit_val_def)
  qed
qed

lemma parse_dec_Itoa [simp]: "parse_dec (Itoa n) = Some n"
  by (simp add: parse_dec_def Itoa_digits dec_val_Itoa)

lemma Itoa_inj: "Itoa m = Itoa n \<longleftrightarrow> m = n"
  by (metis dec_val_Itoa)

lemma Itoa_dot_free [simp]: "CHR ''.'' \<notin> set (Itoa n)" "CHR ''-'' \<notin> set (Itoa n)"
  using Itoa_digitD [of "CHR ''.''" n] Itoa_digitD [of "CHR ''-''" n] by (auto simp: is_digit_def)

lemma Itoa_ascii [simp]: "list_all is_ascii (Itoa n)"
  using Itoa_digitD [of _ n] by (fastforce simp: list_all_iff is_ascii_def is_digit_def)

end
