(* ===== verification/Netip.thy ===== *)
theory Netip
  imports GoStrings
begin

text \<open>
  The Go package \<^verbatim>\<open>net/netip\<close>, as far as the sources use it: addresses, prefixes, address-port
  pairs, their parsers and printers. An address is the zero \<^verbatim>\<open>Addr\<close>, an IPv4 address (32 bits) or
  an IPv6 address (128 bits and a zone). The order of \<^verbatim>\<open>Addr.Compare\<close> (bit length, then value,
  then zone) is the linear order of the type (an instance of \<^verbatim>\<open>linorder\<close>).
\<close>

section \<open>Addresses\<close>

datatype addr = NoAddr | IPv4 u32 | IPv6 "128 word" string

definition IsValid :: "addr \<Rightarrow> bool" where
  "IsValid a \<longleftrightarrow> a \<noteq> NoAddr"

fun Is4 :: "addr \<Rightarrow> bool" where
  "Is4 (IPv4 _) = True"
| "Is4 _ = False"

fun Is6 :: "addr \<Rightarrow> bool" where
  "Is6 (IPv6 _ _) = True"
| "Is6 _ = False"

fun BitLen :: "addr \<Rightarrow> nat" where
  "BitLen NoAddr = 0"
| "BitLen (IPv4 _) = 32"
| "BitLen (IPv6 _ _) = 128"

fun Is4In6 :: "addr \<Rightarrow> bool" where
  "Is4In6 (IPv6 w _) = (drop_bit 32 w = 0xFFFF)"
| "Is4In6 _ = False"

fun Unmap :: "addr \<Rightarrow> addr" where
  "Unmap (IPv6 w z) = (if Is4In6 (IPv6 w z) then IPv4 (ucast w) else IPv6 w z)"
| "Unmap a = a"

fun Zone :: "addr \<Rightarrow> string" where
  "Zone (IPv6 _ z) = z"
| "Zone _ = []"

fun withoutZone :: "addr \<Rightarrow> addr" where
  "withoutZone (IPv6 w _) = IPv6 w []"
| "withoutZone a = a"

fun Next :: "addr \<Rightarrow> addr" where
  "Next NoAddr = NoAddr"
| "Next (IPv4 w) = (if w + 1 = 0 then NoAddr else IPv4 (w + 1))"
| "Next (IPv6 w z) = (if w + 1 = 0 then NoAddr else IPv6 (w + 1) z)"

definition IsUnspecified :: "addr \<Rightarrow> bool" where
  "IsUnspecified a \<longleftrightarrow> a = IPv4 0 \<or> a = IPv6 0 []"

definition IsLoopback :: "addr \<Rightarrow> bool" where
  "IsLoopback a =
     (case Unmap a of NoAddr \<Rightarrow> False | IPv4 w \<Rightarrow> drop_bit 24 w = 127 | IPv6 w _ \<Rightarrow> w = 1)"

definition IsMulticast :: "addr \<Rightarrow> bool" where
  "IsMulticast a =
     (case Unmap a of NoAddr \<Rightarrow> False | IPv4 w \<Rightarrow> drop_bit 28 w = 0xE
      | IPv6 w _ \<Rightarrow> drop_bit 120 w = 0xFF)"

lemma Unmap_idem [simp]: "Unmap (Unmap a) = Unmap a"
  by (cases a) auto

lemma Unmap_Is4 [simp]: "Is4 a \<Longrightarrow> Unmap a = a"
  by (cases a) auto

lemma IsValid_simps [simp]: "\<not> IsValid NoAddr" "IsValid (IPv4 w)" "IsValid (IPv6 v z)"
  by (simp_all add: IsValid_def)

lemma IsValid_Unmap [simp]: "IsValid (Unmap a) = IsValid a"
  by (cases a) auto

lemma Is4_iff: "Is4 a \<longleftrightarrow> (\<exists>w. a = IPv4 w)"
  by (cases a) auto

subsection \<open>The order of Addr.Compare\<close>

instantiation addr :: linorder
begin

fun less_eq_addr :: "addr \<Rightarrow> addr \<Rightarrow> bool" where
  "less_eq_addr NoAddr b = True"
| "less_eq_addr (IPv4 v) b = (case b of NoAddr \<Rightarrow> False | IPv4 w \<Rightarrow> v \<le> w | IPv6 _ _ \<Rightarrow> True)"
| "less_eq_addr (IPv6 v y) b =
     (case b of IPv6 w z \<Rightarrow> v < w \<or> v = w \<and> y \<le> z | _ \<Rightarrow> False)"

definition less_addr :: "addr \<Rightarrow> addr \<Rightarrow> bool" where
  "less_addr a b \<longleftrightarrow> a \<le> b \<and> \<not> b \<le> (a :: addr)"

instance
proof
  fix a b c :: addr
  show "a < b \<longleftrightarrow> a \<le> b \<and> \<not> b \<le> a"
    by (rule less_addr_def)
  show "a \<le> a"
    by (cases a) auto
  show "a \<le> b \<Longrightarrow> b \<le> c \<Longrightarrow> a \<le> c"
    by (cases a; cases b; cases c) auto
  show "a \<le> b \<Longrightarrow> b \<le> a \<Longrightarrow> a = b"
    by (cases a; cases b) auto
  show "a \<le> b \<or> b \<le> a"
    by (cases a; cases b) auto
qed

end

lemma less_addr_IPv4 [simp]: "IPv4 v < IPv4 w \<longleftrightarrow> v < w"
  by (auto simp: less_addr_def)

definition addr_Compare :: "addr \<Rightarrow> addr \<Rightarrow> int" where
  "addr_Compare a b = (if a < b then - 1 else if b < a then 1 else 0)"

lemma addr_Compare_iff [simp]:
  "addr_Compare a b < 0 \<longleftrightarrow> a < b" "addr_Compare a b > 0 \<longleftrightarrow> b < a"
  "addr_Compare a b \<ge> 0 \<longleftrightarrow> b \<le> a" "addr_Compare a b \<le> 0 \<longleftrightarrow> a \<le> b"
  "addr_Compare a b = 0 \<longleftrightarrow> a = b"
  by (auto simp: addr_Compare_def)

subsection \<open>The four bytes of an IPv4 address\<close>

definition be32 :: "u8 list \<Rightarrow> u32" where
  "be32 b = push_bit 24 (ucast (b ! 0)) OR push_bit 16 (ucast (b ! 1))
     OR push_bit 8 (ucast (b ! 2)) OR ucast (b ! 3)"

definition bytes4 :: "u32 \<Rightarrow> u8 list" where
  "bytes4 w = [ucast (drop_bit 24 w), ucast (drop_bit 16 w), ucast (drop_bit 8 w), ucast w]"

text \<open>\<^verbatim>\<open>As4\<close> panics on the zero address and on IPv6 addresses that are not IPv4-mapped.\<close>

definition As4 :: "addr \<Rightarrow> u8 list option" where
  "As4 a = (case Unmap a of IPv4 w \<Rightarrow> Some (bytes4 w) | _ \<Rightarrow> None)"

definition AddrFrom4 :: "u8 list \<Rightarrow> addr" where
  "AddrFrom4 b = IPv4 (be32 b)"

lemma bit_u8_high: "8 \<le> n \<Longrightarrow> \<not> bit (b :: u8) n"
  using bit_imp_le_length [of b n] by auto

lemma length_bytes4 [simp]: "length (bytes4 w) = 4"
  by (simp add: bytes4_def)

lemma be32_bytes4 [simp]: "be32 (bytes4 w) = w"
proof (rule bit_word_eqI)
  fix n assume "n < LENGTH(32)"
  then show "bit (be32 (bytes4 w)) n = bit w n"
    by (cases "n < 8"; cases "n < 16"; cases "n < 24")
      (auto simp: be32_def bytes4_def bit_simps)
qed

lemma bytes4_be32 [simp]: "bytes4 (be32 [a, b, c, d]) = [a, b, c, d]"
  unfolding be32_def bytes4_def
  by (auto intro!: bit_word_eqI simp: bit_simps bit_u8_high)

lemma As4_IPv4 [simp]: "As4 (IPv4 w) = Some (bytes4 w)"
  by (simp add: As4_def)

lemma As4_AddrFrom4 [simp]: "As4 (AddrFrom4 [a, b, c, d]) = Some [a, b, c, d]"
  by (simp add: AddrFrom4_def)

lemma bytes4_inj: "bytes4 v = bytes4 w \<longleftrightarrow> v = w"
  by (metis be32_bytes4)

lemma be32_last:
  "be32 ((bytes4 w)[3 := b]) = (w AND NOT (mask 8)) OR ucast b"
proof (rule bit_word_eqI)
  fix n assume "n < LENGTH(32)"
  then show "bit (be32 ((bytes4 w)[3 := b])) n = bit ((w AND NOT (mask 8)) OR ucast b) n"
    by (cases "n < 8"; cases "n < 16"; cases "n < 24")
      (auto simp: be32_def bytes4_def bit_simps dest: bit_imp_le_length)
qed

lemma unat_and_or_byte:
  fixes w :: u32 and b :: u8
  shows "unat ((w AND NOT (mask 8)) OR ucast b) = unat w div 256 * 256 + unat b"
proof -
  have disj: "(w AND NOT (mask 8)) AND ucast b = 0"
    by (rule bit_word_eqI) (auto simp: bit_simps dest: bit_imp_le_length)
  have "(w AND NOT (mask 8)) OR ucast b = (w AND NOT (mask 8)) + ucast b"
    using disj by (simp add: disjunctive_add_eq_or)
  moreover have "unat (w AND NOT (mask 8)) = unat w div 256 * 256"
    using unat_and_not_mask [of w 8] by simp
  moreover have "unat (ucast b :: u32) = unat b"
    by (simp add: unsigned_ucast_eq take_bit_nat_eq_self)
      (use unsigned_less [of b, where ?'a = nat] in \<open>simp add: take_bit_nat_eq_self\<close>)
  moreover have "unat w div 256 < 2 ^ 24"
    using unsigned_less [of w, where ?'a = nat] by (simp add: less_mult_imp_div_less)
  then have "unat w div 256 * 256 + unat b < 2 ^ 32"
    using unsigned_less [of b, where ?'a = nat] by simp
  ultimately show ?thesis
    by (simp add: unat_plus_if')
qed

section \<open>Prefixes\<close>

text \<open>
  \<^verbatim>\<open>netip.Prefix\<close> keeps the prefix length plus one, so that its zero value is invalid. Its fields
  are private: every prefix comes from \<^verbatim>\<open>PrefixFrom\<close> or is the zero value, so it satisfies
  \<open>wf_prefix\<close> below.
\<close>

record prefix =
  p_ip :: addr
  bitsPlusOne :: nat

definition NoPrefix :: prefix where
  "NoPrefix = \<lparr>p_ip = NoAddr, bitsPlusOne = 0\<rparr>"

definition Bits :: "prefix \<Rightarrow> int" where
  "Bits p = int (bitsPlusOne p) - 1"

definition prefix_IsValid :: "prefix \<Rightarrow> bool" where
  "prefix_IsValid p \<longleftrightarrow> 0 < bitsPlusOne p"

definition PrefixFrom :: "addr \<Rightarrow> int \<Rightarrow> prefix" where
  "PrefixFrom ip b =
     \<lparr>p_ip = withoutZone ip,
      bitsPlusOne = (if IsValid ip \<and> 0 \<le> b \<and> b \<le> int (BitLen ip) then nat b + 1 else 0)\<rparr>"

definition wf_prefix :: "prefix \<Rightarrow> bool" where
  "wf_prefix p \<longleftrightarrow> Zone (p_ip p) = [] \<and>
     (0 < bitsPlusOne p \<longrightarrow> IsValid (p_ip p) \<and> bitsPlusOne p \<le> BitLen (p_ip p) + 1)"

definition Masked :: "prefix \<Rightarrow> prefix" where
  "Masked p =
     (let b = Bits p; k = nat b in
      if b < 0 then NoPrefix
      else case p_ip p of
        NoAddr \<Rightarrow> NoPrefix
      | IPv4 w \<Rightarrow> if 32 < b then NoPrefix else PrefixFrom (IPv4 (w AND NOT (mask (32 - k)))) b
      | IPv6 w z \<Rightarrow>
          if 128 < b then NoPrefix else PrefixFrom (IPv6 (w AND NOT (mask (128 - k))) z) b)"

definition prefix_Contains :: "prefix \<Rightarrow> addr \<Rightarrow> bool" where
  "prefix_Contains p a =
     (prefix_IsValid p \<and>
      (case (p_ip p, a) of
         (IPv4 v, IPv4 w) \<Rightarrow> drop_bit (32 - nat (Bits p)) (w XOR v) = 0
       | (IPv6 v _, IPv6 w z) \<Rightarrow>
           z = [] \<and> (w AND NOT (mask (128 - nat (Bits p)))) = (v AND NOT (mask (128 - nat (Bits p))))
       | _ \<Rightarrow> False))"

definition prefix_Overlaps :: "prefix \<Rightarrow> prefix \<Rightarrow> bool" where
  "prefix_Overlaps p q =
     (prefix_IsValid p \<and> prefix_IsValid q \<and>
      (p = q \<or>
       BitLen (p_ip p) = BitLen (p_ip q) \<and>
       (let m = min (Bits p) (Bits q) in
        m = 0 \<or> p_ip (Masked (PrefixFrom (p_ip p) m)) = p_ip (Masked (PrefixFrom (p_ip q) m)))))"

text \<open>The prefixes the sources mostly handle: an IPv4 address and a length of at most 32 bits.\<close>

definition pfx4 :: "u32 \<Rightarrow> nat \<Rightarrow> prefix" where
  "pfx4 w k = \<lparr>p_ip = IPv4 w, bitsPlusOne = k + 1\<rparr>"

lemma PrefixFrom_IPv4 [simp]: "0 \<le> b \<Longrightarrow> b \<le> 32 \<Longrightarrow> PrefixFrom (IPv4 w) b = pfx4 w (nat b)"
  by (simp add: PrefixFrom_def pfx4_def)

lemma pfx4_sel [simp]:
  "p_ip (pfx4 w k) = IPv4 w" "Bits (pfx4 w k) = int k" "prefix_IsValid (pfx4 w k)"
  "bitsPlusOne (pfx4 w k) = k + 1"
  by (simp_all add: pfx4_def Bits_def prefix_IsValid_def)

lemma pfx4_inj [simp]: "pfx4 v j = pfx4 w k \<longleftrightarrow> v = w \<and> j = k"
  by (auto simp: pfx4_def)

lemma NoPrefix_sel [simp]:
  "p_ip NoPrefix = NoAddr" "Bits NoPrefix = - 1" "\<not> prefix_IsValid NoPrefix"
  by (simp_all add: NoPrefix_def Bits_def prefix_IsValid_def)

lemma pfx4_cases:
  assumes "prefix_IsValid p" and "Is4 (p_ip p)"
  obtains w k where "p = pfx4 w k"
proof -
  from assms obtain w where "p_ip p = IPv4 w" by (auto simp: Is4_iff)
  moreover from assms obtain k where "bitsPlusOne p = k + 1"
    by (metis Suc_eq_plus1 Suc_pred' prefix_IsValid_def)
  ultimately have "p = pfx4 w k" by (simp add: pfx4_def)
  then show thesis by (rule that)
qed

lemma Masked_pfx4:
  "Masked (pfx4 w k) = (if k \<le> 32 then pfx4 (w AND NOT (mask (32 - k))) k else NoPrefix)"
  by (simp add: Masked_def Let_def)

lemma wf_PrefixFrom [simp]: "wf_prefix (PrefixFrom a b)"
  by (cases a) (auto simp: wf_prefix_def PrefixFrom_def)

lemma wf_NoPrefix [simp]: "wf_prefix NoPrefix"
  by (simp add: wf_prefix_def NoPrefix_def)

lemma wf_pfx4 [simp]: "wf_prefix (pfx4 w k) \<longleftrightarrow> k \<le> 32"
  by (auto simp: wf_prefix_def pfx4_def)

lemma wf_Masked [simp]: "wf_prefix (Masked p)"
  by (auto simp: Masked_def Let_def split: addr.split)

lemma contains_pfx4:
  "prefix_Contains (pfx4 v k) (IPv4 w)
     \<longleftrightarrow> unat w div 2 ^ (32 - k) = unat v div 2 ^ (32 - k)"
  by (simp only: prefix_Contains_def pfx4_sel prod.case addr.case drop_bit_xor_eq_0_iff
      drop_bit_eq_iff_div nat_int simp_thms)

lemma contains_is4: "prefix_Contains (pfx4 v k) a \<Longrightarrow> \<exists>w. a = IPv4 w"
  by (cases a) (auto simp: prefix_Contains_def)

lemma contains_pfx4_iff:
  "prefix_Contains (pfx4 v k) a
     \<longleftrightarrow> (\<exists>w. a = IPv4 w \<and> unat w div 2 ^ (32 - k) = unat v div 2 ^ (32 - k))"
  using contains_is4 contains_pfx4 by blast

lemma unat_masked_div:
  fixes w :: u32
  shows "unat (w AND NOT (mask n)) div 2 ^ n = unat w div 2 ^ n"
  by (simp add: unat_and_not_mask)

lemma contains_Masked:
  "k \<le> 32 \<Longrightarrow> prefix_Contains (Masked (pfx4 v k)) a = prefix_Contains (pfx4 v k) a"
  by (simp add: Masked_pfx4 contains_pfx4_iff unat_masked_div)

section \<open>Address and port pairs\<close>

record addrport =
  ap_addr :: addr
  ap_port :: u16

definition AddrPortFrom :: "addr \<Rightarrow> u16 \<Rightarrow> addrport" where
  "AddrPortFrom a p = \<lparr>ap_addr = a, ap_port = p\<rparr>"

definition addrport_IsValid :: "addrport \<Rightarrow> bool" where
  "addrport_IsValid ap = IsValid (ap_addr ap)"

section \<open>Parsing and printing\<close>

text \<open>
  \<^verbatim>\<open>parseIPv4Fields\<close>: \<open>start\<close> says that the byte is the first or follows a dot, \<open>v\<close> and \<open>dl\<close> are
  the value and the number of digits of the field read so far, \<open>fs\<close> the finished fields.
\<close>

fun parseIPv4Fields :: "string \<Rightarrow> bool \<Rightarrow> nat \<Rightarrow> nat \<Rightarrow> u8 list \<Rightarrow> u8 list option" where
  "parseIPv4Fields [] start v dl fs = (if length fs < 3 then None else Some (fs @ [of_nat v]))"
| "parseIPv4Fields (c # cs) start v dl fs =
     (if is_digit c then
        if dl = 1 \<and> v = 0 then None
        else let v' = v * 10 + (ord c - 48) in
          if 255 < v' then None else parseIPv4Fields cs False v' (dl + 1) fs
      else if c = CHR ''.'' then
        if start \<or> cs = [] then None
        else if length fs = 3 then None
        else parseIPv4Fields cs True 0 0 (fs @ [of_nat v])
      else None)"

definition parseIPv4 :: "string \<Rightarrow> addr option" where
  "parseIPv4 s = map_option AddrFrom4 (parseIPv4Fields s True 0 0 [])"

definition is_hex :: "char \<Rightarrow> bool" where
  "is_hex c \<longleftrightarrow> is_digit c \<or> (97 \<le> ord c \<and> ord c \<le> 102) \<or> (65 \<le> ord c \<and> ord c \<le> 70)"

definition hex_digit :: "char \<Rightarrow> nat" where
  "hex_digit c = (if is_digit c then ord c - 48 else if 97 \<le> ord c then ord c - 87 else ord c - 55)"

definition hex_val :: "string \<Rightarrow> nat" where
  "hex_val s = foldl (\<lambda>a c. a * 16 + hex_digit c) 0 s"

text \<open>
  The loop of \<^verbatim>\<open>parseIPv6\<close>: \<open>ip\<close> holds the bytes written so far and \<open>el\<close> the position of the
  ellipsis. The result is the unread rest of the string, the bytes and the ellipsis.
\<close>

function parseIPv6Loop ::
  "string \<Rightarrow> u8 list \<Rightarrow> nat option \<Rightarrow> (string \<times> u8 list \<times> nat option) option" where
  "parseIPv6Loop s ip el =
     (if 16 \<le> length ip then Some (s, ip, el)
      else let h = takeWhile is_hex s; r = dropWhile is_hex s in
        if 4 < length h \<or> h = [] then None
        else if r \<noteq> [] \<and> hd r = CHR ''.'' then
          if el = None \<and> length ip \<noteq> 12 then None
          else if 16 < length ip + 4 then None
          else (case parseIPv4Fields s True 0 0 [] of
                  None \<Rightarrow> None | Some fs \<Rightarrow> Some ([], ip @ fs, el))
        else let ip' = ip @ [of_nat (hex_val h div 256), of_nat (hex_val h mod 256)] in
          if r = [] then Some ([], ip', el)
          else if hd r \<noteq> CHR '':'' \<or> tl r = [] then None
          else if hd (tl r) = CHR '':'' then
            if el \<noteq> None then None
            else if tl (tl r) = [] then Some ([], ip', Some (length ip'))
            else parseIPv6Loop (tl (tl r)) ip' (Some (length ip'))
          else parseIPv6Loop (tl r) ip' el)"
  by pat_completeness auto
termination
proof (relation "measure (\<lambda>(s, ip, el). length s)", goal_cases)
  case 1
  then show ?case by simp
next
  case (2 s ip el h r ip')
  then have "0 < length r" "length r \<le> length s"
    by (auto simp: length_dropWhile_le)
  then have "length (tl (tl r)) < length s"
    unfolding length_tl by arith
  then show ?case by simp
next
  case (3 s ip el h r ip')
  then have "0 < length r" "length r \<le> length s"
    by (auto simp: length_dropWhile_le)
  then have "length (tl r) < length s"
    unfolding length_tl by arith
  then show ?case by simp
qed

declare parseIPv6Loop.simps [simp del]

definition be_bytes :: "u8 list \<Rightarrow> nat" where
  "be_bytes bs = foldl (\<lambda>a b. a * 256 + unat b) 0 bs"

definition parseIPv6 :: "string \<Rightarrow> addr option" where
  "parseIPv6 text =
     (let (s, zone, zone_ok) =
        (case Cut CHR ''%'' text of None \<Rightarrow> (text, [], True) | Some (a, z) \<Rightarrow> (a, z, z \<noteq> [])) in
      if \<not> zone_ok then None
      else if s = ''::'' then Some (IPv6 0 zone)
      else let (s', el) = (if HasPrefix s ''::'' then (drop 2 s, Some 0) else (s, None)) in
        case parseIPv6Loop s' [] el of
          None \<Rightarrow> None
        | Some (rest, ip, el') \<Rightarrow>
            if rest \<noteq> [] then None
            else if length ip < 16 then
              (case el' of
                 None \<Rightarrow> None
               | Some e \<Rightarrow>
                   Some (IPv6 (of_nat (be_bytes
                     (take e ip @ replicate (16 - length ip) 0 @ drop e ip))) zone))
            else if el' \<noteq> None then None
            else Some (IPv6 (of_nat (be_bytes ip)) zone))"

fun addr_kind :: "string \<Rightarrow> char option" where
  "addr_kind [] = None"
| "addr_kind (c # cs) = (if c \<in> {CHR ''.'', CHR '':'', CHR ''%''} then Some c else addr_kind cs)"

definition ParseAddr :: "string \<Rightarrow> addr option" where
  "ParseAddr s =
     (case addr_kind s of
        None \<Rightarrow> None
      | Some c \<Rightarrow>
          if c = CHR ''.'' then parseIPv4 s else if c = CHR '':'' then parseIPv6 s else None)"

fun cut_last :: "char \<Rightarrow> string \<Rightarrow> (string \<times> string) option" where
  "cut_last c [] = None"
| "cut_last c (x # xs) =
     (case cut_last c xs of
        Some (a, b) \<Rightarrow> Some (x # a, b)
      | None \<Rightarrow> if x = c then Some ([], xs) else None)"

definition ParsePrefix :: "string \<Rightarrow> prefix option" where
  "ParsePrefix s =
     (case cut_last CHR ''/'' s of
        None \<Rightarrow> None
      | Some (a, bs) \<Rightarrow>
          (case ParseAddr a of
             None \<Rightarrow> None
           | Some ip \<Rightarrow>
               if Zone ip \<noteq> [] then None
               else if 1 < length bs \<and> \<not> (49 \<le> ord (hd bs) \<and> ord (hd bs) \<le> 57) then None
               else case parse_dec bs of
                 None \<Rightarrow> None
               | Some n \<Rightarrow> if n \<le> BitLen ip then Some (PrefixFrom ip (int n)) else None))"

definition string4 :: "u32 \<Rightarrow> string" where
  "string4 w = Join (map (\<lambda>b. Itoa (unat b)) (bytes4 w)) ''.''"

text \<open>Parsing what \<^verbatim>\<open>Addr.String\<close> prints gives the address back.\<close>

lemma three_digits:
  assumes "x < 10" "x \<noteq> 0" "y < 10" "z < 10" "(x * 10 + y) * 10 + z < 256"
  shows "parseIPv4Fields (digit_char x # digit_char y # digit_char z # cs) start 0 0 fs
    = parseIPv4Fields cs False ((x * 10 + y) * 10 + z) (Suc (Suc (Suc 0))) fs"
  using assms by (simp add: Let_def)

lemma parse_octet:
  assumes "n < 256"
  shows "parseIPv4Fields (Itoa n @ cs) start 0 0 fs
    = parseIPv4Fields cs False n (length (Itoa n)) fs"
proof -
  consider "n < 10" | "10 \<le> n" "n < 100" | "100 \<le> n" by linarith
  then show ?thesis
  proof cases
    case 1
    then show ?thesis by (simp add: Itoa_1)
  next
    case 2
    have "n div 10 * 10 + n mod 10 = n" "n mod 10 < 10" by simp_all
    moreover have "n div 10 < 10" "n div 10 \<noteq> 0" "n div 10 \<le> 255"
      using 2 by (simp_all add: less_mult_imp_div_less div_eq_0_iff)
    ultimately show ?thesis using 2 assms by (simp add: Itoa_2)
  next
    case 3
    have a: "n div 100 < 10" "n div 100 \<noteq> 0" "n div 10 \<noteq> 0" "n div 10 < 256"
      using 3 assms by (simp_all add: less_mult_imp_div_less div_eq_0_iff)
    have "n div 100 = n div 10 div 10"
      by (simp add: div_mult2_eq [of n 10 10, symmetric])
    then have b: "n div 100 * 10 + n div 10 mod 10 = n div 10" by simp
    have c: "n div 10 * 10 + n mod 10 = n" "n div 10 mod 10 < 10" "n mod 10 < 10" by simp_all
    have "Itoa n = [digit_char (n div 100), digit_char (n div 10 mod 10), digit_char (n mod 10)]"
      using 3 assms by (intro Itoa_3) simp_all
    then show ?thesis
      using three_digits [of "n div 100" "n div 10 mod 10" "n mod 10" cs start fs, unfolded b c(1)]
        a(1,2) c(2,3) assms
      by (simp del: parseIPv4Fields.simps)
  qed
qed

lemma parse_octet_dot:
  assumes "n < 256" and "length fs < 3" and "cs \<noteq> []"
  shows "parseIPv4Fields (Itoa n @ CHR ''.'' # cs) start 0 0 fs
    = parseIPv4Fields cs True 0 0 (fs @ [of_nat n])"
  using assms by (simp add: parse_octet is_digit_def)

lemma string4_eq:
  "string4 w =
     Itoa (unat (bytes4 w ! 0)) @ ''.'' @ Itoa (unat (bytes4 w ! 1)) @ ''.'' @
     Itoa (unat (bytes4 w ! 2)) @ ''.'' @ Itoa (unat (bytes4 w ! 3))"
  by (simp add: string4_def bytes4_def)

lemma parseIPv4_string4: "parseIPv4 (string4 w) = Some (IPv4 w)"
proof -
  have l: "unat (b :: u8) < 256" for b
    using unsigned_less [of b, where ?'a = nat] by simp
  have "parseIPv4Fields (string4 w) True 0 0 [] = Some (bytes4 w)"
    unfolding string4_eq
    by (simp add: parse_octet_dot l)
      (simp add: parse_octet [where cs = "[]", simplified] l bytes4_def)
  then show ?thesis by (simp add: parseIPv4_def AddrFrom4_def)
qed

lemma addr_kind_string4: "addr_kind (string4 w) = Some CHR ''.''"
proof -
  have "addr_kind (ds @ CHR ''.'' # r) = Some CHR ''.''" if "list_all is_digit ds" for ds r
    using that by (induction ds) (auto simp: is_digit_def)
  then show ?thesis by (simp add: string4_eq Itoa_digits)
qed

lemma ParseAddr_string4 [simp]: "ParseAddr (string4 w) = Some (IPv4 w)"
  by (simp add: ParseAddr_def addr_kind_string4 parseIPv4_string4)

lemma string4_inj: "string4 v = string4 w \<longleftrightarrow> v = w"
  by (metis ParseAddr_string4 addr.inject(1) option.inject)

text \<open>Only the canonical spelling parses: the printed form of the result is the input.\<close>

lemma digit_char_ord: "is_digit c \<Longrightarrow> digit_char (ord c - 48) = c"
  by (simp add: digit_char_def is_digit_def)

definition field_text :: "nat \<Rightarrow> nat \<Rightarrow> string" where
  "field_text v dl = (if dl = 0 then [] else Itoa v)"

lemma field_text_extend:
  assumes "dl \<noteq> 0 \<longrightarrow> dl = length (Itoa v)" and "dl = 0 \<longrightarrow> v = 0" and "\<not> (dl = 1 \<and> v = 0)"
    and "is_digit c"
  shows "field_text (v * 10 + (ord c - 48)) (dl + 1) = field_text v dl @ [c]"
    and "dl + 1 = length (Itoa (v * 10 + (ord c - 48)))"
proof -
  have d: "ord c - 48 < 10" "digit_char (ord c - 48) = c"
    using assms(4) by (auto simp: is_digit_def digit_char_ord)
  have "Itoa (v * 10 + (ord c - 48)) = field_text v dl @ [c]"
  proof (cases "dl = 0")
    case True
    with assms(2) d show ?thesis by (simp add: Itoa_1 field_text_def)
  next
    case False
    with assms(1,3) have "0 < v" by (cases "v = 0") (auto simp: Itoa_1)
    with False d show ?thesis by (simp add: Itoa_extend field_text_def)
  qed
  then show "field_text (v * 10 + (ord c - 48)) (dl + 1) = field_text v dl @ [c]"
    and "dl + 1 = length (Itoa (v * 10 + (ord c - 48)))"
    using assms(1) by (cases "dl = 0"; simp add: field_text_def)+
qed

lemma parseIPv4Fields_canonical:
  assumes "parseIPv4Fields cs start v dl fs = Some bs" and "v \<le> 255" and "length fs \<le> 3"
    and "dl \<noteq> 0 \<longrightarrow> dl = length (Itoa v)" and "dl = 0 \<longrightarrow> v = 0"
    and "dl = 0 \<longrightarrow> start" and "cs = [] \<Longrightarrow> length fs = 3 \<Longrightarrow> dl \<noteq> 0"
  shows "length bs = 4 \<and> concat (map (\<lambda>b. Itoa (unat b) @ ''.'') fs) @ field_text v dl @ cs
    = Join (map (\<lambda>b. Itoa (unat b)) bs) ''.''"
  using assms
proof (induction cs start v dl fs rule: parseIPv4Fields.induct)
  case (1 start v dl fs)
  have "length fs = 3" using 1(1,3) by (simp split: if_splits)
  then obtain a b c where fs: "fs = [a, b, c]"
    by (auto simp only: numeral_3_eq_3 length_Suc_conv length_0_conv)
  have "unat (word_of_nat v :: u8) = v" using 1(2) by (simp add: unat_of_nat)
  moreover have "bs = [a, b, c, of_nat v]" using 1(1) fs by simp
  moreover have "field_text v dl = Itoa v" using 1(7) fs by (simp add: field_text_def)
  ultimately show ?case using fs by simp
next
  case (2 c cs start v dl fs)
  show ?case
  proof (cases "is_digit c")
    case True
    have rec: "\<not> (dl = 1 \<and> v = 0)" "v * 10 + (ord c - 48) \<le> 255"
      "parseIPv4Fields cs False (v * 10 + (ord c - 48)) (dl + 1) fs = Some bs"
      using "2.prems"(1) True by (auto simp: Let_def split: if_splits)
    note ext = field_text_extend [OF "2.prems"(4,5) rec(1) True]
    have "length bs = 4 \<and> concat (map (\<lambda>b. Itoa (unat b) @ ''.'') fs)
        @ field_text (v * 10 + (ord c - 48)) (dl + 1) @ cs
        = Join (map (\<lambda>b. Itoa (unat b)) bs) ''.''"
      by (rule "2.IH"(1)) (use True rec ext(2) "2.prems"(3) in auto)
    then show ?thesis by (simp only: ext(1)) simp
  next
    case False
    then have c: "c = CHR ''.''" "\<not> start" "cs \<noteq> []" "length fs \<noteq> 3"
      "parseIPv4Fields cs True 0 0 (fs @ [of_nat v]) = Some bs"
      using "2.prems"(1) by (auto split: if_splits)
    have "field_text v dl = Itoa v" using "2.prems"(6) c(2) by (auto simp: field_text_def)
    moreover have "unat (word_of_nat v :: u8) = v" using "2.prems"(2) by (simp add: unat_of_nat)
    moreover have "length bs = 4 \<and> concat (map (\<lambda>b. Itoa (unat b) @ ''.'') (fs @ [of_nat v]))
        @ field_text 0 0 @ cs = Join (map (\<lambda>b. Itoa (unat b)) bs) ''.''"
      by (rule "2.IH"(2)) (use False c "2.prems"(3) in auto)
    ultimately show ?thesis by (simp add: c(1) field_text_def)
  qed
qed

lemma parseIPv4_canonical:
  assumes "parseIPv4 s = Some (IPv4 w)"
  shows "s = string4 w"
proof -
  obtain bs where b: "parseIPv4Fields s True 0 0 [] = Some bs" "w = be32 bs"
    using assms by (auto simp: parseIPv4_def AddrFrom4_def)
  from parseIPv4Fields_canonical [OF b(1)]
  have "length bs = 4" "s = Join (map (\<lambda>b. Itoa (unat b)) bs) ''.''"
    by (auto simp: field_text_def)
  moreover from this(1) have "length bs = Suc (Suc (Suc (Suc 0)))" by simp
  then obtain x y z u where "bs = [x, y, z, u]"
    by (auto simp only: length_Suc_conv length_0_conv)
  ultimately show ?thesis by (simp add: string4_def b(2))
qed

lemma ParseAddr_Is4D:
  assumes "ParseAddr s = Some (IPv4 w)"
  shows "s = string4 w"
proof -
  have "parseIPv6 s \<noteq> Some (IPv4 w)"
  proof
    assume "parseIPv6 s = Some (IPv4 w)"
    then show False
      unfolding parseIPv6_def Let_def
      by (auto split: option.split_asm prod.split_asm if_split_asm)
  qed
  with assms show ?thesis
    by (auto simp: ParseAddr_def parseIPv4_canonical split: option.splits if_splits)
qed

end
