(* ===== verification/Allocator.thy ===== *)
theory Allocator
  imports Netip
begin

text \<open>
  The node's pod-address pool (\<^verbatim>\<open>pkg/podnet/allocator.go\<close>, \<^verbatim>\<open>pkg/podnet/meshegress.go\<close>): how a
  cluster prefix is cut into one /24 per node, and the allocator that hands out the host addresses
  .2 to .254 of the node's /24. The contract the pod network relies on is the locale \<open>ip_pool\<close>; the
  allocator is shown to satisfy it.
\<close>

section \<open>Errors of the package\<close>

datatype podnet_error =
    ErrPoolExhausted
  | ErrNotAllocated
  | ErrOutOfRange
  | ErrEmptyPodID
  | ErrBackendMismatch
  | ErrIPInUse
  | ErrBoundElsewhere addr addr
  | PanicAs4

section \<open>Cutting the cluster prefix\<close>

definition nodeCIDRBits :: nat where
  "nodeCIDRBits = 24"

definition NodeCIDR :: "prefix \<Rightarrow> int \<Rightarrow> podnet_error + prefix" where
  "NodeCIDR clusterCIDR index =
     (if \<not> prefix_IsValid clusterCIDR then Inl ErrOutOfRange
      else let c = Masked clusterCIDR in
        if Is6 (p_ip c) then Inl ErrOutOfRange
        else if int nodeCIDRBits < Bits c then Inl ErrOutOfRange
        else if index < 0 then Inl ErrOutOfRange
        else let maxNodes = 2 ^ nat (int nodeCIDRBits - Bits c) in
          if maxNodes \<le> index then Inl ErrOutOfRange
          else case As4 (p_ip c) of
            None \<Rightarrow> Inl PanicAs4
          | Some base \<Rightarrow>
              let v = be32 base + push_bit (32 - nodeCIDRBits) (word_of_int index) in
              Inr (PrefixFrom (AddrFrom4 (bytes4 v)) (int nodeCIDRBits)))"

definition NodeIndex :: "prefix \<Rightarrow> prefix \<Rightarrow> podnet_error + nat" where
  "NodeIndex clusterCIDR nodeCIDR =
     (if \<not> prefix_IsValid clusterCIDR \<or> \<not> prefix_IsValid nodeCIDR then Inl ErrOutOfRange
      else let c = Masked clusterCIDR; n = Masked nodeCIDR in
        if \<not> Is4 (p_ip c) \<or> \<not> Is4 (p_ip n) then Inl ErrOutOfRange
        else if Bits n \<noteq> int nodeCIDRBits then Inl ErrOutOfRange
        else if int nodeCIDRBits < Bits c \<or> \<not> prefix_Contains c (p_ip n) then Inl ErrOutOfRange
        else case (As4 (p_ip c), As4 (p_ip n)) of
          (Some b, Some d) \<Rightarrow> Inr (unat (drop_bit (32 - nodeCIDRBits) (be32 d - be32 b)))
        | _ \<Rightarrow> Inl PanicAs4)"

text \<open>Overwriting the last byte of the network address (the sources call it on a masked /24).\<close>

definition withLastByte :: "u8 \<Rightarrow> addr \<Rightarrow> addr option" where
  "withLastByte x network = map_option (\<lambda>b. AddrFrom4 (b[3 := x])) (As4 network)"

definition lastHostInSlash24 :: "addr \<Rightarrow> addr option" where
  "lastHostInSlash24 network = withLastByte 254 network"

definition broadcastInSlash24 :: "addr \<Rightarrow> addr option" where
  "broadcastInSlash24 network = withLastByte 255 network"

definition MeshEgressIP :: "prefix \<Rightarrow> podnet_error + addr" where
  "MeshEgressIP nodeCIDR =
     (if \<not> prefix_IsValid nodeCIDR \<or> \<not> Is4 (p_ip nodeCIDR) \<or> Bits nodeCIDR \<noteq> int nodeCIDRBits
      then Inl ErrOutOfRange
      else Inr (Next (p_ip (Masked nodeCIDR))))"

definition MeshLinkIP :: "prefix \<Rightarrow> podnet_error + addr" where
  "MeshLinkIP nodeCIDR =
     (if \<not> prefix_IsValid nodeCIDR \<or> \<not> Is4 (p_ip nodeCIDR) \<or> Bits nodeCIDR \<noteq> int nodeCIDRBits
      then Inl ErrOutOfRange
      else case broadcastInSlash24 (p_ip (Masked nodeCIDR)) of
        None \<Rightarrow> Inl PanicAs4 | Some a \<Rightarrow> Inr a)"

section \<open>The allocator\<close>

record Allocator =
  al_cidr :: prefix
  al_meshEgress :: addr
  al_first :: addr
  al_last :: addr
  al_next :: addr
  allocated :: "addr set"

definition NewAllocator :: "prefix \<Rightarrow> podnet_error + Allocator" where
  "NewAllocator nodeCIDR =
     (if \<not> prefix_IsValid nodeCIDR then Inl ErrOutOfRange
      else if Is6 (p_ip nodeCIDR) then Inl ErrOutOfRange
      else if Bits nodeCIDR \<noteq> int nodeCIDRBits then Inl ErrOutOfRange
      else let c = Masked nodeCIDR; network = p_ip c; egress = Next network; first = Next egress in
        case lastHostInSlash24 network of
          None \<Rightarrow> Inl PanicAs4
        | Some l \<Rightarrow>
            Inr \<lparr>al_cidr = c, al_meshEgress = egress, al_first = first, al_last = l,
                 al_next = first, allocated = {}\<rparr>)"

text \<open>\<^verbatim>\<open>usableCount\<close> would panic for bounds that are not IPv4; a constructed allocator has none.\<close>

definition usableCount :: "Allocator \<Rightarrow> nat" where
  "usableCount a =
     (case (As4 (al_first a), As4 (al_last a)) of
        (Some f, Some l) \<Rightarrow> unat (be32 l - be32 f) + 1
      | _ \<Rightarrow> 0)"

definition inHostRange :: "Allocator \<Rightarrow> addr \<Rightarrow> bool" where
  "inHostRange a ip \<longleftrightarrow> Is4 ip \<and> prefix_Contains (al_cidr a) ip \<and> al_first a \<le> ip \<and> ip \<le> al_last a"

text \<open>The loop of \<^verbatim>\<open>Allocate\<close>; its counter runs to \<^verbatim>\<open>usableCount()\<close>.\<close>

fun alloc_scan :: "nat \<Rightarrow> Allocator \<Rightarrow> addr \<Rightarrow> addr option" where
  "alloc_scan 0 a candidate = None"
| "alloc_scan (Suc n) a candidate =
     (let c = (if \<not> IsValid candidate \<or> al_last a < candidate then al_first a else candidate) in
      if c \<notin> allocated a then Some c else alloc_scan n a (Next c))"

definition Allocate :: "Allocator \<Rightarrow> (podnet_error + addr) \<times> Allocator" where
  "Allocate a =
     (case alloc_scan (usableCount a) a (al_next a) of
        None \<Rightarrow> (Inl ErrPoolExhausted, a)
      | Some c \<Rightarrow> (Inr c, a\<lparr>allocated := insert c (allocated a), al_next := Next c\<rparr>))"

definition AllocateSpecific :: "Allocator \<Rightarrow> addr \<Rightarrow> (podnet_error + bool) \<times> Allocator" where
  "AllocateSpecific a ip =
     (if \<not> inHostRange a ip then (Inl ErrOutOfRange, a)
      else if ip \<in> allocated a then (Inr True, a)
      else (Inr False, a\<lparr>allocated := insert ip (allocated a)\<rparr>))"

definition Release :: "Allocator \<Rightarrow> addr \<Rightarrow> (podnet_error + unit) \<times> Allocator" where
  "Release a ip =
     (if ip \<notin> allocated a then (Inl ErrNotAllocated, a)
      else (Inr (), a\<lparr>allocated := allocated a - {ip}\<rparr>))"

definition Allocated :: "Allocator \<Rightarrow> addr \<Rightarrow> bool" where
  "Allocated a ip \<longleftrightarrow> ip \<in> allocated a"

definition InUse :: "Allocator \<Rightarrow> nat" where
  "InUse a = card (allocated a)"

definition Capacity :: "Allocator \<Rightarrow> nat" where
  "Capacity a = usableCount a"

definition Snapshot :: "Allocator \<Rightarrow> addr list" where
  "Snapshot a = sorted_list_of_set (allocated a)"

section \<open>Node prefixes\<close>

lemma pow_split:
  assumes "k \<le> 24"
  shows "2 ^ (32 - k) = 2 ^ (24 - k) * (256 :: nat)"
proof -
  have "32 - k = (24 - k) + 8" using assms by simp
  then show ?thesis by (simp only: power_add) simp
qed

lemma node_base_bound:
  fixes w :: u32
  assumes "k \<le> 24" and "i < 2 ^ (24 - k)"
  shows "unat (w AND NOT (mask (32 - k))) + i * 256 < 2 ^ 32"
proof -
  let ?M = "2 ^ (32 - k) :: nat"
  have M: "?M = 2 ^ (24 - k) * 256"
    using assms(1) by (rule pow_split)
  have "unat w div ?M < 2 ^ k"
    using unsigned_less [of w, where ?'a = nat] assms(1)
    by (intro less_mult_imp_div_less) (simp add: power_add [symmetric])
  then have "unat w div ?M * ?M + ?M \<le> 2 ^ k * ?M"
    by (metis Suc_leI add.commute mult_Suc mult_le_mono1)
  moreover have "2 ^ k * ?M = 2 ^ 32"
    using assms(1) by (simp add: power_add [symmetric])
  moreover have "i * 256 < ?M"
    using assms(2) M by simp
  ultimately show ?thesis
    by (simp add: unat_and_not_mask)
qed

text \<open>The network of the node with index \<open>n\<close>.\<close>

definition node_net :: "u32 \<Rightarrow> nat \<Rightarrow> nat \<Rightarrow> u32" where
  "node_net w k n = (w AND NOT (mask (32 - k))) + push_bit 8 (word_of_nat n)"

lemma unat_node_net:
  assumes "k \<le> 24" and "n < 2 ^ (24 - k)"
  shows "unat (node_net w k n) = unat (w AND NOT (mask (32 - k))) + n * 256"
proof -
  have b: "unat (w AND NOT (mask (32 - k))) + n * 256 < 2 ^ 32"
    using node_base_bound [OF assms] .
  then have "unat (push_bit 8 (word_of_nat n) :: u32) = n * 256"
    by (simp add: unsigned_push_bit_eq unat_of_nat take_bit_nat_def push_bit_nat_def)
  with b show ?thesis
    by (simp add: node_net_def unat_plus_if')
qed

lemma NodeCIDR_pfx4:
  assumes "k \<le> 24" and "n < 2 ^ (24 - k)"
  shows "NodeCIDR (pfx4 w k) (int n) = Inr (pfx4 (node_net w k n) 24)"
proof -
  have "nat (24 - int k) = 24 - k" by simp
  moreover have "int n < 2 ^ (24 - k)"
    using assms(2) by (metis of_nat_less_iff of_nat_numeral of_nat_power)
  ultimately show ?thesis
    using assms(1)
    by (simp add: NodeCIDR_def nodeCIDRBits_def Masked_pfx4 Let_def AddrFrom4_def node_net_def)
qed

lemma NodeCIDR_InrE:
  assumes "NodeCIDR c i = Inr p" and "wf_prefix c"
  obtains w k n where "c = pfx4 w k" "k \<le> 24" "i = int n" "n < 2 ^ (24 - k)"
    "p = pfx4 (node_net w k n) 24"
proof -
  have v: "prefix_IsValid c" and n6: "\<not> Is6 (p_ip (Masked c))"
    and b: "Bits (Masked c) \<le> 24" and i: "0 \<le> i" "i < 2 ^ nat (24 - Bits (Masked c))"
    using assms(1) by (auto simp: NodeCIDR_def Let_def nodeCIDRBits_def split: if_splits)
  have "Is4 (p_ip c)"
  proof (cases "p_ip c")
    case NoAddr
    with v assms(2) show ?thesis by (simp add: wf_prefix_def prefix_IsValid_def)
  next
    case (IPv6 x z)
    with v assms(2) n6 show ?thesis
      by (auto simp: Masked_def Bits_def wf_prefix_def prefix_IsValid_def PrefixFrom_def Let_def
          split: if_splits)
  qed simp
  with v obtain w k where c: "c = pfx4 w k" by (rule pfx4_cases)
  then have k: "k \<le> 32" using assms(2) by simp
  with b c have k24: "k \<le> 24" by (simp add: Masked_pfx4)
  obtain n where n: "i = int n" using i(1) by (metis nonneg_int_cases)
  have "nat (24 - int k) = 24 - k" by simp
  then have "int n < 2 ^ (24 - k)" using i(2) c k n by (simp add: Masked_pfx4)
  then have n': "n < 2 ^ (24 - k)"
    by (metis of_nat_less_iff of_nat_numeral of_nat_power)
  moreover have "p = pfx4 (node_net w k n) 24"
    using assms(1) NodeCIDR_pfx4 [OF k24 n'] c n by simp
  ultimately show thesis using that c k24 n by blast
qed

lemma masked_multiple:
  fixes w :: u32
  assumes "k \<le> 24"
  obtains q where "unat (w AND NOT (mask (32 - k))) = q * 2 ^ (24 - k) * 256"
proof -
  have "unat (w AND NOT (mask (32 - k))) = unat w div 2 ^ (32 - k) * 2 ^ (24 - k) * 256"
    unfolding unat_and_not_mask pow_split [OF assms] by (simp only: mult.assoc)
  then show thesis by (rule that)
qed

lemma node_net_div:
  assumes "k \<le> 24" and "n < 2 ^ (24 - k)"
  shows "unat (node_net w k n) mod 256 = 0"
    and "unat (node_net w k n) div 2 ^ (32 - k) = unat w div 2 ^ (32 - k)"
proof -
  obtain q where q: "unat (w AND NOT (mask (32 - k))) = q * 2 ^ (24 - k) * 256"
    using masked_multiple [OF assms(1)] .
  show "unat (node_net w k n) mod 256 = 0"
    using unat_node_net [OF assms] q by simp
  have M: "2 ^ (32 - k) = 2 ^ (24 - k) * (256 :: nat)"
    using assms(1) by (rule pow_split)
  have "unat (node_net w k n) = n * 256 + unat w div 2 ^ (32 - k) * 2 ^ (32 - k)"
    using unat_node_net [OF assms] by (simp add: unat_and_not_mask)
  moreover have "n * 256 < 2 ^ (32 - k)" unfolding M using assms(2) by simp
  ultimately show "unat (node_net w k n) div 2 ^ (32 - k) = unat w div 2 ^ (32 - k)"
    by (simp only: div_mult_self3 [OF power_not_zero] zero_neq_numeral div_less not_False_eq_True) simp
qed

lemma masked_id:
  fixes m :: u32
  assumes "unat m mod 256 = 0"
  shows "m AND NOT (mask 8) = m"
proof -
  have "unat m = unat m div 256 * 256"
    using assms by (simp add: mod_eq_0_iff_dvd)
  then have "unat (m AND NOT (mask 8)) = unat m"
    using unat_and_not_mask [of m 8] by simp
  then show ?thesis by (simp add: word_unat_eq_iff)
qed

lemma unat_shifted_index:
  assumes "k \<le> 24" and "n < 2 ^ (24 - k)"
  shows "unat (drop_bit 8 (push_bit 8 (word_of_nat n :: u32))) = n"
proof -
  have "n * 256 < 2 ^ 32"
    using node_base_bound [OF assms, of 0] by simp
  then have "unat (push_bit 8 (word_of_nat n) :: u32) = n * 256"
    by (simp add: unsigned_push_bit_eq unat_of_nat take_bit_nat_def push_bit_nat_def)
  then show ?thesis
    by (simp only: unat_drop_bit_eq drop_bit_nat_def) simp
qed

lemma NodeIndex_node_net:
  assumes "k \<le> 24" and "n < 2 ^ (24 - k)"
  shows "NodeIndex (pfx4 w k) (pfx4 (node_net w k n) 24) = Inr n"
proof -
  let ?b = "w AND NOT (mask (32 - k))"
  have m: "Masked (pfx4 (node_net w k n) 24) = pfx4 (node_net w k n) 24"
    using masked_id [OF node_net_div(1) [OF assms]] by (simp add: Masked_pfx4)
  have c: "Masked (pfx4 w k) = pfx4 ?b k"
    using assms(1) by (simp add: Masked_pfx4)
  have i: "prefix_Contains (pfx4 ?b k) (IPv4 (node_net w k n))"
    by (simp add: contains_pfx4 node_net_div(2) [OF assms] unat_masked_div)
  have d: "node_net w k n - ?b = push_bit 8 (word_of_nat n)"
    by (simp add: node_net_def)
  show ?thesis
    using assms(1) i
    by (simp only: NodeIndex_def m c Let_def pfx4_sel As4_IPv4 option.case prod.case be32_bytes4 d
        nodeCIDRBits_def Is4.simps of_nat_numeral of_nat_le_iff if_False if_True simp_thms)
      (simp add: unat_shifted_index [OF assms, simplified] del: drop_bit_push_bit)
qed

lemma node_nets_disjoint:
  assumes "k \<le> 24" and "m < 2 ^ (24 - k)" and "n < 2 ^ (24 - k)" and "m \<noteq> n"
  shows "\<not> (prefix_Contains (pfx4 (node_net w k m) 24) a
    \<and> prefix_Contains (pfx4 (node_net w k n) 24) a)"
proof
  assume "prefix_Contains (pfx4 (node_net w k m) 24) a
    \<and> prefix_Contains (pfx4 (node_net w k n) 24) a"
  then have "unat (node_net w k m) div 256 = unat (node_net w k n) div 256"
    by (auto simp: contains_pfx4_iff)
  then have "unat (node_net w k m) = unat (node_net w k n)"
    using node_net_div(1) [OF assms(1,2), of w] node_net_div(1) [OF assms(1,3), of w]
    by (metis div_mult_mod_eq)
  then show False
    using unat_node_net [OF assms(1,2)] unat_node_net [OF assms(1,3)] assms(4) by simp
qed

lemma node_net_inside:
  assumes "k \<le> 24" and "n < 2 ^ (24 - k)"
    and "prefix_Contains (pfx4 (node_net w k n) 24) a"
  shows "prefix_Contains (pfx4 w k) a"
proof -
  from assms(3) obtain v where a: "a = IPv4 v"
    and v: "unat v div 256 = unat (node_net w k n) div 256"
    by (auto simp: contains_pfx4_iff)
  have "x div 2 ^ (32 - k) = x div 256 div 2 ^ (24 - k)" for x :: nat
    unfolding pow_split [OF assms(1)] by (simp add: div_mult2_eq mult.commute)
  with v have "unat v div 2 ^ (32 - k) = unat (node_net w k n) div 2 ^ (32 - k)"
    by presburger
  then show ?thesis
    by (simp add: a contains_pfx4 node_net_div(2) [OF assms(1,2)])
qed

section \<open>The hosts of a /24\<close>

definition host :: "u32 \<Rightarrow> nat \<Rightarrow> addr" where
  "host net k = IPv4 (net + word_of_nat k)"

definition slash24 :: "u32 \<Rightarrow> bool" where
  "slash24 net \<longleftrightarrow> unat net mod 256 = 0"

lemma unat_host:
  assumes "slash24 net" and "k < 256"
  shows "unat (net + word_of_nat k) = unat net + k"
proof -
  have "unat net div 256 < 2 ^ 24"
    using unsigned_less [of net, where ?'a = nat] by (simp add: less_mult_imp_div_less)
  moreover have "unat net = unat net div 256 * 256"
    using assms(1) unfolding slash24_def by (metis add.right_neutral div_mult_mod_eq)
  ultimately have "unat net + k < 2 ^ 32"
    using assms(2) by (simp only: power_numeral) simp
  then show ?thesis
    by (simp add: unat_plus_if' unat_of_nat)
qed

lemma host_le_iff:
  "slash24 net \<Longrightarrow> j < 256 \<Longrightarrow> k < 256 \<Longrightarrow> host net j \<le> host net k \<longleftrightarrow> j \<le> k"
  by (simp add: host_def word_le_nat_alt unat_host)

lemma host_less_iff:
  "slash24 net \<Longrightarrow> j < 256 \<Longrightarrow> k < 256 \<Longrightarrow> host net j < host net k \<longleftrightarrow> j < k"
  by (simp add: less_le_not_le [of "host net j"] less_le_not_le [of j] host_le_iff)

lemma host_eq_iff:
  "slash24 net \<Longrightarrow> j < 256 \<Longrightarrow> k < 256 \<Longrightarrow> host net j = host net k \<longleftrightarrow> j = k"
  by (simp add: order.eq_iff [of "host net j"] order.eq_iff [of j] host_le_iff)

lemma Next_host:
  assumes "slash24 net" and "k < 255"
  shows "Next (host net k) = host net (Suc k)"
proof -
  have "unat (net + word_of_nat (Suc k)) = unat net + Suc k"
    using assms by (intro unat_host) simp_all
  then have "net + word_of_nat (Suc k) \<noteq> 0"
    by (metis Zero_neq_Suc add_is_0 unsigned_0)
  then show ?thesis
    by (simp add: host_def ac_simps)
qed

lemma slash24_masked: "slash24 (w AND NOT (mask 8))"
  using unat_and_not_mask [of w 8] by (simp add: slash24_def)

lemma contains_slash24_iff:
  assumes "slash24 net"
  shows "prefix_Contains (pfx4 net 24) a \<longleftrightarrow> (\<exists>k < 256. a = host net k)"
proof
  assume "prefix_Contains (pfx4 net 24) a"
  then obtain w where a: "a = IPv4 w" and w: "unat w div 256 = unat net div 256"
    by (auto simp: contains_pfx4_iff)
  let ?k = "unat w mod 256"
  have n: "unat net = unat net div 256 * 256"
    using assms unfolding slash24_def by (metis add.right_neutral div_mult_mod_eq)
  have "unat (net + word_of_nat ?k) = unat net + ?k"
    using assms by (intro unat_host) simp_all
  also have "\<dots> = unat w"
    using n w by (metis div_mult_mod_eq)
  finally have "a = host net ?k"
    by (simp add: a host_def word_unat_eq_iff)
  then show "\<exists>k < 256. a = host net k"
    by (intro exI [of _ ?k]) simp
next
  assume "\<exists>k < 256. a = host net k"
  then obtain k where k: "k < 256" "a = host net k" by blast
  obtain q where "unat net = 256 * q"
    using assms unfolding slash24_def by blast
  then have "(unat net + k) div 256 = unat net div 256"
    using k(1) by simp
  then show "prefix_Contains (pfx4 net 24) a"
    using assms k by (simp add: host_def contains_pfx4 unat_host)
qed

section \<open>The allocator's invariant\<close>

definition alloc_inv :: "u32 \<Rightarrow> Allocator \<Rightarrow> bool" where
  "alloc_inv net a \<longleftrightarrow> slash24 net \<and> al_cidr a = pfx4 net 24 \<and> al_meshEgress a = host net 1
     \<and> al_first a = host net 2 \<and> al_last a = host net 254
     \<and> (\<exists>k. 2 \<le> k \<and> k \<le> 255 \<and> al_next a = host net k)
     \<and> allocated a \<subseteq> host net ` {2..254}"

definition wf_alloc :: "Allocator \<Rightarrow> bool" where
  "wf_alloc a \<longleftrightarrow> (\<exists>net. alloc_inv net a)"

lemma NewAllocator_inv:
  assumes "NewAllocator p = Inr a"
  shows "\<exists>w. p = pfx4 w 24 \<and> alloc_inv (w AND NOT (mask 8)) a \<and> allocated a = {}
    \<and> al_cidr a = Masked p"
proof -
  have v: "prefix_IsValid p" and b: "Bits p = 24" and n6: "\<not> Is6 (p_ip p)"
    and "p_ip p \<noteq> NoAddr"
    using assms
    by (auto simp: NewAllocator_def nodeCIDRBits_def lastHostInSlash24_def withLastByte_def
        Masked_def As4_def Let_def split: if_splits)
  then have "Is4 (p_ip p)" by (cases "p_ip p") auto
  with v obtain w k where "p = pfx4 w k" by (rule pfx4_cases)
  with b have p: "p = pfx4 w 24" by simp
  let ?net = "w AND NOT (mask 8)"
  have net: "slash24 ?net" by (rule slash24_masked)
  have h0: "IPv4 ?net = host ?net 0" by (simp add: host_def)
  have "be32 ((bytes4 ?net)[3 := 254]) = ?net + word_of_nat 254"
  proof -
    have "unat (be32 ((bytes4 ?net)[3 := 254])) = unat ?net div 256 * 256 + 254"
      using unat_and_or_byte [of ?net 254] by (simp add: be32_last)
    also have "\<dots> = unat (?net + word_of_nat 254)"
      using unat_host [OF net, of 254] net unfolding slash24_def
      by (metis add.right_neutral div_mult_mod_eq numeral_less_iff semiring_norm(68,76,78,81))
    finally show ?thesis by (simp add: word_unat_eq_iff)
  qed
  then have l: "lastHostInSlash24 (IPv4 ?net) = Some (host ?net 254)"
    by (simp add: lastHostInSlash24_def withLastByte_def AddrFrom4_def host_def)
  have "a = \<lparr>al_cidr = pfx4 ?net 24, al_meshEgress = host ?net 1, al_first = host ?net 2,
      al_last = host ?net 254, al_next = host ?net 2, allocated = {}\<rparr>"
    using assms p l Next_host [OF net, of 0] Next_host [OF net, of 1]
    by (simp add: NewAllocator_def nodeCIDRBits_def Masked_pfx4 Let_def h0 numeral_2_eq_2
        del: Next.simps)
  then show ?thesis
    using p net by (auto simp: alloc_inv_def Masked_pfx4)
qed

lemma usableCount_inv:
  assumes "alloc_inv net a"
  shows "usableCount a = 253"
proof -
  have "unat (net + word_of_nat 254 - (net + word_of_nat 2) :: u32) = 252"
    by simp
  then show ?thesis
    using assms by (simp add: usableCount_def alloc_inv_def host_def)
qed

lemma inHostRange_inv:
  assumes "alloc_inv net a"
  shows "inHostRange a ip \<longleftrightarrow> ip \<in> host net ` {2..254}"
proof -
  have net: "slash24 net" using assms by (simp add: alloc_inv_def)
  have "inHostRange a (host net k) \<longleftrightarrow> k \<in> {2..254}" if "k < 256" for k
  proof -
    have "prefix_Contains (pfx4 net 24) (host net k)"
      using that contains_slash24_iff [OF net] by blast
    then show ?thesis
      using assms net that by (simp add: inHostRange_def alloc_inv_def host_le_iff)
        (simp add: host_def)
  qed
  moreover have "inHostRange a ip \<Longrightarrow> \<exists>k < 256. ip = host net k"
    using assms net contains_slash24_iff [OF net] by (auto simp: inHostRange_def alloc_inv_def)
  moreover have "host net ` {2..254} \<subseteq> host net ` {..<256}" by auto
  ultimately show ?thesis by (auto simp: host_eq_iff [OF net])
qed

lemma finite_allocated: "alloc_inv net a \<Longrightarrow> finite (allocated a)"
  by (auto simp: alloc_inv_def dest: finite_subset)

lemma card_hosts:
  assumes "slash24 net"
  shows "card (host net ` {2..254}) = 253"
proof -
  have "inj_on (host net) {2..254}"
  proof (rule inj_onI)
    fix i j assume "i \<in> {2..254}" "j \<in> {2..254}" "host net i = host net j"
    then show "i = j" using host_eq_iff [OF assms, of i j] by simp
  qed
  then show ?thesis by (simp add: card_image)
qed

section \<open>What Allocate returns\<close>

text \<open>The \<open>j\<close>-th candidate of a scan that starts at host \<open>k\<close>: the hosts 2 to 254, cyclically.\<close>

definition cand :: "nat \<Rightarrow> nat \<Rightarrow> nat" where
  "cand k j = 2 + (k - 2 + j) mod 253"

lemma cand_range: "2 \<le> cand k j" "cand k j \<le> 254"
proof -
  have "(k - 2 + j) mod 253 < 253" by (rule mod_less_divisor) simp
  then show "2 \<le> cand k j" "cand k j \<le> 254"
    unfolding cand_def by simp_all
qed

lemma cand_0: "2 \<le> k \<Longrightarrow> k \<le> 255 \<Longrightarrow> cand k 0 = (if 254 < k then 2 else k)"
  by (cases "k = 255") (simp_all add: cand_def)

lemma cand_Suc: "cand (Suc (cand k 0)) j = cand k (Suc j)"
proof -
  have "Suc (cand k 0) - 2 + j = (k - 2) mod 253 + Suc j"
    unfolding cand_def by simp
  then have "(Suc (cand k 0) - 2 + j) mod 253 = (k - 2 + Suc j) mod 253"
    by (simp only: mod_add_left_eq)
  then show ?thesis unfolding cand_def by (rule arg_cong)
qed

lemma cand_onto:
  assumes "2 \<le> t" and "t \<le> 254"
  obtains j where "j < 253" "cand k j = t"
proof -
  let ?m = "(k - 2) mod 253"
  let ?j = "(t - 2 + (253 - ?m)) mod 253"
  have m: "?m < 253" by simp
  have "(k - 2 + ?j) mod 253 = (?m + (t - 2 + (253 - ?m))) mod 253"
    by (simp only: mod_add_eq mod_add_right_eq mod_add_left_eq)
  also have "?m + (t - 2 + (253 - ?m)) = (t - 2) + 253"
    using m by linarith
  also have "((t - 2) + 253) mod 253 = t - 2"
    unfolding mod_add_self2 using assms by (intro mod_less) linarith
  finally have "cand k ?j = t" using assms by (simp add: cand_def)
  then show thesis by (intro that [of ?j]) simp_all
qed

lemma find_map: "find P (map f xs) = map_option f (find (\<lambda>x. P (f x)) xs)"
  by (induction xs) auto

lemma upt_Suc_shift: "[0..<Suc n] = 0 # map Suc [0..<n]"
  by (simp add: map_Suc_upt upt_conv_Cons del: upt_Suc)

lemma alloc_scan_find:
  assumes "alloc_inv net a" and "2 \<le> k" and "k \<le> 255"
  shows "alloc_scan n a (host net k)
    = map_option (\<lambda>j. host net (cand k j)) (find (\<lambda>j. host net (cand k j) \<notin> allocated a) [0..<n])"
  using assms(2,3)
proof (induction n arbitrary: k)
  case 0
  then show ?case by simp
next
  case (Suc n)
  have net: "slash24 net" and fl: "al_first a = host net 2" "al_last a = host net 254"
    using assms(1) by (auto simp: alloc_inv_def)
  have c: "(if \<not> IsValid (host net k) \<or> al_last a < host net k then al_first a else host net k)
      = host net (cand k 0)"
    using Suc.prems net fl by (simp add: cand_0 host_less_iff) (simp add: host_def)
  have n: "Next (host net (cand k 0)) = host net (Suc (cand k 0))"
    using net cand_range [of k 0] by (intro Next_host) simp_all
  have "alloc_scan n a (host net (Suc (cand k 0))) = map_option (\<lambda>j. host net (cand k (Suc j)))
      (find (\<lambda>j. host net (cand k (Suc j)) \<notin> allocated a) [0..<n])"
    using Suc.IH [of "Suc (cand k 0)"] cand_range [of k 0] Suc.prems by (simp add: cand_Suc)
  then show ?case
    unfolding alloc_scan.simps Let_def c n
    by (simp add: upt_Suc_shift find_map option.map_comp comp_def del: upt_Suc)
qed

lemma Allocate_cases:
  assumes "alloc_inv net a"
  obtains (free) k j where "al_next a = host net k" "j < 253"
      "host net (cand k j) \<notin> allocated a"
      "\<And>i. i < j \<Longrightarrow> host net (cand k i) \<in> allocated a"
      "Allocate a = (Inr (host net (cand k j)),
         a\<lparr>allocated := insert (host net (cand k j)) (allocated a),
           al_next := host net (Suc (cand k j))\<rparr>)"
  | (full) "allocated a = host net ` {2..254}" "Allocate a = (Inl ErrPoolExhausted, a)"
proof -
  obtain k where k: "2 \<le> k" "k \<le> 255" "al_next a = host net k"
    using assms by (auto simp: alloc_inv_def)
  let ?f = "find (\<lambda>j. host net (cand k j) \<notin> allocated a) [0..<253]"
  have scan: "alloc_scan (usableCount a) a (al_next a) = map_option (\<lambda>j. host net (cand k j)) ?f"
    using assms k by (simp add: usableCount_inv alloc_scan_find)
  show thesis
  proof (cases ?f)
    case None
    have "host net t \<in> allocated a" if t: "t \<in> {2..254}" for t
    proof -
      obtain j where "j < 253" "cand k j = t" using t cand_onto [of t k] by auto
      with None show ?thesis by (auto simp: find_None_iff)
    qed
    then have "allocated a = host net ` {2..254}"
      using assms by (auto simp: alloc_inv_def)
    moreover have "Allocate a = (Inl ErrPoolExhausted, a)"
      using None scan by (simp add: Allocate_def)
    ultimately show thesis by (rule full)
  next
    case (Some j)
    then have j: "j < 253" "host net (cand k j) \<notin> allocated a"
      "\<And>i. i < j \<Longrightarrow> host net (cand k i) \<in> allocated a"
      by (auto simp: find_Some_iff)
    have "Next (host net (cand k j)) = host net (Suc (cand k j))"
      using assms cand_range [of k j] by (intro Next_host) (auto simp: alloc_inv_def)
    then have "Allocate a = (Inr (host net (cand k j)),
         a\<lparr>allocated := insert (host net (cand k j)) (allocated a),
           al_next := host net (Suc (cand k j))\<rparr>)"
      using Some scan by (simp add: Allocate_def)
    with k(3) j show thesis by (rule free)
  qed
qed

section \<open>The contract of the pool\<close>

text \<open>
  What the pod network relies on: \<open>held\<close> are the addresses handed out and \<open>hosts\<close> those the pool
  can hand out. No operation hands out an address twice, refusals change nothing, and the pool is
  refused only when it is empty.
\<close>

locale ip_pool =
  fixes inv :: "'p \<Rightarrow> bool"
    and held :: "'p \<Rightarrow> addr set"
    and hosts :: "'p \<Rightarrow> addr set"
    and allocate :: "'p \<Rightarrow> (podnet_error + addr) \<times> 'p"
    and specific :: "'p \<Rightarrow> addr \<Rightarrow> (podnet_error + bool) \<times> 'p"
    and release :: "'p \<Rightarrow> addr \<Rightarrow> (podnet_error + unit) \<times> 'p"
  assumes held_hosts: "inv p \<Longrightarrow> held p \<subseteq> hosts p"
    and finite_hosts: "inv p \<Longrightarrow> finite (hosts p)"
    and allocate_ok: "inv p \<Longrightarrow> allocate p = (Inr ip, p') \<Longrightarrow>
      inv p' \<and> hosts p' = hosts p \<and> ip \<in> hosts p - held p \<and> held p' = insert ip (held p)"
    and allocate_err: "inv p \<Longrightarrow> allocate p = (Inl e, p') \<Longrightarrow>
      p' = p \<and> e = ErrPoolExhausted \<and> held p = hosts p"
    and specific_ok: "inv p \<Longrightarrow> specific p ip = (Inr b, p') \<Longrightarrow>
      inv p' \<and> hosts p' = hosts p \<and> ip \<in> hosts p \<and> b = (ip \<in> held p)
      \<and> held p' = insert ip (held p)"
    and specific_err: "inv p \<Longrightarrow> specific p ip = (Inl e, p') \<Longrightarrow>
      p' = p \<and> e = ErrOutOfRange \<and> ip \<notin> hosts p"
    and release_held: "inv p \<Longrightarrow> ip \<in> held p \<Longrightarrow>
      \<exists>p'. release p ip = (Inr (), p') \<and> inv p' \<and> hosts p' = hosts p \<and> held p' = held p - {ip}"
    and release_free: "ip \<notin> held p \<Longrightarrow> release p ip = (Inl ErrNotAllocated, p)"
begin

lemma release_inv:
  "inv p \<Longrightarrow> inv (snd (release p ip)) \<and> hosts (snd (release p ip)) = hosts p
     \<and> held (snd (release p ip)) = held p - {ip}"
  using release_held [of p ip] release_free [of ip p] by (cases "ip \<in> held p") auto

lemma rollback_allocate:
  assumes "inv p" and "allocate p = (Inr ip, p')"
  shows "inv (snd (release p' ip)) \<and> hosts (snd (release p' ip)) = hosts p
    \<and> held (snd (release p' ip)) = held p"
  using allocate_ok [OF assms] release_inv [of p' ip] by auto

lemma rollback_specific:
  assumes "inv p" and "specific p ip = (Inr False, p')"
  shows "inv (snd (release p' ip)) \<and> hosts (snd (release p' ip)) = hosts p
    \<and> held (snd (release p' ip)) = held p"
  using specific_ok [OF assms] release_inv [of p' ip] by auto

lemma allocate_total:
  assumes "inv p"
  shows "(\<exists>ip p'. allocate p = (Inr ip, p')) \<longleftrightarrow> card (held p) < card (hosts p)"
proof (cases "allocate p")
  case (Pair r p')
  show ?thesis
  proof (cases r)
    case (Inl e)
    then have "held p = hosts p" using assms Pair allocate_err by blast
    with Inl Pair show ?thesis by simp
  next
    case (Inr ip)
    then have "ip \<in> hosts p - held p" using assms Pair allocate_ok by blast
    then have "held p \<subset> hosts p" using held_hosts [OF assms] by blast
    then have "card (held p) < card (hosts p)"
      using finite_hosts [OF assms] by (rule psubset_card_mono [rotated])
    with Inr Pair show ?thesis by simp
  qed
qed

end

definition alloc_hosts :: "Allocator \<Rightarrow> addr set" where
  "alloc_hosts a = {ip. inHostRange a ip}"

lemma alloc_hosts_inv: "alloc_inv net a \<Longrightarrow> alloc_hosts a = host net ` {2..254}"
  by (auto simp: alloc_hosts_def inHostRange_inv)

lemma alloc_inv_frame:
  assumes "alloc_inv net a" and "S \<subseteq> host net ` {2..254}"
  shows "alloc_inv net (a\<lparr>allocated := S\<rparr>)" "alloc_hosts (a\<lparr>allocated := S\<rparr>) = alloc_hosts a"
  using assms by (auto simp: alloc_inv_def alloc_hosts_def inHostRange_def)

lemma alloc_inv_advance:
  assumes "alloc_inv net a" and "2 \<le> k" and "k \<le> 254"
  shows "alloc_inv net (a\<lparr>allocated := insert (host net k) (allocated a),
      al_next := host net (Suc k)\<rparr>)"
    and "alloc_hosts (a\<lparr>allocated := insert (host net k) (allocated a),
      al_next := host net (Suc k)\<rparr>) = alloc_hosts a"
proof -
  have "\<exists>j. 2 \<le> j \<and> j \<le> 255 \<and> host net (Suc k) = host net j"
    using assms by (intro exI [of _ "Suc k"]) simp
  with assms show "alloc_inv net (a\<lparr>allocated := insert (host net k) (allocated a),
      al_next := host net (Suc k)\<rparr>)"
    by (auto simp: alloc_inv_def)
qed (simp add: alloc_hosts_def inHostRange_def)

interpretation pool: ip_pool wf_alloc allocated alloc_hosts Allocate AllocateSpecific Release
proof
  fix p assume "wf_alloc p"
  then obtain net where p: "alloc_inv net p" by (auto simp: wf_alloc_def)
  note hosts = alloc_hosts_inv [OF p]
  show "allocated p \<subseteq> alloc_hosts p"
    using p hosts by (simp add: alloc_inv_def)
  show "finite (alloc_hosts p)"
    by (simp add: hosts)
  show "wf_alloc p' \<and> alloc_hosts p' = alloc_hosts p \<and> ip \<in> alloc_hosts p - allocated p
      \<and> allocated p' = insert ip (allocated p)" if "Allocate p = (Inr ip, p')" for ip p'
    using p
  proof (cases rule: Allocate_cases)
    case (free k j)
    with that have "ip = host net (cand k j)"
      "p' = p\<lparr>allocated := insert (host net (cand k j)) (allocated p),
         al_next := host net (Suc (cand k j))\<rparr>" by auto
    with free hosts alloc_inv_advance [OF p cand_range(1) [of k j] cand_range(2) [of k j]]
    show ?thesis using cand_range [of k j] by (auto simp: wf_alloc_def)
  qed (use that in simp)
  show "p' = p \<and> e = ErrPoolExhausted \<and> allocated p = alloc_hosts p"
    if "Allocate p = (Inl e, p')" for e p'
    using p that hosts by (cases rule: Allocate_cases) auto
  show "wf_alloc p' \<and> alloc_hosts p' = alloc_hosts p \<and> ip \<in> alloc_hosts p
      \<and> b = (ip \<in> allocated p) \<and> allocated p' = insert ip (allocated p)"
    if "AllocateSpecific p ip = (Inr b, p')" for ip b p'
  proof -
    have "ip \<in> host net ` {2..254}"
      using that p by (auto simp: AllocateSpecific_def inHostRange_inv split: if_splits)
    moreover have "allocated p \<subseteq> host net ` {2..254}" using p by (simp add: alloc_inv_def)
    ultimately show ?thesis
      using that p hosts alloc_inv_frame [OF p, of "insert ip (allocated p)"]
      by (auto simp: AllocateSpecific_def wf_alloc_def split: if_splits)
  qed
  show "p' = p \<and> e = ErrOutOfRange \<and> ip \<notin> alloc_hosts p"
    if "AllocateSpecific p ip = (Inl e, p')" for ip e p'
    using that by (auto simp: AllocateSpecific_def alloc_hosts_def split: if_splits)
  show "\<exists>p'. Release p ip = (Inr (), p') \<and> wf_alloc p' \<and> alloc_hosts p' = alloc_hosts p
      \<and> allocated p' = allocated p - {ip}" if "ip \<in> allocated p" for ip
  proof -
    have "allocated p - {ip} \<subseteq> host net ` {2..254}" using p by (auto simp: alloc_inv_def)
    from alloc_inv_frame [OF p this] that show ?thesis
      by (auto simp: Release_def wf_alloc_def)
  qed
next
  show "Release p ip = (Inl ErrNotAllocated, p)" if "ip \<notin> allocated p" for p ip
    using that by (simp add: Release_def)
qed

section \<open>Every reachable allocator\<close>

inductive alloc_reach :: "prefix \<Rightarrow> Allocator \<Rightarrow> bool" for c :: prefix where
  new: "NewAllocator c = Inr a \<Longrightarrow> alloc_reach c a"
| allocate: "alloc_reach c a \<Longrightarrow> Allocate a = (r, a') \<Longrightarrow> alloc_reach c a'"
| specific: "alloc_reach c a \<Longrightarrow> AllocateSpecific a ip = (r', a') \<Longrightarrow> alloc_reach c a'"
| release: "alloc_reach c a \<Longrightarrow> Release a ip = (r'', a') \<Longrightarrow> alloc_reach c a'"

text \<open>The operations change the cursor and the table only.\<close>

definition same_bounds :: "Allocator \<Rightarrow> Allocator \<Rightarrow> bool" where
  "same_bounds a b \<longleftrightarrow> al_cidr a = al_cidr b \<and> al_first a = al_first b \<and> al_last a = al_last b
     \<and> al_meshEgress a = al_meshEgress b"

lemma ops_same_bounds:
  "Allocate a = (r, a') \<Longrightarrow> same_bounds a' a"
  "AllocateSpecific a ip = (r', a') \<Longrightarrow> same_bounds a' a"
  "Release a ip = (r'', a') \<Longrightarrow> same_bounds a' a"
  by (auto simp: Allocate_def AllocateSpecific_def Release_def same_bounds_def
      split: option.splits if_splits)

lemma alloc_inv_same_bounds:
  "alloc_inv net a \<Longrightarrow> wf_alloc b \<Longrightarrow> same_bounds b a \<Longrightarrow> alloc_inv net b"
  by (auto simp: wf_alloc_def alloc_inv_def same_bounds_def)

lemma ops_wf_alloc:
  assumes "wf_alloc a"
  shows "Allocate a = (r, a') \<Longrightarrow> wf_alloc a'"
    and "AllocateSpecific a ip = (r', a') \<Longrightarrow> wf_alloc a'"
    and "Release a ip = (r'', a') \<Longrightarrow> wf_alloc a'"
proof -
  show "Allocate a = (r, a') \<Longrightarrow> wf_alloc a'"
    using assms pool.allocate_ok pool.allocate_err by (cases r) blast+
  show "AllocateSpecific a ip = (r', a') \<Longrightarrow> wf_alloc a'"
    using assms pool.specific_ok pool.specific_err by (cases r') blast+
  show "Release a ip = (r'', a') \<Longrightarrow> wf_alloc a'"
    using assms pool.release_inv [of a ip] by simp
qed

lemma ops_alloc_inv:
  assumes "alloc_inv net a"
  shows "Allocate a = (r, a') \<Longrightarrow> alloc_inv net a'"
    and "AllocateSpecific a ip = (r', a') \<Longrightarrow> alloc_inv net a'"
    and "Release a ip = (r'', a') \<Longrightarrow> alloc_inv net a'"
proof -
  have "wf_alloc a" using assms by (auto simp: wf_alloc_def)
  note wf = ops_wf_alloc [OF this]
  show "Allocate a = (r, a') \<Longrightarrow> alloc_inv net a'"
    using alloc_inv_same_bounds [OF assms wf(1) ops_same_bounds(1)] .
  show "AllocateSpecific a ip = (r', a') \<Longrightarrow> alloc_inv net a'"
    using alloc_inv_same_bounds [OF assms wf(2) ops_same_bounds(2)] .
  show "Release a ip = (r'', a') \<Longrightarrow> alloc_inv net a'"
    using alloc_inv_same_bounds [OF assms wf(3) ops_same_bounds(3)] .
qed

lemma alloc_reach_inv:
  "alloc_reach c a \<Longrightarrow> \<exists>w. c = pfx4 w 24 \<and> alloc_inv (w AND NOT (mask 8)) a"
  by (induction rule: alloc_reach.induct) (blast dest: NewAllocator_inv ops_alloc_inv)+

lemma alloc_reach_wf: "alloc_reach c a \<Longrightarrow> wf_alloc a"
  using alloc_reach_inv by (auto simp: wf_alloc_def)

lemma MeshEgressIP_pfx4: "MeshEgressIP (pfx4 w 24) = Inr (host (w AND NOT (mask 8)) 1)"
  using Next_host [OF slash24_masked, of 0 w]
  by (simp add: MeshEgressIP_def nodeCIDRBits_def Masked_pfx4 host_def)

lemma MeshLinkIP_pfx4: "MeshLinkIP (pfx4 w 24) = Inr (host (w AND NOT (mask 8)) 255)"
proof -
  let ?net = "w AND NOT (mask 8)"
  have "unat (be32 ((bytes4 ?net)[3 := 255])) = unat ?net div 256 * 256 + 255"
    using unat_and_or_byte [of ?net 255] by (simp add: be32_last)
  also have "\<dots> = unat (?net + word_of_nat 255)"
    using unat_host [OF slash24_masked, of 255] slash24_masked [of w] unfolding slash24_def
    by (metis add.right_neutral div_mult_mod_eq numeral_less_iff semiring_norm(68,76,78,80,81))
  finally have "be32 ((bytes4 ?net)[3 := 255]) = ?net + word_of_nat 255"
    by (simp add: word_unat_eq_iff)
  then show ?thesis
    by (simp add: MeshLinkIP_def nodeCIDRBits_def Masked_pfx4 broadcastInSlash24_def
        withLastByte_def AddrFrom4_def host_def)
qed

section \<open>Properties\<close>

text \<open>
  C27. Every node prefix cut from a cluster prefix is a /24 inside the cluster prefix, and the index
  is recovered from it: \<^verbatim>\<open>NodeIndex\<close> inverts \<^verbatim>\<open>NodeCIDR\<close>.
\<close>
theorem node_cidr_roundtrip:
  assumes "wf_prefix c" and "NodeCIDR c i = Inr p"
  shows "NodeIndex c p = Inr (nat i) \<and> Bits p = 24
    \<and> (\<forall>a. prefix_Contains p a \<longrightarrow> prefix_Contains c a)"
proof -
  from assms(2,1) obtain w k n where "c = pfx4 w k" "k \<le> 24" "i = int n" "n < 2 ^ (24 - k)"
      "p = pfx4 (node_net w k n) 24"
    by (rule NodeCIDR_InrE)
  then show ?thesis
    using NodeIndex_node_net [of k n w] node_net_inside [of k n w] by auto
qed

theorem node_cidr_roundtrip_witness:
  "\<exists>p. NodeCIDR (pfx4 0x64400000 10) 5 = Inr p \<and> NodeIndex (pfx4 0x64400000 10) p = Inr 5"
proof -
  have eq: "NodeCIDR (pfx4 0x64400000 10) 5 = Inr (pfx4 (node_net 0x64400000 10 5) 24)"
    using NodeCIDR_pfx4 [of 10 5 "0x64400000"] by simp
  show ?thesis
    using node_cidr_roundtrip [OF _ eq] eq by simp
qed

text \<open>
  C29. Two nodes never share an address: the /24 prefixes of distinct indices of the same cluster
  prefix have no address in common.
\<close>
theorem node_cidrs_disjoint:
  assumes "wf_prefix c" and "NodeCIDR c i = Inr p" and "NodeCIDR c j = Inr q" and "i \<noteq> j"
  shows "\<not> (prefix_Contains p a \<and> prefix_Contains q a)"
proof -
  from assms(2,1) obtain w k m where p: "c = pfx4 w k" "k \<le> 24" "i = int m" "m < 2 ^ (24 - k)"
      "p = pfx4 (node_net w k m) 24"
    by (rule NodeCIDR_InrE)
  from assms(3,1) obtain w' k' n where q: "c = pfx4 w' k'" "j = int n" "n < 2 ^ (24 - k')"
      "q = pfx4 (node_net w' k' n) 24"
    by (rule NodeCIDR_InrE)
  show ?thesis
    using node_nets_disjoint [of k m n w a] p q assms(4) by simp
qed

theorem node_cidrs_disjoint_witness:
  "\<exists>p q. NodeCIDR (pfx4 0x64400000 10) 1 = Inr p \<and> NodeCIDR (pfx4 0x64400000 10) 2 = Inr q
     \<and> \<not> (prefix_Contains p (IPv4 0x64400105) \<and> prefix_Contains q (IPv4 0x64400105))"
proof -
  have eq: "NodeCIDR (pfx4 0x64400000 10) 1 = Inr (pfx4 (node_net 0x64400000 10 1) 24)"
    "NodeCIDR (pfx4 0x64400000 10) 2 = Inr (pfx4 (node_net 0x64400000 10 2) 24)"
    using NodeCIDR_pfx4 [of 10 1 "0x64400000"] NodeCIDR_pfx4 [of 10 2 "0x64400000"] by simp_all
  show ?thesis
    using node_cidrs_disjoint [OF _ eq] eq by simp
qed

text \<open>
  C3. In every state the allocator can reach, an allocation succeeds exactly while fewer than 253
  addresses are held. A success returns an address of the node's /24 that nobody holds and that is
  neither the network address, the mesh-egress address nor the mesh-link address, and adds exactly
  it to the table; a refusal is \<^verbatim>\<open>ErrPoolExhausted\<close> and changes nothing.
\<close>
theorem allocate_spec:
  assumes "alloc_reach c a" and "Allocate a = (r, a')"
  shows "if InUse a < 253
    then \<exists>ip. r = Inr ip \<and> prefix_Contains c ip \<and> \<not> Allocated a ip
      \<and> ip \<noteq> p_ip (Masked c) \<and> Inr ip \<noteq> MeshEgressIP c \<and> Inr ip \<noteq> MeshLinkIP c
      \<and> (\<forall>x. Allocated a' x = (Allocated a x \<or> x = ip)) \<and> InUse a' = InUse a + 1
    else r = Inl ErrPoolExhausted \<and> a' = a"
proof -
  from assms(1) obtain w where c: "c = pfx4 w 24" and inv: "alloc_inv (w AND NOT (mask 8)) a"
    using alloc_reach_inv by blast
  define net where "net = w AND NOT (mask 8)"
  have net: "slash24 net" and hosts: "alloc_hosts a = host net ` {2..254}"
    using inv alloc_hosts_inv by (auto simp: net_def slash24_masked)
  have wf: "wf_alloc a" using inv by (auto simp: wf_alloc_def)
  have count: "(\<exists>ip a'. Allocate a = (Inr ip, a')) \<longleftrightarrow> InUse a < 253"
    using pool.allocate_total [OF wf] by (simp add: InUse_def hosts card_hosts [OF net])
  show ?thesis
  proof (cases r)
    case (Inl e)
    then show ?thesis using count assms(2) pool.allocate_err [OF wf] by auto
  next
    case (Inr ip)
    then have ok: "ip \<in> alloc_hosts a - allocated a" "allocated a' = insert ip (allocated a)"
      using assms(2) pool.allocate_ok [OF wf] by blast+
    then obtain k where k: "ip = host net k" "2 \<le> k" "k \<le> 254" using hosts by auto
    have "\<exists>j < 256. ip = host net j"
      using k by (intro exI [of _ k]) simp
    then have "prefix_Contains c ip"
      using contains_Masked [of 24 w ip] contains_slash24_iff [OF net, of ip]
      by (simp add: c Masked_pfx4 net_def)
    moreover have "p_ip (Masked c) = host net 0" "MeshEgressIP c = Inr (host net 1)"
      "MeshLinkIP c = Inr (host net 255)"
      by (simp_all add: c Masked_pfx4 net_def MeshEgressIP_pfx4 MeshLinkIP_pfx4)
        (simp add: host_def)
    moreover have "host net k \<noteq> host net 0" "host net k \<noteq> host net 1" "host net k \<noteq> host net 255"
      using k by (simp_all add: host_eq_iff [OF net])
    moreover have "InUse a' = InUse a + 1"
      using ok finite_allocated [OF inv] by (simp add: InUse_def)
    ultimately show ?thesis
      using Inr count assms(2) ok k(1) by (auto simp: Allocated_def)
  qed
qed

theorem allocate_spec_witness:
  "\<exists>a r a'. NewAllocator (pfx4 0x64400100 24) = Inr a \<and> Allocate a = (r, a') \<and> InUse a < 253
     \<and> (\<exists>ip. r = Inr ip \<and> prefix_Contains (pfx4 0x64400100 24) ip)"
proof -
  obtain a where a: "NewAllocator (pfx4 0x64400100 24) = Inr a" "InUse a < 253"
    by (simp add: NewAllocator_def nodeCIDRBits_def Masked_pfx4 Let_def lastHostInSlash24_def
        withLastByte_def InUse_def)
  obtain r a' where r: "Allocate a = (r, a')" by fastforce
  show ?thesis
    using allocate_spec [OF alloc_reach.new [OF a(1)] r] a r by auto
qed

end
