(* ===== verification/Blackhole.thy ===== *)
theory Blackhole
  imports Allocator
begin

text \<open>
  The blackhole routes of departed pods (\<^verbatim>\<open>pkg/podnet/blackhole.go\<close>). The routing socket is not part
  of the sources: \<open>wr\<close> stands for writing a routing message (its result an errno or success) and \<open>ex\<close>
  for a request whose reply is read back; both act on the kernel's state. \<open>routing_kernel\<close> states the
  documented behaviour of \<^verbatim>\<open>route(4)\<close> on host routes that the properties assume.
\<close>

section \<open>Pod addresses\<close>

definition IsPodAddress :: "prefix \<Rightarrow> addr \<Rightarrow> bool" where
  "IsPodAddress nodeCIDR ip =
     (if \<not> prefix_IsValid nodeCIDR \<or> \<not> Is4 (p_ip nodeCIDR) \<or> Bits nodeCIDR \<noteq> int nodeCIDRBits
      then False
      else let ip' = Unmap ip in
        if \<not> Is4 ip' \<or> \<not> prefix_Contains (Masked nodeCIDR) ip' then False
        else case As4 ip' of None \<Rightarrow> False | Some b \<Rightarrow> 2 \<le> b ! 3 \<and> b ! 3 \<le> 254)"

section \<open>Routing messages\<close>

datatype sockaddr = Inet4Addr "u8 list" | OtherSockaddr

datatype errno = EEXIST | ESRCH | OtherErrno nat

record RouteMessage =
  rt_type :: nat
  rt_flags :: u32
  rt_addrs :: "sockaddr list"
  rt_err :: "errno option"

definition RTM_ADD :: nat where "RTM_ADD = 1"
definition RTM_DELETE :: nat where "RTM_DELETE = 2"
definition RTM_GET :: nat where "RTM_GET = 4"

definition RTF_UP :: u32 where "RTF_UP = 0x1"
definition RTF_GATEWAY :: u32 where "RTF_GATEWAY = 0x2"
definition RTF_HOST :: u32 where "RTF_HOST = 0x4"
definition RTF_STATIC :: u32 where "RTF_STATIC = 0x800"
definition RTF_BLACKHOLE :: u32 where "RTF_BLACKHOLE = 0x1000"
definition RTF_WASCLONED :: u32 where "RTF_WASCLONED = 0x20000"

definition blackholeFlags :: u32 where
  "blackholeFlags = RTF_UP OR RTF_STATIC OR RTF_HOST OR RTF_GATEWAY OR RTF_BLACKHOLE"

definition has_flag :: "u32 \<Rightarrow> u32 \<Rightarrow> bool" where
  "has_flag flags f \<longleftrightarrow> flags AND f \<noteq> 0"

text \<open>\<^verbatim>\<open>blackholeMessage\<close>; the callers pass IPv4 addresses only (\<open>b\<close> are the four bytes).\<close>

definition blackholeMessage :: "nat \<Rightarrow> u8 list \<Rightarrow> RouteMessage" where
  "blackholeMessage typ b =
     (if typ = RTM_ADD
      then \<lparr>rt_type = typ, rt_flags = blackholeFlags,
            rt_addrs = [Inet4Addr b, Inet4Addr [127, 0, 0, 1]], rt_err = None\<rparr>
      else \<lparr>rt_type = typ, rt_flags = RTF_UP OR RTF_HOST, rt_addrs = [Inet4Addr b], rt_err = None\<rparr>)"

text \<open>\<^verbatim>\<open>hostRouteFlags\<close>: the flags of the host route for exactly \<open>ip\<close>, or none.\<close>

definition hostRouteFlags :: "RouteMessage \<Rightarrow> addr \<Rightarrow> errno + u32 option" where
  "hostRouteFlags reply ip =
     (case rt_err reply of
        Some e \<Rightarrow> if e = ESRCH then Inr None else Inl e
      | None \<Rightarrow>
          if \<not> has_flag (rt_flags reply) RTF_HOST \<or> rt_addrs reply = [] then Inr None
          else case hd (rt_addrs reply) of
            OtherSockaddr \<Rightarrow> Inr None
          | Inet4Addr b \<Rightarrow>
              if AddrFrom4 b \<noteq> ip then Inr None else Inr (Some (rt_flags reply)))"

text \<open>\<^verbatim>\<open>blackholesIn\<close>: the pod addresses of the node with a blackhole host route in the table dump.\<close>

fun blackholesIn :: "RouteMessage list \<Rightarrow> prefix \<Rightarrow> addr list" where
  "blackholesIn [] nodeCIDR = []"
| "blackholesIn (m # ms) nodeCIDR =
     (if \<not> has_flag (rt_flags m) RTF_HOST \<or> \<not> has_flag (rt_flags m) RTF_BLACKHOLE
        \<or> rt_addrs m = []
      then blackholesIn ms nodeCIDR
      else case hd (rt_addrs m) of
        OtherSockaddr \<Rightarrow> blackholesIn ms nodeCIDR
      | Inet4Addr b \<Rightarrow>
          if IsPodAddress nodeCIDR (AddrFrom4 b) then AddrFrom4 b # blackholesIn ms nodeCIDR
          else blackholesIn ms nodeCIDR)"

section \<open>Installing and clearing\<close>

type_synonym 'k route_write = "RouteMessage \<Rightarrow> 'k \<Rightarrow> errno option \<times> 'k"
type_synonym 'k route_exchange = "RouteMessage \<Rightarrow> 'k \<Rightarrow> (errno + RouteMessage) \<times> 'k"

datatype blackhole_error = NotIPv4 | RouteErrno errno | ReadBack errno | DeleteCloned errno | RouteHeld

definition deleteHostRoute :: "'k route_write \<Rightarrow> u8 list \<Rightarrow> 'k \<Rightarrow> errno option \<times> 'k" where
  "deleteHostRoute wr b k =
     (let (e, k') = wr (blackholeMessage RTM_DELETE b) k in
      (if e = Some ESRCH then None else e, k'))"

definition lookupHostRoute ::
  "'k route_exchange \<Rightarrow> u8 list \<Rightarrow> 'k \<Rightarrow> (errno + u32 option) \<times> 'k" where
  "lookupHostRoute ex b k =
     (case ex (blackholeMessage RTM_GET b) k of
        (Inl e, k') \<Rightarrow> (if e = ESRCH then Inr None else Inl e, k')
      | (Inr reply, k') \<Rightarrow> (hostRouteFlags reply (AddrFrom4 b), k'))"

text \<open>The loop of \<^verbatim>\<open>Install\<close>: only attempt 0 goes round again, after deleting a cloned route.\<close>

function install_attempt ::
  "'k route_write \<Rightarrow> 'k route_exchange \<Rightarrow> u8 list \<Rightarrow> nat \<Rightarrow> 'k \<Rightarrow> (blackhole_error + unit) \<times> 'k"
where
  "install_attempt wr ex b attempt k =
     (case wr (blackholeMessage RTM_ADD b) k of
        (None, k1) \<Rightarrow> (Inr (), k1)
      | (Some e, k1) \<Rightarrow>
          if e \<noteq> EEXIST then (Inl (RouteErrno e), k1)
          else case lookupHostRoute ex b k1 of
            (Inl le, k2) \<Rightarrow> (Inl (ReadBack le), k2)
          | (Inr fl, k2) \<Rightarrow>
              if fl \<noteq> None \<and> has_flag (the fl) RTF_BLACKHOLE then (Inr (), k2)
              else if fl \<noteq> None \<and> has_flag (the fl) RTF_WASCLONED \<and> attempt = 0 then
                (case deleteHostRoute wr b k2 of
                   (Some de, k3) \<Rightarrow> (Inl (DeleteCloned de), k3)
                 | (None, k3) \<Rightarrow> install_attempt wr ex b (attempt + 1) k3)
              else (Inl RouteHeld, k2))"
  by pat_completeness auto
termination
  by (relation "measure (\<lambda>(wr, ex, b, attempt, k). 1 - attempt)") auto

declare install_attempt.simps [simp del]

definition Install ::
  "'k route_write \<Rightarrow> 'k route_exchange \<Rightarrow> addr \<Rightarrow> 'k \<Rightarrow> (blackhole_error + unit) \<times> 'k" where
  "Install wr ex ip k =
     (case Unmap ip of
        IPv4 w \<Rightarrow> install_attempt wr ex (bytes4 w) 0 k
      | _ \<Rightarrow> (Inl NotIPv4, k))"

definition Clear ::
  "'k route_write \<Rightarrow> 'k route_exchange \<Rightarrow> addr \<Rightarrow> 'k \<Rightarrow> (blackhole_error + unit) \<times> 'k" where
  "Clear wr ex ip k =
     (case Unmap ip of
        IPv4 w \<Rightarrow>
          (case lookupHostRoute ex (bytes4 w) k of
             (Inl e, k1) \<Rightarrow> (Inl (RouteErrno e), k1)
           | (Inr fl, k1) \<Rightarrow>
               if fl = None \<or> \<not> has_flag (the fl) RTF_BLACKHOLE then (Inr (), k1)
               else case deleteHostRoute wr (bytes4 w) k1 of
                 (Some e, k2) \<Rightarrow> (Inl (RouteErrno e), k2)
               | (None, k2) \<Rightarrow> (Inr (), k2))
      | _ \<Rightarrow> (Inl NotIPv4, k))"

section \<open>The documented kernel\<close>

text \<open>
  \<open>tab k w\<close> are the flags of the host route the kernel holds for the IPv4 address \<open>w\<close>. Adding a host
  route fails with EEXIST when there is one; deleting removes it or fails with ESRCH; a request
  answers with the host route when there is one and otherwise with some route that is not that host
  route, or with ESRCH.
\<close>

definition kernel_adds :: "'k route_write \<Rightarrow> ('k \<Rightarrow> u32 \<Rightarrow> u32 option) \<Rightarrow> bool" where
  "kernel_adds wr tab \<longleftrightarrow>
     (\<forall>k w e k'. wr (blackholeMessage RTM_ADD (bytes4 w)) k = (e, k') \<longrightarrow>
        (if tab k w = None then e = None \<and> tab k' = (tab k)(w \<mapsto> blackholeFlags)
         else e = Some EEXIST \<and> tab k' = tab k))"

definition kernel_deletes :: "'k route_write \<Rightarrow> ('k \<Rightarrow> u32 \<Rightarrow> u32 option) \<Rightarrow> bool" where
  "kernel_deletes wr tab \<longleftrightarrow>
     (\<forall>k w e k'. wr (blackholeMessage RTM_DELETE (bytes4 w)) k = (e, k') \<longrightarrow>
        tab k' = (tab k)(w := None) \<and> e = (if tab k w = None then Some ESRCH else None))"

definition kernel_gets :: "'k route_exchange \<Rightarrow> ('k \<Rightarrow> u32 \<Rightarrow> u32 option) \<Rightarrow> bool" where
  "kernel_gets ex tab \<longleftrightarrow>
     (\<forall>k w r k'. ex (blackholeMessage RTM_GET (bytes4 w)) k = (r, k') \<longrightarrow>
        tab k' = tab k \<and>
        (case r of
           Inl e \<Rightarrow> e = ESRCH \<and> tab k w = None
         | Inr m \<Rightarrow> rt_err m = None \<and>
             (case tab k w of
                Some fl \<Rightarrow> rt_flags m = fl \<and> has_flag fl RTF_HOST
                  \<and> rt_addrs m \<noteq> [] \<and> hd (rt_addrs m) = Inet4Addr (bytes4 w)
              | None \<Rightarrow> \<not> has_flag (rt_flags m) RTF_HOST)))"

definition routing_kernel ::
  "'k route_write \<Rightarrow> 'k route_exchange \<Rightarrow> ('k \<Rightarrow> u32 \<Rightarrow> u32 option) \<Rightarrow> bool" where
  "routing_kernel wr ex tab \<longleftrightarrow> kernel_adds wr tab \<and> kernel_deletes wr tab \<and> kernel_gets ex tab"

lemma kernel_add:
  assumes "routing_kernel wr ex tab" and "wr (blackholeMessage RTM_ADD (bytes4 w)) k = (e, k')"
  shows "if tab k w = None then e = None \<and> tab k' = (tab k)(w \<mapsto> blackholeFlags)
    else e = Some EEXIST \<and> tab k' = tab k"
  using assms unfolding routing_kernel_def kernel_adds_def by blast

lemma kernel_delete:
  assumes "routing_kernel wr ex tab" and "deleteHostRoute wr (bytes4 w) k = (e, k')"
  shows "e = None \<and> tab k' = (tab k)(w := None)"
proof -
  obtain d k1 where d: "wr (blackholeMessage RTM_DELETE (bytes4 w)) k = (d, k1)" by fastforce
  with assms(1) have "tab k1 = (tab k)(w := None)" "d = (if tab k w = None then Some ESRCH else None)"
    unfolding routing_kernel_def kernel_deletes_def by blast+
  with d assms(2) show ?thesis
    by (auto simp: deleteHostRoute_def split: if_splits)
qed

lemma kernel_lookup:
  assumes "routing_kernel wr ex tab" and "lookupHostRoute ex (bytes4 w) k = (r, k')"
  shows "r = Inr (tab k w) \<and> tab k' = tab k"
proof -
  obtain a k1 where e: "ex (blackholeMessage RTM_GET (bytes4 w)) k = (a, k1)" by fastforce
  with assms(1) have "tab k1 = tab k" "case a of
           Inl e \<Rightarrow> e = ESRCH \<and> tab k w = None
         | Inr m \<Rightarrow> rt_err m = None \<and>
             (case tab k w of
                Some fl \<Rightarrow> rt_flags m = fl \<and> has_flag fl RTF_HOST
                  \<and> rt_addrs m \<noteq> [] \<and> hd (rt_addrs m) = Inet4Addr (bytes4 w)
              | None \<Rightarrow> \<not> has_flag (rt_flags m) RTF_HOST)"
    unfolding routing_kernel_def kernel_gets_def by blast+
  with e assms(2) show ?thesis
    by (cases a; cases "tab k w")
      (auto simp: lookupHostRoute_def hostRouteFlags_def AddrFrom4_def)
qed

section \<open>What installing and clearing achieve\<close>

lemma blackholeFlags_flags [simp]:
  "has_flag blackholeFlags RTF_BLACKHOLE" "has_flag blackholeFlags RTF_HOST"
  by (simp_all add: has_flag_def blackholeFlags_def RTF_BLACKHOLE_def RTF_HOST_def RTF_UP_def
      RTF_STATIC_def RTF_GATEWAY_def)

lemma install_free:
  assumes "routing_kernel wr ex tab" and "tab k w = None"
  shows "\<exists>k'. install_attempt wr ex (bytes4 w) n k = (Inr (), k') \<and> tab k' = (tab k)(w \<mapsto> blackholeFlags)"
proof -
  obtain e k1 where a: "wr (blackholeMessage RTM_ADD (bytes4 w)) k = (e, k1)" by fastforce
  from kernel_add [OF assms(1) a] assms(2) show ?thesis
    by (subst install_attempt.simps) (simp add: a)
qed

lemma install_held:
  assumes "routing_kernel wr ex tab" and "tab k w = Some fl"
  shows "\<exists>r k'. install_attempt wr ex (bytes4 w) 0 k = (r, k') \<and>
    (if has_flag fl RTF_BLACKHOLE then r = Inr () \<and> tab k' = tab k
     else if has_flag fl RTF_WASCLONED then r = Inr () \<and> tab k' = (tab k)(w \<mapsto> blackholeFlags)
     else r = Inl RouteHeld \<and> tab k' = tab k)"
proof -
  obtain e k1 where a: "wr (blackholeMessage RTM_ADD (bytes4 w)) k = (e, k1)" by fastforce
  have e: "e = Some EEXIST" "tab k1 = tab k" using kernel_add [OF assms(1) a] assms(2) by simp_all
  obtain r k2 where l: "lookupHostRoute ex (bytes4 w) k1 = (r, k2)" by fastforce
  have r: "r = Inr (Some fl)" "tab k2 = tab k"
    using kernel_lookup [OF assms(1) l] assms(2) e by simp_all
  obtain d k3 where x: "deleteHostRoute wr (bytes4 w) k2 = (d, k3)" by fastforce
  have d: "d = None" "tab k3 = (tab k)(w := None)" using kernel_delete [OF assms(1) x] r by simp_all
  show ?thesis
    using install_free [OF assms(1), of k3 w 1] e r d
    by (subst install_attempt.simps) (auto simp: a l x)
qed

text \<open>A kernel that behaves as documented: the state is the table of host routes.\<close>

definition table_write :: "(u32 \<Rightarrow> u32 option) route_write" where
  "table_write m k =
     (case rt_addrs m of
        Inet4Addr b # _ \<Rightarrow>
          if rt_type m = RTM_ADD then
            if k (be32 b) = None then (None, k(be32 b \<mapsto> rt_flags m)) else (Some EEXIST, k)
          else if k (be32 b) = None then (Some ESRCH, k) else (None, k(be32 b := None))
      | _ \<Rightarrow> (Some (OtherErrno 22), k))"

definition table_exchange :: "(u32 \<Rightarrow> u32 option) route_exchange" where
  "table_exchange m k =
     (case rt_addrs m of
        Inet4Addr b # _ \<Rightarrow>
          (case k (be32 b) of
             Some fl \<Rightarrow> (Inr \<lparr>rt_type = RTM_GET, rt_flags = fl OR RTF_HOST,
               rt_addrs = [Inet4Addr b], rt_err = None\<rparr>, k)
           | None \<Rightarrow> (Inl ESRCH, k))
      | _ \<Rightarrow> (Inl ESRCH, k))"

definition table_view :: "(u32 \<Rightarrow> u32 option) \<Rightarrow> u32 \<Rightarrow> u32 option" where
  "table_view k w = map_option (\<lambda>fl. fl OR RTF_HOST) (k w)"

lemma has_flag_host [simp]: "has_flag (fl OR RTF_HOST) RTF_HOST"
proof -
  have "(fl OR RTF_HOST) AND RTF_HOST = RTF_HOST"
    by (rule bit_word_eqI) (auto simp: bit_simps)
  then show ?thesis by (simp add: has_flag_def RTF_HOST_def)
qed

lemma blackholeFlags_host: "blackholeFlags OR RTF_HOST = blackholeFlags"
  by (simp add: blackholeFlags_def RTF_HOST_def RTF_UP_def RTF_STATIC_def RTF_GATEWAY_def
      RTF_BLACKHOLE_def)

lemma table_view_upd:
  "table_view (k(w := x)) = (table_view k)(w := map_option (\<lambda>fl. fl OR RTF_HOST) x)"
  by (auto simp: table_view_def)

lemma table_view_None: "table_view k w = None \<longleftrightarrow> k w = None"
  by (simp add: table_view_def)

lemma table_kernel: "routing_kernel table_write table_exchange table_view"
  unfolding routing_kernel_def
proof (intro conjI)
  show "kernel_adds table_write table_view"
    by (auto simp: kernel_adds_def table_write_def blackholeMessage_def table_view_upd
        table_view_None blackholeFlags_host split: if_splits)
  show "kernel_deletes table_write table_view"
    by (auto simp: kernel_deletes_def table_write_def blackholeMessage_def table_view_upd
        table_view_None RTM_ADD_def RTM_DELETE_def split: if_splits)
  show "kernel_gets table_exchange table_view"
    by (auto simp: kernel_gets_def table_exchange_def blackholeMessage_def table_view_def
        RTM_ADD_def RTM_GET_def split: option.splits)
qed

lemma install_effect:
  assumes "routing_kernel wr ex tab" and "Unmap ip = IPv4 w"
  shows "\<exists>r k'. Install wr ex ip k = (r, k') \<and> (\<forall>v. v \<noteq> w \<longrightarrow> tab k' v = tab k v) \<and>
    (case tab k w of
       None \<Rightarrow> r = Inr () \<and> tab k' w = Some blackholeFlags
     | Some fl \<Rightarrow>
         if has_flag fl RTF_BLACKHOLE then r = Inr () \<and> tab k' w = Some fl
         else if has_flag fl RTF_WASCLONED then r = Inr () \<and> tab k' w = Some blackholeFlags
         else r = Inl RouteHeld \<and> tab k' w = Some fl)"
proof (cases "tab k w")
  case None
  then show ?thesis
    using install_free [OF assms(1) None, of 0] assms(2) by (auto simp: Install_def)
next
  case (Some fl)
  obtain r k' where i: "install_attempt wr ex (bytes4 w) 0 k = (r, k')"
    and c: "if has_flag fl RTF_BLACKHOLE then r = Inr () \<and> tab k' = tab k
      else if has_flag fl RTF_WASCLONED then r = Inr () \<and> tab k' = (tab k)(w \<mapsto> blackholeFlags)
      else r = Inl RouteHeld \<and> tab k' = tab k"
    using install_held [OF assms(1) Some] by blast
  have "Install wr ex ip k = (r, k')" by (simp add: Install_def assms(2) i)
  with c Some show ?thesis by (intro exI [of _ r] exI [of _ k']) (simp split: if_splits)
qed



lemma clear_effect:
  assumes "routing_kernel wr ex tab" and "Unmap ip = IPv4 w"
  shows "\<exists>k'. Clear wr ex ip k = (Inr (), k') \<and>
    tab k' = (case tab k w of
      Some fl \<Rightarrow> if has_flag fl RTF_BLACKHOLE then (tab k)(w := None) else tab k
    | None \<Rightarrow> tab k)"
proof -
  obtain r k1 where l: "lookupHostRoute ex (bytes4 w) k = (r, k1)" by fastforce
  have r: "r = Inr (tab k w)" "tab k1 = tab k" using kernel_lookup [OF assms(1) l] by simp_all
  obtain d k2 where x: "deleteHostRoute wr (bytes4 w) k1 = (d, k2)" by fastforce
  have d: "d = None" "tab k2 = (tab k)(w := None)" using kernel_delete [OF assms(1) x] r by simp_all
  show ?thesis
    using r d by (auto simp: Clear_def assms(2) l x split: option.splits)
qed


end
