(* ===== verification/Aliases.thy ===== *)
theory Aliases
  imports Blackhole
begin

text \<open>
  The managers of the /32 aliases on lo0: the pod network's (\<^verbatim>\<open>pkg/podnet/alias.go\<close>), which also
  blackholes the addresses of departed pods, and the service proxy's (\<^verbatim>\<open>pkg/proxy/alias.go\<close>). Both
  packages declare the same interface \<^verbatim>\<open>aliasManager\<close>; its contract is the locale \<open>alias_manager\<close>.

  The \<^verbatim>\<open>ifconfig\<close> program is not part of the sources: \<open>ifc\<close> stands for running it on lo0 with the
  verb and the address, its result an error text or success. The state is the manager and the
  kernel side by side.
\<close>

section \<open>The interface\<close>

text \<open>\<open>tracked\<close> are the addresses the manager still has to undo something for, \<open>live\<close> those it holds
  plumbed. A failed removal stays tracked, so that it is retried.\<close>

locale alias_manager =
  fixes ensure :: "addr \<Rightarrow> 's \<Rightarrow> ('e + unit) \<times> 's"
    and remove :: "addr \<Rightarrow> 's \<Rightarrow> ('e + unit) \<times> 's"
    and tracked :: "'s \<Rightarrow> addr \<Rightarrow> bool"
    and live :: "'s \<Rightarrow> addr \<Rightarrow> bool"
  assumes live_tracked: "live s j \<Longrightarrow> tracked s j"
    and ensure_ok: "ensure ip s = (Inr u, s') \<Longrightarrow>
      tracked s' j = (tracked s j \<or> j = ip) \<and> live s' j = (live s j \<or> j = ip)"
    and ensure_err: "ensure ip s = (Inl e, s') \<Longrightarrow> tracked s' j = tracked s j \<and> live s' j = live s j"
    and remove_ok: "remove ip s = (Inr u, s') \<Longrightarrow>
      tracked s' j = (tracked s j \<and> j \<noteq> ip) \<and> live s' j = (live s j \<and> j \<noteq> ip)"
    and remove_err: "remove ip s = (Inl e, s') \<Longrightarrow>
      tracked s' j = (tracked s j \<or> j = ip) \<and> (live s' j \<longrightarrow> live s j)
      \<and> (j \<noteq> ip \<longrightarrow> live s' j = live s j)"
begin

lemma ensure_other: "ensure ip s = (r, s') \<Longrightarrow> j \<noteq> ip \<Longrightarrow> tracked s' j = tracked s j \<and> live s' j = live s j"
  using ensure_ok [of ip s _ s' j] ensure_err [of ip s _ s' j] by (cases r) auto

lemma remove_other: "remove ip s = (r, s') \<Longrightarrow> j \<noteq> ip \<Longrightarrow> tracked s' j = tracked s j \<and> live s' j = live s j"
  using remove_ok [of ip s _ s' j] remove_err [of ip s _ s' j] by (cases r) auto

lemma ensure_keeps: "ensure ip s = (r, s') \<Longrightarrow> live s j \<Longrightarrow> live s' j"
  using ensure_ok [of ip s _ s' j] ensure_err [of ip s _ s' j] by (cases r) auto

lemma ensure_tracks_only: "ensure ip s = (r, s') \<Longrightarrow> tracked s' j \<Longrightarrow> tracked s j \<or> j = ip"
  using ensure_ok [of ip s _ s' j] ensure_err [of ip s _ s' j] by (cases r) auto

lemma remove_tracks_only: "remove ip s = (r, s') \<Longrightarrow> tracked s' j \<Longrightarrow> tracked s j \<or> j = ip \<and> (\<exists>e. r = Inl e)"
  using remove_ok [of ip s _ s' j] remove_err [of ip s _ s' j] by (cases r) auto

end

section \<open>The pod network's manager\<close>

datatype aliasState = aliasLive | aliasBlackholePending

datatype ifverb = VerbAlias | VerbUnalias

type_synonym 'k ifconfig = "ifverb \<Rightarrow> addr \<Rightarrow> 'k \<Rightarrow> string option \<times> 'k"

datatype alias_error = ErrIfconfig string | ErrRoute blackhole_error

record lo0AliasManager =
  nodeCIDR :: prefix
  aliased :: "addr \<Rightarrow> aliasState option"

definition newLo0AliasManager :: "prefix \<Rightarrow> lo0AliasManager" where
  "newLo0AliasManager c = \<lparr>nodeCIDR = c, aliased = Map.empty\<rparr>"

type_synonym 'k blackhole_op = "addr \<Rightarrow> 'k \<Rightarrow> (blackhole_error + unit) \<times> 'k"

definition lo0_Ensure ::
  "'k ifconfig \<Rightarrow> 'k blackhole_op \<Rightarrow> addr \<Rightarrow> lo0AliasManager \<times> 'k
     \<Rightarrow> (alias_error + unit) \<times> lo0AliasManager \<times> 'k" where
  "lo0_Ensure ifc clear ip s =
     (let (m, k) = s in
      if aliased m ip = Some aliasLive then (Inr (), m, k)
      else case (if IsPodAddress (nodeCIDR m) ip then clear ip k else (Inr (), k)) of
        (Inl e, k1) \<Rightarrow> (Inl (ErrRoute e), m, k1)
      | (Inr _, k1) \<Rightarrow>
          (case ifc VerbAlias ip k1 of
             (Some e, k2) \<Rightarrow> (Inl (ErrIfconfig e), m, k2)
           | (None, k2) \<Rightarrow> (Inr (), m\<lparr>aliased := (aliased m)(ip \<mapsto> aliasLive)\<rparr>, k2)))"

text \<open>The part of \<^verbatim>\<open>Remove\<close> after the switch.\<close>

definition lo0_finish ::
  "'k blackhole_op \<Rightarrow> addr \<Rightarrow> bool \<Rightarrow> bool \<Rightarrow> lo0AliasManager \<times> 'k
     \<Rightarrow> (alias_error + unit) \<times> lo0AliasManager \<times> 'k" where
  "lo0_finish install ip is_tracked removed s =
     (let (m, k) = s in
      if \<not> IsPodAddress (nodeCIDR m) ip then (Inr (), m\<lparr>aliased := (aliased m)(ip := None)\<rparr>, k)
      else if \<not> is_tracked \<and> \<not> removed then (Inr (), m, k)
      else case install ip k of
        (Inl e, k1) \<Rightarrow>
          (Inl (ErrRoute e), m\<lparr>aliased := (aliased m)(ip \<mapsto> aliasBlackholePending)\<rparr>, k1)
      | (Inr _, k1) \<Rightarrow> (Inr (), m\<lparr>aliased := (aliased m)(ip := None)\<rparr>, k1))"

definition lo0_Remove ::
  "'k ifconfig \<Rightarrow> 'k blackhole_op \<Rightarrow> addr \<Rightarrow> lo0AliasManager \<times> 'k
     \<Rightarrow> (alias_error + unit) \<times> lo0AliasManager \<times> 'k" where
  "lo0_Remove ifc install ip s =
     (let (m, k) = s in
      case aliased m ip of
        Some aliasBlackholePending \<Rightarrow> lo0_finish install ip True False (m, k)
      | Some aliasLive \<Rightarrow>
          (case ifc VerbUnalias ip k of
             (Some e, k1) \<Rightarrow> (Inl (ErrIfconfig e), m, k1)
           | (None, k1) \<Rightarrow> lo0_finish install ip True True (m, k1))
      | None \<Rightarrow>
          (case ifc VerbUnalias ip k of
             (e, k1) \<Rightarrow> lo0_finish install ip False (e = None) (m, k1)))"

definition lo0_tracked :: "lo0AliasManager \<times> 'k \<Rightarrow> addr \<Rightarrow> bool" where
  "lo0_tracked s j \<longleftrightarrow> aliased (fst s) j \<noteq> None"

definition lo0_live :: "lo0AliasManager \<times> 'k \<Rightarrow> addr \<Rightarrow> bool" where
  "lo0_live s j \<longleftrightarrow> aliased (fst s) j = Some aliasLive"

lemmas lo0_defs = lo0_Ensure_def lo0_Remove_def lo0_finish_def lo0_tracked_def lo0_live_def

interpretation lo0: alias_manager "lo0_Ensure ifc clear" "lo0_Remove ifc install" lo0_tracked lo0_live
  for ifc :: "'k ifconfig" and clear install :: "'k blackhole_op"
proof
  fix s s' :: "lo0AliasManager \<times> 'k" and j ip u e
  show "lo0_live s j \<Longrightarrow> lo0_tracked s j"
    by (simp add: lo0_defs)
  show "lo0_Ensure ifc clear ip s = (Inr u, s') \<Longrightarrow>
      lo0_tracked s' j = (lo0_tracked s j \<or> j = ip) \<and> lo0_live s' j = (lo0_live s j \<or> j = ip)"
    by (auto simp: lo0_defs Let_def split: prod.splits if_splits sum.splits option.splits)
  show "lo0_Ensure ifc clear ip s = (Inl e, s') \<Longrightarrow>
      lo0_tracked s' j = lo0_tracked s j \<and> lo0_live s' j = lo0_live s j"
    by (auto simp: lo0_defs Let_def split: prod.splits if_splits sum.splits option.splits)
  show "lo0_Remove ifc install ip s = (Inr u, s') \<Longrightarrow>
      lo0_tracked s' j = (lo0_tracked s j \<and> j \<noteq> ip) \<and> lo0_live s' j = (lo0_live s j \<and> j \<noteq> ip)"
    by (auto simp: lo0_defs Let_def
        split: prod.splits if_splits sum.splits option.splits aliasState.splits)
  show "lo0_Remove ifc install ip s = (Inl e, s') \<Longrightarrow>
      lo0_tracked s' j = (lo0_tracked s j \<or> j = ip) \<and> (lo0_live s' j \<longrightarrow> lo0_live s j)
      \<and> (j \<noteq> ip \<longrightarrow> lo0_live s' j = lo0_live s j)"
    by (auto simp: lo0_defs Let_def
        split: prod.splits if_splits sum.splits option.splits aliasState.splits)
qed

section \<open>The service proxy's manager\<close>

type_synonym proxyAliases = "addr set"

definition proxy_Ensure ::
  "'k ifconfig \<Rightarrow> addr \<Rightarrow> proxyAliases \<times> 'k \<Rightarrow> (string + unit) \<times> proxyAliases \<times> 'k" where
  "proxy_Ensure ifc ip s =
     (let (m, k) = s in
      if ip \<in> m then (Inr (), m, k)
      else case ifc VerbAlias ip k of
        (Some e, k1) \<Rightarrow> (Inl e, m, k1)
      | (None, k1) \<Rightarrow> (Inr (), insert ip m, k1))"

definition proxy_Remove ::
  "'k ifconfig \<Rightarrow> addr \<Rightarrow> proxyAliases \<times> 'k \<Rightarrow> (string + unit) \<times> proxyAliases \<times> 'k" where
  "proxy_Remove ifc ip s =
     (let (m, k) = s in
      if ip \<notin> m then (Inr (), m, snd (ifc VerbUnalias ip k))
      else case ifc VerbUnalias ip k of
        (Some e, k1) \<Rightarrow> (Inl e, m, k1)
      | (None, k1) \<Rightarrow> (Inr (), m - {ip}, k1))"

definition proxy_tracked :: "proxyAliases \<times> 'k \<Rightarrow> addr \<Rightarrow> bool" where
  "proxy_tracked s j \<longleftrightarrow> j \<in> fst s"

interpretation vip: alias_manager "proxy_Ensure ifc" "proxy_Remove ifc" proxy_tracked proxy_tracked
  for ifc :: "'k ifconfig"
  by unfold_locales
    (auto simp: proxy_Ensure_def proxy_Remove_def proxy_tracked_def Let_def
      split: prod.splits if_splits option.splits)

section \<open>An address is never aliased and blackholed at once\<close>

text \<open>
  The documented behaviour of the kernel's two tables: \<open>als\<close> are the addresses aliased on lo0 and
  \<open>tab\<close> the host routes. \<^verbatim>\<open>ifconfig\<close> changes the aliases as asked when it succeeds and changes
  nothing when it fails; routing messages leave the aliases alone.
\<close>

definition lo0_kernel ::
  "'k ifconfig \<Rightarrow> 'k route_write \<Rightarrow> 'k route_exchange \<Rightarrow> ('k \<Rightarrow> u32 \<Rightarrow> u32 option)
     \<Rightarrow> ('k \<Rightarrow> addr set) \<Rightarrow> bool" where
  "lo0_kernel ifc wr ex tab als \<longleftrightarrow>
     routing_kernel wr ex tab
     \<and> (\<forall>v ip k e k'. ifc v ip k = (e, k') \<longrightarrow> tab k' = tab k \<and>
          als k' = (if e \<noteq> None then als k
                    else if v = VerbAlias then insert ip (als k) else als k - {ip}))
     \<and> (\<forall>m k. als (snd (wr m k)) = als k) \<and> (\<forall>m k. als (snd (ex m k)) = als k)"

definition blackholed :: "(u32 \<Rightarrow> u32 option) \<Rightarrow> u32 \<Rightarrow> bool" where
  "blackholed t w \<longleftrightarrow> (\<exists>fl. t w = Some fl \<and> has_flag fl RTF_BLACKHOLE)"

definition alias_ok ::
  "('k \<Rightarrow> u32 \<Rightarrow> u32 option) \<Rightarrow> ('k \<Rightarrow> addr set) \<Rightarrow> lo0AliasManager \<times> 'k \<Rightarrow> bool" where
  "alias_ok tab als s \<longleftrightarrow>
     (\<forall>w. IsPodAddress (nodeCIDR (fst s)) (IPv4 w) \<longrightarrow>
        (lo0_live s (IPv4 w) \<longrightarrow> IPv4 w \<in> als (snd s)) \<and>
        (aliased (fst s) (IPv4 w) = Some aliasBlackholePending \<longrightarrow> IPv4 w \<notin> als (snd s)) \<and>
        (IPv4 w \<in> als (snd s) \<longrightarrow> \<not> blackholed (tab (snd s)) w))"

lemma lo0_kernel_ifc:
  assumes "lo0_kernel ifc wr ex tab als" and "ifc v ip k = (e, k')"
  shows "tab k' = tab k" "als k' = (if e \<noteq> None then als k
    else if v = VerbAlias then insert ip (als k) else als k - {ip})"
  using assms unfolding lo0_kernel_def by blast+

lemma lo0_kernel_als:
  assumes "lo0_kernel ifc wr ex tab als"
  shows "als (snd (wr m k)) = als k" "als (snd (ex m k)) = als k"
  using assms unfolding lo0_kernel_def by blast+

lemma lookupHostRoute_als:
  assumes "lo0_kernel ifc wr ex tab als" and "lookupHostRoute ex b k = (r, k')"
  shows "als k' = als k"
  using assms(2) lo0_kernel_als(2) [OF assms(1), of "blackholeMessage RTM_GET b" k]
  by (auto simp: lookupHostRoute_def split: prod.splits sum.splits)

lemma deleteHostRoute_als:
  assumes "lo0_kernel ifc wr ex tab als" and "deleteHostRoute wr b k = (r, k')"
  shows "als k' = als k"
  using assms(2) lo0_kernel_als(1) [OF assms(1), of "blackholeMessage RTM_DELETE b" k]
  by (auto simp: deleteHostRoute_def split: prod.splits)

lemma install_attempt_als:
  assumes "lo0_kernel ifc wr ex tab als"
  shows "als (snd (install_attempt wr ex b n k)) = als k"
  using assms
proof (induction wr ex b n k rule: install_attempt.induct)
  case (1 wr ex b n k)
  have add: "als k1 = als k" if "wr (blackholeMessage RTM_ADD b) k = (e, k1)" for e k1
    using lo0_kernel_als(1) [OF 1(2), of "blackholeMessage RTM_ADD b" k] that by simp
  obtain e k1 where a: "wr (blackholeMessage RTM_ADD b) k = (e, k1)" by fastforce
  obtain r k2 where l: "lookupHostRoute ex b k1 = (r, k2)" by fastforce
  obtain d k3 where x: "deleteHostRoute wr b k2 = (d, k3)" by fastforce
  have als: "als k1 = als k" "als k2 = als k" "als k3 = als k"
    using add [OF a] lookupHostRoute_als [OF 1(2) l] deleteHostRoute_als [OF 1(2) x] by simp_all
  have ih: "als (snd (install_attempt wr ex b (n + 1) k3)) = als k3"
    if "e = Some EEXIST" "r = Inr fl" "d = None"
      "\<not> (fl \<noteq> None \<and> has_flag (the fl) RTF_BLACKHOLE)"
      "fl \<noteq> None \<and> has_flag (the fl) RTF_WASCLONED \<and> n = 0" for fl
    by (rule 1(1) [OF a [symmetric] _ _ l [symmetric] _ _ _ x [symmetric] _ 1(2)]) (use that in auto)
  show ?case
    using als ih by (subst install_attempt.simps) (auto simp: a l x split: option.splits sum.splits)
qed

lemma Install_step:
  assumes "lo0_kernel ifc wr ex tab als" and "Install wr ex (IPv4 w) k = (r, k')"
  shows "als k' = als k" "v \<noteq> w \<Longrightarrow> tab k' v = tab k v" "r = Inr () \<Longrightarrow> blackholed (tab k') w"
proof -
  have "routing_kernel wr ex tab" using assms(1) by (simp add: lo0_kernel_def)
  from install_effect [OF this, of "IPv4 w" w k] assms(2)
  have *: "\<forall>v. v \<noteq> w \<longrightarrow> tab k' v = tab k v" "case tab k w of
       None \<Rightarrow> r = Inr () \<and> tab k' w = Some blackholeFlags
     | Some fl \<Rightarrow>
         if has_flag fl RTF_BLACKHOLE then r = Inr () \<and> tab k' w = Some fl
         else if has_flag fl RTF_WASCLONED then r = Inr () \<and> tab k' w = Some blackholeFlags
         else r = Inl RouteHeld \<and> tab k' w = Some fl" by auto
  show "als k' = als k"
    using install_attempt_als [OF assms(1), of "bytes4 w" 0 k] assms(2) by (simp add: Install_def)
  show "v \<noteq> w \<Longrightarrow> tab k' v = tab k v" using * by simp
  show "r = Inr () \<Longrightarrow> blackholed (tab k') w"
    using *(2) by (auto simp: blackholed_def split: option.splits if_splits)
qed

lemma Clear_step:
  assumes "lo0_kernel ifc wr ex tab als" and "Clear wr ex (IPv4 w) k = (r, k')"
  shows "als k' = als k" "r = Inr ()" "v \<noteq> w \<Longrightarrow> tab k' v = tab k v" "\<not> blackholed (tab k') w"
proof -
  have "routing_kernel wr ex tab" using assms(1) by (simp add: lo0_kernel_def)
  from clear_effect [OF this, of "IPv4 w" w k] assms(2)
  have *: "r = Inr ()" "tab k' = (case tab k w of
      Some fl \<Rightarrow> if has_flag fl RTF_BLACKHOLE then (tab k)(w := None) else tab k
    | None \<Rightarrow> tab k)" by auto
  show "r = Inr ()" by fact
  show "v \<noteq> w \<Longrightarrow> tab k' v = tab k v" "\<not> blackholed (tab k') w"
    using * by (auto simp: blackholed_def split: option.splits if_splits)
  show "als k' = als k"
    using assms(2) lookupHostRoute_als [OF assms(1)] deleteHostRoute_als [OF assms(1)]
    by (fastforce simp: Clear_def split: prod.splits sum.splits if_splits option.splits)
qed

lemma alias_ok_frame:
  assumes "alias_ok tab als (m, k)" and "als k' - {IPv4 w} = als k - {IPv4 w}"
    and "\<And>v. v \<noteq> w \<Longrightarrow> tab k' v = tab k v" and "nodeCIDR m' = nodeCIDR m"
    and "\<And>j. j \<noteq> IPv4 w \<Longrightarrow> aliased m' j = aliased m j"
    and "IsPodAddress (nodeCIDR m) (IPv4 w) \<Longrightarrow>
      (aliased m' (IPv4 w) = Some aliasLive \<longrightarrow> IPv4 w \<in> als k') \<and>
      (aliased m' (IPv4 w) = Some aliasBlackholePending \<longrightarrow> IPv4 w \<notin> als k') \<and>
      (IPv4 w \<in> als k' \<longrightarrow> \<not> blackholed (tab k') w)"
  shows "alias_ok tab als (m', k')"
  unfolding alias_ok_def fst_conv snd_conv
proof (intro allI impI)
  fix v assume v: "IsPodAddress (nodeCIDR m') (IPv4 v)"
  show "(lo0_live (m', k') (IPv4 v) \<longrightarrow> IPv4 v \<in> als k') \<and>
    (aliased m' (IPv4 v) = Some aliasBlackholePending \<longrightarrow> IPv4 v \<notin> als k') \<and>
    (IPv4 v \<in> als k' \<longrightarrow> \<not> blackholed (tab k') v)"
  proof (cases "v = w")
    case True
    then show ?thesis using assms(4,6) v by (simp add: lo0_live_def)
  next
    case False
    then have "IPv4 v \<in> als k' \<longleftrightarrow> IPv4 v \<in> als k" "aliased m' (IPv4 v) = aliased m (IPv4 v)"
      "tab k' v = tab k v"
      using assms(2,3,5) by auto
    with assms(1,4) v show ?thesis
      by (simp add: alias_ok_def lo0_live_def blackholed_def)
  qed
qed

lemma Ensure_alias_ok:
  assumes K: "lo0_kernel ifc wr ex tab als" and ok: "alias_ok tab als (m, k)"
    and e: "lo0_Ensure ifc (Clear wr ex) (IPv4 w) (m, k) = (r, m', k')"
  shows "alias_ok tab als (m', k') \<and> (IsPodAddress (nodeCIDR m) (IPv4 w) \<and> r = Inr () \<longrightarrow>
    IPv4 w \<in> als k' \<and> \<not> blackholed (tab k') w)"
proof (cases "aliased m (IPv4 w) = Some aliasLive")
  case True
  then have "m' = m" "k' = k" using e by (simp_all add: lo0_Ensure_def)
  with True ok show ?thesis by (auto simp: alias_ok_def lo0_live_def)
next
  case False
  define P where "P = IsPodAddress (nodeCIDR m) (IPv4 w)"
  obtain c k1 where c: "(if P then Clear wr ex (IPv4 w) k else (Inr (), k)) = (c, k1)" by fastforce
  have c1: "als k1 = als k" "c = Inr ()" "\<And>v. v \<noteq> w \<Longrightarrow> tab k1 v = tab k v"
    "P \<Longrightarrow> \<not> blackholed (tab k1) w"
    using c Clear_step [OF K, of w k c k1] by (auto split: if_splits)
  obtain f k2 where f: "ifc VerbAlias (IPv4 w) k1 = (f, k2)" by fastforce
  note f1 = lo0_kernel_ifc [OF K f]
  have m': "k' = k2" "r = Inr () \<longleftrightarrow> f = None"
    "m' = (if f = None then m\<lparr>aliased := (aliased m)(IPv4 w \<mapsto> aliasLive)\<rparr> else m)"
    using e False c c1(2) f by (auto simp: lo0_Ensure_def P_def split: option.splits)
  have nb: "P \<Longrightarrow> \<not> blackholed (tab k2) w" using c1(4) f1(1) by simp
  have pend: "aliased m (IPv4 w) = Some aliasBlackholePending \<Longrightarrow> P \<Longrightarrow> IPv4 w \<notin> als k"
    using ok by (auto simp: alias_ok_def P_def)
  have "alias_ok tab als (m', k')"
    using ok by (rule alias_ok_frame [where w = w])
      (use m' f1 c1 nb pend False in \<open>auto simp: P_def split: if_splits\<close>)
  then show ?thesis using m' nb f1 by (auto simp: P_def)
qed

lemma finish_alias_ok:
  assumes K: "lo0_kernel ifc wr ex tab als" and ok: "alias_ok tab als (m, k)"
    and t: "t \<longleftrightarrow> aliased m (IPv4 w) \<noteq> None" and gone: "t \<or> rem \<Longrightarrow> IPv4 w \<notin> als k1"
    and als: "als k1 = als k \<or> als k1 = als k - {IPv4 w}" and tab: "tab k1 = tab k"
    and e: "lo0_finish (Install wr ex) (IPv4 w) t rem (m, k1) = (r, m', k')"
  shows "alias_ok tab als (m', k') \<and> (IsPodAddress (nodeCIDR m) (IPv4 w) \<and> r = Inr () \<and> (t \<or> rem) \<longrightarrow>
    IPv4 w \<notin> als k' \<and> blackholed (tab k') w)"
proof -
  obtain i k2 where i: "Install wr ex (IPv4 w) k1 = (i, k2)" by fastforce
  note i1 = Install_step [OF K i]
  note frame = alias_ok_frame [where w = w and k = k and m = m, OF ok]
  have al: "als k1 - {IPv4 w} = als k - {IPv4 w}" using als by auto
  show ?thesis
  proof (cases "IsPodAddress (nodeCIDR m) (IPv4 w)")
    case False
    then have "k' = k1" "m' = m\<lparr>aliased := (aliased m)(IPv4 w := None)\<rparr>"
      using e by (simp_all add: lo0_finish_def)
    then have "alias_ok tab als (m', k')"
      using False al tab by (intro frame) simp_all
    with False show ?thesis by simp
  next
    case P: True
    have w: "IPv4 w \<in> als k \<longrightarrow> \<not> blackholed (tab k) w" using ok P by (simp add: alias_ok_def)
    show ?thesis
    proof (cases "t \<or> rem")
      case False
      then have "k' = k1" "m' = m" using e P by (simp_all add: lo0_finish_def)
      moreover from this have "alias_ok tab als (m', k')"
        using False t w als al tab by (intro frame) auto
      ultimately show ?thesis using False by simp
    next
      case True
      then have k': "k' = k2" "\<exists>s. m' = m\<lparr>aliased := (aliased m)(IPv4 w := s)\<rparr> \<and> s \<noteq> Some aliasLive"
        "r = Inr () \<longrightarrow> i = Inr ()"
        using e P i by (cases i; auto simp: lo0_finish_def)+
      then obtain s where s: "m' = m\<lparr>aliased := (aliased m)(IPv4 w := s)\<rparr>" "s \<noteq> Some aliasLive"
        by blast
      have "IPv4 w \<notin> als k2" using gone True i1(1) by simp
      moreover have "alias_ok tab als (m', k')"
        using k'(1) s i1(1,2) al tab calculation by (intro frame) auto
      ultimately show ?thesis using k' i1(3) by simp
    qed
  qed
qed

lemma Remove_alias_ok:
  assumes K: "lo0_kernel ifc wr ex tab als" and ok: "alias_ok tab als (m, k)"
    and e: "lo0_Remove ifc (Install wr ex) (IPv4 w) (m, k) = (r, m', k')"
  shows "alias_ok tab als (m', k') \<and> (IsPodAddress (nodeCIDR m) (IPv4 w) \<and> r = Inr ()
      \<and> lo0_tracked (m, k) (IPv4 w) \<longrightarrow> IPv4 w \<notin> als k' \<and> blackholed (tab k') w)"
proof -
  obtain f k1 where f: "ifc VerbUnalias (IPv4 w) k = (f, k1)" by fastforce
  note f1 = lo0_kernel_ifc [OF K f]
  have als: "als k1 = als k \<or> als k1 = als k - {IPv4 w}" using f1(2) by auto
  show ?thesis
  proof (cases "IsPodAddress (nodeCIDR m) (IPv4 w)")
    case P: True
    show ?thesis
    proof (cases "aliased m (IPv4 w)")
      case None
      then have "lo0_finish (Install wr ex) (IPv4 w) False (f = None) (m, k1) = (r, m', k')"
        using e f by (simp add: lo0_Remove_def)
      from finish_alias_ok [OF K ok _ _ als f1(1) this] None f1(2) show ?thesis
        by (auto simp: lo0_tracked_def)
    next
      case (Some a)
      show ?thesis
      proof (cases a)
        case aliasLive
        show ?thesis
        proof (cases f)
          case None
          then have "lo0_finish (Install wr ex) (IPv4 w) True True (m, k1) = (r, m', k')"
            using e f Some aliasLive by (simp add: lo0_Remove_def)
          from finish_alias_ok [OF K ok _ _ als f1(1) this] Some None f1(2) show ?thesis by auto
        next
          case (Some e')
          then have "m' = m" "k' = k1" "r \<noteq> Inr ()"
            using e f \<open>aliased m (IPv4 w) = Some a\<close> aliasLive by (auto simp: lo0_Remove_def)
          with Some f1 ok show ?thesis by (simp add: alias_ok_def lo0_live_def)
        qed
      next
        case aliasBlackholePending
        then have fin: "lo0_finish (Install wr ex) (IPv4 w) True False (m, k) = (r, m', k')"
          using e Some by (simp add: lo0_Remove_def)
        have "IPv4 w \<notin> als k" using ok P Some aliasBlackholePending by (simp add: alias_ok_def)
        from finish_alias_ok [OF K ok _ _ _ _ fin] this Some show ?thesis by auto
      qed
    qed
  next
    case False
    have *: "(k' = k \<or> k' = k1) \<and> nodeCIDR m' = nodeCIDR m
        \<and> (\<forall>j. j \<noteq> IPv4 w \<longrightarrow> aliased m' j = aliased m j)"
      using e f False
      by (cases f) (auto simp: lo0_Remove_def lo0_finish_def split: option.splits aliasState.splits)
    have "als k' - {IPv4 w} = als k - {IPv4 w}" "tab k' = tab k" using * als f1(1) by auto
    then have "alias_ok tab als (m', k')"
      using * False by (intro alias_ok_frame [where w = w and k = k and m = m, OF ok]) simp_all
    with False show ?thesis by simp
  qed
qed


text \<open>A kernel of two tables: the host routes and the aliases of lo0.\<close>

definition two_tables_ifc :: "((u32 \<Rightarrow> u32 option) \<times> addr set) ifconfig" where
  "two_tables_ifc v ip k =
     (if v = VerbAlias then (None, fst k, insert ip (snd k))
      else if ip \<in> snd k then (None, fst k, snd k - {ip})
      else (Some ''ifconfig: ioctl (SIOCDIFADDR)'', k))"

definition two_tables_write :: "((u32 \<Rightarrow> u32 option) \<times> addr set) route_write" where
  "two_tables_write m k = (let (e, t) = table_write m (fst k) in (e, t, snd k))"

definition two_tables_exchange :: "((u32 \<Rightarrow> u32 option) \<times> addr set) route_exchange" where
  "two_tables_exchange m k = (let (r, t) = table_exchange m (fst k) in (r, t, snd k))"

lemma two_tables_fst:
  "two_tables_write m k = (e, k') \<Longrightarrow> table_write m (fst k) = (e, fst k')"
  "two_tables_exchange m k = (r, k') \<Longrightarrow> table_exchange m (fst k) = (r, fst k')"
  by (auto simp: two_tables_write_def two_tables_exchange_def split: prod.splits)

lemma two_tables_routing:
  "routing_kernel two_tables_write two_tables_exchange (\<lambda>k. table_view (fst k))"
proof -
  have "kernel_adds table_write table_view" "kernel_deletes table_write table_view"
    "kernel_gets table_exchange table_view"
    using table_kernel by (simp_all add: routing_kernel_def)
  note table = this
  have "kernel_adds two_tables_write (\<lambda>k. table_view (fst k))"
    using table(1) unfolding kernel_adds_def by (metis (no_types, lifting) two_tables_fst(1))
  moreover have "kernel_deletes two_tables_write (\<lambda>k. table_view (fst k))"
    using table(2) unfolding kernel_deletes_def by (metis (no_types, lifting) two_tables_fst(1))
  moreover have "kernel_gets two_tables_exchange (\<lambda>k. table_view (fst k))"
    using table(3) unfolding kernel_gets_def by (blast dest: two_tables_fst(2))
  ultimately show ?thesis by (simp add: routing_kernel_def)
qed

lemma two_tables_kernel:
  "lo0_kernel two_tables_ifc two_tables_write two_tables_exchange (\<lambda>k. table_view (fst k)) snd"
  using two_tables_routing
  by (auto simp: lo0_kernel_def two_tables_ifc_def two_tables_write_def two_tables_exchange_def
      split: prod.splits if_splits)


end
