(* ===== verification/PodNetwork.thy ===== *)
theory PodNetwork
  imports Aliases
begin

text \<open>
  The pod network of a node (\<^verbatim>\<open>pkg/podnet/podnet.go\<close>, \<^verbatim>\<open>guest.go\<close>, \<^verbatim>\<open>reconcile.go\<close>): which pod holds
  which address. The state is the allocator, the alias manager (of any type \<open>'s\<close>), and the two maps
  the code keeps. Every method holds the mutex throughout, so each is one step. The alias manager's
  operations are arguments; the lemmas are proved in the context of its contract \<open>alias_manager\<close> and
  used for the lo0 manager through the interpretation \<open>lo0\<close>.
\<close>

section \<open>State\<close>

datatype Backend = BackendHostProcess | BackendVM

record podEntry =
  pe_ip :: addr
  pe_backend :: Backend

record VMNetworkConfig =
  vm_NATSubnet :: prefix
  vm_Gateway :: addr
  vm_DNSVIP :: addr

record GuestNetwork =
  gn_PodIP :: addr
  gn_Gateway :: addr
  gn_NATSubnet :: prefix
  gn_DNSVIP :: addr

record 's Network =
  nw_alloc :: Allocator
  nw_alias :: 's
  nw_vm :: VMNetworkConfig
  byPod :: "string \<Rightarrow> podEntry option"
  inverse :: "addr \<Rightarrow> string option"

datatype 'e net_error = NetErr podnet_error | AliasErr 'e | JoinedErrs "'e list"

type_synonym ('s, 'e) alias_op = "addr \<Rightarrow> 's \<Rightarrow> ('e + unit) \<times> 's"

definition podnet_New :: "prefix \<Rightarrow> 's \<Rightarrow> VMNetworkConfig \<Rightarrow> podnet_error + 's Network" where
  "podnet_New c am cfg =
     (case NewAllocator c of
        Inl e \<Rightarrow> Inl e
      | Inr a \<Rightarrow>
          Inr \<lparr>nw_alloc = a, nw_alias = am, nw_vm = cfg, byPod = Map.empty, inverse = Map.empty\<rparr>)"

section \<open>Operations\<close>

definition EnsureNodeAlias ::
  "('s, 'e) alias_op \<Rightarrow> addr \<Rightarrow> 's Network \<Rightarrow> ('e net_error + unit) \<times> 's Network" where
  "EnsureNodeAlias ens ip n =
     (case ens ip (nw_alias n) of
        (Inl e, s) \<Rightarrow> (Inl (AliasErr e), n\<lparr>nw_alias := s\<rparr>)
      | (Inr _, s) \<Rightarrow> (Inr (), n\<lparr>nw_alias := s\<rparr>))"

definition podnet_setup ::
  "('s, 'e) alias_op \<Rightarrow> string \<Rightarrow> Backend \<Rightarrow> 's Network \<Rightarrow> ('e net_error + addr) \<times> 's Network" where
  "podnet_setup ens podID backend n =
     (if podID = [] then (Inl (NetErr ErrEmptyPodID), n)
      else case byPod n podID of
        Some e \<Rightarrow>
          if pe_backend e \<noteq> backend then (Inl (NetErr ErrBackendMismatch), n)
          else (case ens (pe_ip e) (nw_alias n) of
                  (Inl x, s) \<Rightarrow> (Inl (AliasErr x), n\<lparr>nw_alias := s\<rparr>)
                | (Inr _, s) \<Rightarrow> (Inr (pe_ip e), n\<lparr>nw_alias := s\<rparr>))
      | None \<Rightarrow>
          (case Allocate (nw_alloc n) of
             (Inl x, a) \<Rightarrow> (Inl (NetErr x), n\<lparr>nw_alloc := a\<rparr>)
           | (Inr ip, a) \<Rightarrow>
               (case ens ip (nw_alias n) of
                  (Inl x, s) \<Rightarrow>
                    (Inl (AliasErr x), n\<lparr>nw_alloc := snd (Release a ip), nw_alias := s\<rparr>)
                | (Inr _, s) \<Rightarrow>
                    (Inr ip, n\<lparr>nw_alloc := a, nw_alias := s,
                       byPod := (byPod n)(podID \<mapsto> \<lparr>pe_ip = ip, pe_backend = backend\<rparr>),
                       inverse := (inverse n)(ip \<mapsto> podID)\<rparr>))))"

definition Setup ::
  "('s, 'e) alias_op \<Rightarrow> string \<Rightarrow> 's Network \<Rightarrow> ('e net_error + addr) \<times> 's Network" where
  "Setup ens podID n = podnet_setup ens podID BackendHostProcess n"

definition SetupGuest ::
  "('s, 'e) alias_op \<Rightarrow> string \<Rightarrow> 's Network \<Rightarrow> ('e net_error + GuestNetwork) \<times> 's Network" where
  "SetupGuest ens podID n =
     (case podnet_setup ens podID BackendVM n of
        (Inl e, n') \<Rightarrow> (Inl e, n')
      | (Inr ip, n') \<Rightarrow>
          (Inr \<lparr>gn_PodIP = ip, gn_Gateway = vm_Gateway (nw_vm n'),
                gn_NATSubnet = vm_NATSubnet (nw_vm n'), gn_DNSVIP = vm_DNSVIP (nw_vm n')\<rparr>, n'))"

definition Teardown ::
  "('s, 'e) alias_op \<Rightarrow> string \<Rightarrow> 's Network \<Rightarrow> ('e net_error + unit) \<times> 's Network" where
  "Teardown rem podID n =
     (if podID = [] then (Inl (NetErr ErrEmptyPodID), n)
      else case byPod n podID of
        None \<Rightarrow> (Inr (), n)
      | Some e \<Rightarrow>
          (case rem (pe_ip e) (nw_alias n) of
             (Inl x, s) \<Rightarrow> (Inl (AliasErr x), n\<lparr>nw_alias := s\<rparr>)
           | (Inr _, s) \<Rightarrow>
               (case Release (nw_alloc n) (pe_ip e) of
                  (r, a) \<Rightarrow>
                    let n' = n\<lparr>nw_alias := s, nw_alloc := a\<rparr> in
                    if r \<noteq> Inr () \<and> r \<noteq> Inl ErrNotAllocated then (Inl (NetErr (projl r)), n')
                    else (Inr (), n'\<lparr>byPod := (byPod n)(podID := None),
                                     inverse := (inverse n)(pe_ip e := None)\<rparr>))))"

definition network_IP :: "'s Network \<Rightarrow> string \<Rightarrow> addr option" where
  "network_IP n podID = map_option pe_ip (byPod n podID)"

definition Pods :: "'s Network \<Rightarrow> nat" where
  "Pods n = card (dom (byPod n))"

definition reattach ::
  "('s, 'e) alias_op \<Rightarrow> string \<Rightarrow> addr \<Rightarrow> Backend \<Rightarrow> 's Network \<Rightarrow> ('e net_error + unit) \<times> 's Network"
where
  "reattach ens podID ip backend n =
     (if podID = [] then (Inl (NetErr ErrEmptyPodID), n)
      else case byPod n podID of
        Some e \<Rightarrow>
          if backend = BackendVM \<and> pe_backend e \<noteq> BackendVM then (Inl (NetErr ErrBackendMismatch), n)
          else if pe_ip e \<noteq> ip then (Inl (NetErr (ErrBoundElsewhere (pe_ip e) ip)), n)
          else (case ens ip (nw_alias n) of
                  (Inl x, s) \<Rightarrow> (Inl (AliasErr x), n\<lparr>nw_alias := s\<rparr>)
                | (Inr _, s) \<Rightarrow> (Inr (), n\<lparr>nw_alias := s\<rparr>))
      | None \<Rightarrow>
          if inverse n ip \<noteq> None then (Inl (NetErr ErrIPInUse), n)
          else (case AllocateSpecific (nw_alloc n) ip of
                  (Inl x, a) \<Rightarrow> (Inl (NetErr x), n\<lparr>nw_alloc := a\<rparr>)
                | (Inr alreadyHeld, a) \<Rightarrow>
                    if alreadyHeld then (Inl (NetErr ErrIPInUse), n\<lparr>nw_alloc := a\<rparr>)
                    else (case ens ip (nw_alias n) of
                            (Inl x, s) \<Rightarrow>
                              (Inl (AliasErr x), n\<lparr>nw_alloc := snd (Release a ip), nw_alias := s\<rparr>)
                          | (Inr _, s) \<Rightarrow>
                              (Inr (), n\<lparr>nw_alloc := a, nw_alias := s,
                                 byPod := (byPod n)(podID \<mapsto> \<lparr>pe_ip = ip, pe_backend = backend\<rparr>),
                                 inverse := (inverse n)(ip \<mapsto> podID)\<rparr>))))"

definition ReattachPod ::
  "('s, 'e) alias_op \<Rightarrow> string \<Rightarrow> addr \<Rightarrow> 's Network \<Rightarrow> ('e net_error + unit) \<times> 's Network" where
  "ReattachPod ens podID ip n = reattach ens podID ip BackendHostProcess n"

definition ReattachGuest ::
  "('s, 'e) alias_op \<Rightarrow> string \<Rightarrow> addr \<Rightarrow> 's Network \<Rightarrow> ('e net_error + unit) \<times> 's Network" where
  "ReattachGuest ens podID ip n = reattach ens podID ip BackendVM n"

text \<open>
  The loop of \<^verbatim>\<open>SweepStale\<close> from \<open>ip\<close> to \<open>last\<close>, with the errors met. It would not end if the address
  ran past the top of the address space, so it carries fuel; the result is \<^term>\<open>None\<close> when the fuel
  runs out.
\<close>

fun sweep_loop ::
  "('s, 'e) alias_op \<Rightarrow> addr set \<Rightarrow> addr \<Rightarrow> nat \<Rightarrow> addr \<Rightarrow> 's \<Rightarrow> 'e list \<Rightarrow> ('e list \<times> 's) option" where
  "sweep_loop rem keep l 0 ip s errs = None"
| "sweep_loop rem keep l (Suc fuel) ip s errs =
     (if \<not> ip \<le> l then Some (errs, s)
      else if ip \<in> keep then sweep_loop rem keep l fuel (Next ip) s errs
      else case rem ip s of
        (Inl e, s') \<Rightarrow> sweep_loop rem keep l fuel (Next ip) s' (errs @ [e])
      | (Inr _, s') \<Rightarrow> sweep_loop rem keep l fuel (Next ip) s' errs)"

definition sweep_fuel :: nat where
  "sweep_fuel = 254"

definition SweepStale ::
  "('s, 'e) alias_op \<Rightarrow> (string \<Rightarrow> addr option) \<Rightarrow> 's Network
     \<Rightarrow> (('e net_error + unit) \<times> 's Network) option" where
  "SweepStale rem known n =
     (let keep = ran known \<union> dom (inverse n) in
      case sweep_loop rem keep (al_last (nw_alloc n)) sweep_fuel (al_first (nw_alloc n))
        (nw_alias n) [] of
        None \<Rightarrow> None
      | Some (errs, s) \<Rightarrow>
          Some (if errs = [] then Inr () else Inl (JoinedErrs errs), n\<lparr>nw_alias := s\<rparr>))"

section \<open>The invariant\<close>

text \<open>
  The two maps are inverse to each other, the allocator holds exactly the bound addresses, and the
  alias manager tracks the address of every bound pod.
\<close>

definition net_inv :: "('s \<Rightarrow> addr \<Rightarrow> bool) \<Rightarrow> 's Network \<Rightarrow> bool" where
  "net_inv tracked n \<longleftrightarrow> wf_alloc (nw_alloc n) \<and> byPod n [] = None
     \<and> (\<forall>pod e. byPod n pod = Some e \<longrightarrow> inverse n (pe_ip e) = Some pod \<and> tracked (nw_alias n) (pe_ip e))
     \<and> (\<forall>ip pod. inverse n ip = Some pod \<longrightarrow> (\<exists>e. byPod n pod = Some e \<and> pe_ip e = ip))
     \<and> dom (inverse n) = allocated (nw_alloc n)"

lemma net_invD:
  assumes "net_inv tracked n"
  shows "wf_alloc (nw_alloc n)"
    and "byPod n pod = Some e \<Longrightarrow> inverse n (pe_ip e) = Some pod"
    and "byPod n pod = Some e \<Longrightarrow> tracked (nw_alias n) (pe_ip e)"
    and "byPod n pod = Some e \<Longrightarrow> pe_ip e \<in> allocated (nw_alloc n)"
    and "inverse n ip = Some pod \<Longrightarrow> \<exists>e. byPod n pod = Some e \<and> pe_ip e = ip"
    and "ip \<in> allocated (nw_alloc n) \<longleftrightarrow> inverse n ip \<noteq> None"
  using assms unfolding net_inv_def by blast+

lemma net_inv_ips_distinct:
  "net_inv tracked n \<Longrightarrow> byPod n p = Some d \<Longrightarrow> byPod n q = Some e \<Longrightarrow> pe_ip d = pe_ip e \<Longrightarrow> p = q"
  using net_invD(2) [of tracked n p d] net_invD(2) [of tracked n q e] by auto

lemma podnet_New_inv: "podnet_New c am cfg = Inr n \<Longrightarrow> net_inv tracked n"
  using NewAllocator_inv
  by (fastforce simp: podnet_New_def net_inv_def wf_alloc_def split: sum.splits)

lemma net_inv_alias:
  assumes "net_inv tracked n"
    and "\<And>ip. tracked (nw_alias n) ip \<Longrightarrow> inverse n ip \<noteq> None \<Longrightarrow> tracked s ip"
  shows "net_inv tracked (n\<lparr>nw_alias := s\<rparr>)"
  using assms unfolding net_inv_def by (auto simp: domIff)

lemma net_inv_bind:
  assumes "net_inv tracked n" and "byPod n pod = None" and "pod \<noteq> []" and "wf_alloc a"
    and "allocated a = insert ip (allocated (nw_alloc n))" and "ip \<notin> allocated (nw_alloc n)"
    and "\<And>j. tracked (nw_alias n) j \<or> j = ip \<Longrightarrow> tracked s j"
  shows "net_inv tracked (n\<lparr>nw_alloc := a, nw_alias := s,
      byPod := (byPod n)(pod \<mapsto> \<lparr>pe_ip = ip, pe_backend = b\<rparr>),
      inverse := (inverse n)(ip \<mapsto> pod)\<rparr>)"
proof -
  have ip: "inverse n ip = None" using assms(1,6) net_invD(6) by blast
  have "\<And>e p. byPod n p = Some e \<Longrightarrow> pe_ip e \<noteq> ip" using net_invD(2) [OF assms(1)] ip by fastforce
  moreover have "\<And>j. inverse n j \<noteq> Some pod" using net_invD(5) [OF assms(1)] assms(2) by fastforce
  ultimately show ?thesis using assms ip unfolding net_inv_def by (auto simp: dom_def)
qed

lemma net_inv_unbind:
  assumes "net_inv tracked n" and "byPod n pod = Some e" and "wf_alloc a"
    and "allocated a = allocated (nw_alloc n) - {pe_ip e}"
    and "\<And>j. tracked (nw_alias n) j \<Longrightarrow> j \<noteq> pe_ip e \<Longrightarrow> tracked s j"
  shows "net_inv tracked (n\<lparr>nw_alias := s, nw_alloc := a, byPod := (byPod n)(pod := None),
      inverse := (inverse n)(pe_ip e := None)\<rparr>)"
proof -
  have "\<And>d p. byPod n p = Some d \<Longrightarrow> p \<noteq> pod \<Longrightarrow> pe_ip d \<noteq> pe_ip e"
    using net_inv_ips_distinct [OF assms(1)] assms(2) by blast
  moreover have "\<And>j. inverse n j = Some pod \<Longrightarrow> j = pe_ip e"
    using net_invD(5) [OF assms(1)] assms(2) by fastforce
  ultimately show ?thesis using assms unfolding net_inv_def by (auto simp: dom_def)
qed

section \<open>The operations keep the invariant\<close>

context alias_manager
begin

lemma node_alias_inv:
  assumes "net_inv tracked n" and "EnsureNodeAlias ensure ip n = (r, n')"
  shows "net_inv tracked n'"
proof -
  obtain x s where x: "ensure ip (nw_alias n) = (x, s)" by fastforce
  then have "net_inv tracked (n\<lparr>nw_alias := s\<rparr>)"
    using assms(1) ensure_ok ensure_err by (cases x) (blast intro: net_inv_alias)+
  with assms(2) x show ?thesis by (cases x) (auto simp: EnsureNodeAlias_def)
qed

lemma setup_spec:
  assumes "net_inv tracked n" and "podnet_setup ensure pod b n = (r, n')"
  shows "net_inv tracked n' \<and>
    (case r of
       Inl e \<Rightarrow> byPod n' = byPod n \<and> inverse n' = inverse n
         \<and> allocated (nw_alloc n') = allocated (nw_alloc n)
     | Inr ip \<Rightarrow> byPod n' = (byPod n)(pod \<mapsto> \<lparr>pe_ip = ip, pe_backend = b\<rparr>)
         \<and> live (nw_alias n') ip
         \<and> (case byPod n pod of
              Some e \<Rightarrow> pe_ip e = ip \<and> allocated (nw_alloc n') = allocated (nw_alloc n)
            | None \<Rightarrow> ip \<in> alloc_hosts (nw_alloc n) - allocated (nw_alloc n)
                \<and> allocated (nw_alloc n') = insert ip (allocated (nw_alloc n))))"
proof (cases "pod = []")
  case True
  with assms show ?thesis by (auto simp: podnet_setup_def)
next
  case ne: False
  note wf = net_invD(1) [OF assms(1)]
  show ?thesis
  proof (cases "byPod n pod")
    case (Some e)
    obtain x s where x: "ensure (pe_ip e) (nw_alias n) = (x, s)" by fastforce
    have keep: "net_inv tracked (n\<lparr>nw_alias := s\<rparr>)"
      using assms(1) ensure_ok ensure_err x by (cases x) (blast intro: net_inv_alias)+
    have "live s (pe_ip e)" if "x = Inr u" for u using ensure_ok [of "pe_ip e" "nw_alias n" u s] x that by blast
    moreover have "(byPod n)(pod \<mapsto> \<lparr>pe_ip = pe_ip e, pe_backend = pe_backend e\<rparr>) = byPod n"
      using Some by auto
    ultimately show ?thesis
      using assms ne Some x keep
      by (cases x) (auto simp: podnet_setup_def split: if_split_asm)
  next
    case None
    obtain q a where q: "Allocate (nw_alloc n) = (q, a)" by fastforce
    show ?thesis
    proof (cases q)
      case (Inl e)
      then have "a = nw_alloc n" using pool.allocate_err [OF wf] q by blast
      with assms ne None q Inl show ?thesis by (auto simp: podnet_setup_def)
    next
      case (Inr ip)
      note al = pool.allocate_ok [OF wf q [unfolded Inr]]
      note undo = pool.rollback_allocate [OF wf q [unfolded Inr]]
      obtain x s where x: "ensure ip (nw_alias n) = (x, s)" by fastforce
      show ?thesis
      proof (cases x)
        case (Inl e)
        have "net_inv tracked (n\<lparr>nw_alloc := snd (Release a ip), nw_alias := s\<rparr>)"
          using assms(1) undo ensure_err [OF x [unfolded Inl]] unfolding net_inv_def by simp
        with assms ne None q Inr x Inl undo show ?thesis by (auto simp: podnet_setup_def)
      next
        case ok: (Inr u)
        have "net_inv tracked (n\<lparr>nw_alloc := a, nw_alias := s,
            byPod := (byPod n)(pod \<mapsto> \<lparr>pe_ip = ip, pe_backend = b\<rparr>),
            inverse := (inverse n)(ip \<mapsto> pod)\<rparr>)"
          using assms(1) None ne al ensure_ok [OF x [unfolded ok]] by (intro net_inv_bind) auto
        with assms ne None q Inr x ok al ensure_ok [OF x [unfolded ok]] show ?thesis
          by (auto simp: podnet_setup_def)
      qed
    qed
  qed
qed

lemma teardown_spec:
  assumes "net_inv tracked n" and "Teardown remove pod n = (r, n')"
  shows "net_inv tracked n' \<and>
    (case r of
       Inl e \<Rightarrow> byPod n' = byPod n \<and> inverse n' = inverse n
         \<and> allocated (nw_alloc n') = allocated (nw_alloc n)
     | Inr u \<Rightarrow> byPod n' = (byPod n)(pod := None)
         \<and> (case byPod n pod of
              None \<Rightarrow> n' = n
            | Some e \<Rightarrow> \<not> tracked (nw_alias n') (pe_ip e) \<and> inverse n' (pe_ip e) = None
                \<and> allocated (nw_alloc n') = allocated (nw_alloc n) - {pe_ip e}))"
proof (cases "byPod n pod")
  case None
  then have "(byPod n)(pod := None) = byPod n" by auto
  with None assms show ?thesis by (cases "pod = []") (auto simp: Teardown_def)
next
  case (Some e)
  then have ne: "pod \<noteq> []" using assms(1) by (auto simp: net_inv_def)
  obtain x s where x: "remove (pe_ip e) (nw_alias n) = (x, s)" by fastforce
  show ?thesis
  proof (cases x)
    case (Inl er)
    then have "net_inv tracked (n\<lparr>nw_alias := s\<rparr>)"
      using assms(1) remove_err [OF x [unfolded Inl]] by (blast intro: net_inv_alias)
    with assms ne Some x Inl show ?thesis by (auto simp: Teardown_def)
  next
    case (Inr u)
    obtain a where a: "Release (nw_alloc n) (pe_ip e) = (Inr (), a)" "wf_alloc a"
        "allocated a = allocated (nw_alloc n) - {pe_ip e}"
      using pool.release_held [OF net_invD(1) [OF assms(1)] net_invD(4) [OF assms(1) Some]] by blast
    have "net_inv tracked (n\<lparr>nw_alias := s, nw_alloc := a, byPod := (byPod n)(pod := None),
        inverse := (inverse n)(pe_ip e := None)\<rparr>)"
      using assms(1) Some a remove_ok [OF x [unfolded Inr]] by (intro net_inv_unbind) auto
    moreover have "n' = n\<lparr>nw_alias := s, nw_alloc := a, byPod := (byPod n)(pod := None),
        inverse := (inverse n)(pe_ip e := None)\<rparr>" and "r = Inr ()"
      using assms(2) ne Some x Inr a(1) by (simp_all add: Teardown_def)
    ultimately show ?thesis
      using Some a(3) remove_ok [OF x [unfolded Inr], of "pe_ip e"] by simp
  qed
qed

lemma reattach_spec:
  assumes "net_inv tracked n" and "reattach ensure pod ip b n = (r, n')"
  shows "net_inv tracked n' \<and>
    (case r of
       Inl e \<Rightarrow> byPod n' = byPod n \<and> inverse n' = inverse n
         \<and> allocated (nw_alloc n') = allocated (nw_alloc n)
     | Inr u \<Rightarrow> live (nw_alias n') ip \<and> network_IP n' pod = Some ip
         \<and> allocated (nw_alloc n') = insert ip (allocated (nw_alloc n))
         \<and> (\<forall>q. q \<noteq> pod \<longrightarrow> byPod n' q = byPod n q)
         \<and> (inverse n ip = None \<or> inverse n ip = Some pod))"
proof (cases "pod = []")
  case True
  with assms show ?thesis by (auto simp: reattach_def)
next
  case ne: False
  note wf = net_invD(1) [OF assms(1)]
  obtain x s where x: "ensure ip (nw_alias n) = (x, s)" by fastforce
  show ?thesis
  proof (cases "byPod n pod")
    case (Some e)
    have keep: "net_inv tracked (n\<lparr>nw_alias := s\<rparr>)"
      using assms(1) ensure_ok ensure_err x by (cases x) (blast intro: net_inv_alias)+
    have l: "live s ip" if "x = Inr u" for u
      using ensure_ok [of ip "nw_alias n" u s] x that by blast
    have "inverse n (pe_ip e) = Some pod" "pe_ip e \<in> allocated (nw_alloc n)"
      using net_invD(2,4) [OF assms(1) Some] by auto
    then show ?thesis
      using assms ne Some x keep l
      by (cases x) (auto simp: reattach_def network_IP_def insert_absorb split: if_splits)
  next
    case None
    obtain q a where q: "AllocateSpecific (nw_alloc n) ip = (q, a)" by fastforce
    consider (used) "inverse n ip \<noteq> None" | (bad) e where "inverse n ip = None" "q = Inl e"
      | (got) h where "inverse n ip = None" "q = Inr h" by (cases q) auto
    then show ?thesis
    proof cases
      case used
      with assms ne None show ?thesis by (auto simp: reattach_def)
    next
      case (bad e)
      then have "a = nw_alloc n" using pool.specific_err [OF wf] q by blast
      with assms ne None q bad show ?thesis by (auto simp: reattach_def)
    next
      case (got h)
      have free: "ip \<notin> allocated (nw_alloc n)" using got(1) net_invD(6) [OF assms(1)] by simp
      note sp = pool.specific_ok [OF wf q [unfolded got(2)]]
      have h: "h = False" using sp free by simp
      note undo = pool.rollback_specific [OF wf q [unfolded got(2) h]]
      show ?thesis
      proof (cases x)
        case (Inl e)
        have "net_inv tracked (n\<lparr>nw_alloc := snd (Release a ip), nw_alias := s\<rparr>)"
          using assms(1) undo ensure_err [OF x [unfolded Inl]] unfolding net_inv_def by simp
        with assms ne None q got h x Inl undo show ?thesis by (auto simp: reattach_def)
      next
        case (Inr u)
        have "net_inv tracked (n\<lparr>nw_alloc := a, nw_alias := s,
            byPod := (byPod n)(pod \<mapsto> \<lparr>pe_ip = ip, pe_backend = b\<rparr>),
            inverse := (inverse n)(ip \<mapsto> pod)\<rparr>)"
          using assms(1) None ne sp free ensure_ok [OF x [unfolded Inr]]
          by (intro net_inv_bind) auto
        with assms ne None q got h x Inr sp ensure_ok [OF x [unfolded Inr], of ip] show ?thesis
          by (auto simp: reattach_def network_IP_def)
      qed
    qed
  qed
qed

lemma sweep_loop_spec:
  assumes "slash24 net" and "2 \<le> k" and "k \<le> 255" and "255 - k < fuel"
  shows "\<exists>es s'. sweep_loop remove keep (host net 254) fuel (host net k) s errs = Some (errs @ es, s')
    \<and> (\<forall>j. j \<in> keep \<or> j \<notin> host net ` {k..254} \<longrightarrow> tracked s' j = tracked s j \<and> live s' j = live s j)
    \<and> (es = [] \<longrightarrow> (\<forall>j \<in> host net ` {k..254} - keep. \<not> tracked s' j))"
  using assms(2,3,4)
proof (induction fuel arbitrary: k s errs)
  case 0
  then show ?case by simp
next
  case (Suc fuel)
  show ?case
  proof (cases "k = 255")
    case True
    then have "\<not> host net k \<le> host net 254" using assms(1) by (simp add: host_le_iff)
    with True show ?thesis by simp
  next
    case False
    then have k: "k \<le> 254" "Next (host net k) = host net (Suc k)" "host net k \<le> host net 254"
      using Suc.prems assms(1) by (auto simp: Next_host host_le_iff)
    define H where "H = host net ` {Suc k..254}"
    have "{k..254} = insert k {Suc k..254}" using k(1) by auto
    then have mem: "host net ` {k..254} = insert (host net k) H" by (simp add: H_def)
    have fresh: "host net k \<notin> H"
      using k(1) assms(1) by (auto simp: host_eq_iff H_def)
    have ih: "\<exists>es s'. sweep_loop remove keep (host net 254) fuel (host net (Suc k)) t ers
        = Some (ers @ es, s')
      \<and> (\<forall>j. j \<in> keep \<or> j \<notin> H \<longrightarrow> tracked s' j = tracked t j \<and> live s' j = live t j)
      \<and> (es = [] \<longrightarrow> (\<forall>j \<in> H - keep. \<not> tracked s' j))" for t ers
      using Suc.IH [of "Suc k" t ers] Suc.prems k(1) by (simp add: H_def)
    have unfold: "sweep_loop remove keep (host net 254) (Suc fuel) (host net k) s errs =
        (if host net k \<in> keep then sweep_loop remove keep (host net 254) fuel (host net (Suc k)) s errs
         else case remove (host net k) s of
           (Inl e, s') \<Rightarrow> sweep_loop remove keep (host net 254) fuel (host net (Suc k)) s' (errs @ [e])
         | (Inr _, s') \<Rightarrow> sweep_loop remove keep (host net 254) fuel (host net (Suc k)) s' errs)"
      using k(3) unfolding sweep_loop.simps k(2) by simp
    show ?thesis
    proof (cases "host net k \<in> keep")
      case True
      then show ?thesis
        unfolding unfold mem using ih [of s errs] by auto
    next
      case nk: False
      obtain r t where r: "remove (host net k) s = (r, t)" by fastforce
      show ?thesis
      proof (cases r)
        case (Inl e)
        obtain es s' where ls: "sweep_loop remove keep (host net 254) fuel (host net (Suc k)) t
            (errs @ [e]) = Some ((errs @ [e]) @ es, s')"
          and f: "\<forall>j. j \<in> keep \<or> j \<notin> H \<longrightarrow> tracked s' j = tracked t j \<and> live s' j = live t j"
          using ih [of t "errs @ [e]"] by blast
        have "tracked s' j = tracked s j \<and> live s' j = live s j"
          if "j \<in> keep \<or> j \<notin> insert (host net k) H" for j
          using that f nk remove_other [OF r, of j] by auto
        then show ?thesis
          unfolding unfold mem using ls nk r Inl
          by (intro exI [of _ "e # es"] exI [of _ s']) simp
      next
        case (Inr u)
        obtain es s' where ls: "sweep_loop remove keep (host net 254) fuel (host net (Suc k)) t errs
            = Some (errs @ es, s')"
          and f: "\<forall>j. j \<in> keep \<or> j \<notin> H \<longrightarrow> tracked s' j = tracked t j \<and> live s' j = live t j"
          and g: "es = [] \<longrightarrow> (\<forall>j \<in> H - keep. \<not> tracked s' j)"
          using ih [of t errs] by blast
        have o: "tracked s' j = tracked s j \<and> live s' j = live s j"
          if "j \<in> keep \<or> j \<notin> insert (host net k) H" for j
          using that f nk remove_other [OF r, of j] by auto
        have "\<not> tracked s' (host net k)"
          using f fresh remove_ok [OF r [unfolded Inr], of "host net k"] by simp
        with g have "es = [] \<longrightarrow> (\<forall>j \<in> insert (host net k) H - keep. \<not> tracked s' j)"
          by auto
        with o show ?thesis
          unfolding unfold mem using ls nk r Inr by (intro exI [of _ es] exI [of _ s']) simp
      qed
    qed
  qed
qed

lemma sweep_spec:
  assumes "net_inv tracked n"
  shows "\<exists>r s. SweepStale remove known n = Some (r, n\<lparr>nw_alias := s\<rparr>)
    \<and> net_inv tracked (n\<lparr>nw_alias := s\<rparr>)
    \<and> (\<forall>j. j \<in> ran known \<or> inverse n j \<noteq> None \<or> j \<notin> alloc_hosts (nw_alloc n) \<longrightarrow>
         tracked s j = tracked (nw_alias n) j \<and> live s j = live (nw_alias n) j)
    \<and> (r = Inr () \<longrightarrow> (\<forall>j. j \<in> alloc_hosts (nw_alloc n) \<and> j \<notin> ran known \<and> inverse n j = None
         \<longrightarrow> \<not> tracked s j))"
proof -
  obtain net where net: "alloc_inv net (nw_alloc n)"
    using net_invD(1) [OF assms] by (auto simp: wf_alloc_def)
  then have b: "al_first (nw_alloc n) = host net 2" "al_last (nw_alloc n) = host net 254" "slash24 net"
    by (auto simp: alloc_inv_def)
  note hosts = alloc_hosts_inv [OF net]
  let ?keep = "ran known \<union> dom (inverse n)"
  obtain es s where l: "sweep_loop remove ?keep (host net 254) sweep_fuel (host net 2) (nw_alias n) []
      = Some (es, s)"
    and f: "\<forall>j. j \<in> ?keep \<or> j \<notin> host net ` {2..254} \<longrightarrow>
      tracked s j = tracked (nw_alias n) j \<and> live s j = live (nw_alias n) j"
    and g: "es = [] \<longrightarrow> (\<forall>j \<in> host net ` {2..254} - ?keep. \<not> tracked s j)"
    using sweep_loop_spec [OF b(3), of 2 sweep_fuel ?keep "nw_alias n" "[]"]
    by (auto simp: sweep_fuel_def)
  have "SweepStale remove known n
      = Some (if es = [] then Inr () else Inl (JoinedErrs es), n\<lparr>nw_alias := s\<rparr>)"
    by (simp add: SweepStale_def b l)
  moreover have "net_inv tracked (n\<lparr>nw_alias := s\<rparr>)"
    using assms f by (intro net_inv_alias) auto
  ultimately show ?thesis
    using f g hosts by (intro exI conjI) (auto split: if_splits)
qed

end

section \<open>The node's network with the lo0 manager\<close>

text \<open>
  The states a node's network can reach from \<^verbatim>\<open>New\<close>, for any \<^verbatim>\<open>ifconfig\<close> and any blackhole routes.
  Between two calls the kernel may change in any way (rule \<open>environment\<close>).
\<close>

inductive net_reach ::
  "'k ifconfig \<Rightarrow> 'k blackhole_op \<Rightarrow> 'k blackhole_op \<Rightarrow> prefix \<Rightarrow> (lo0AliasManager \<times> 'k) Network \<Rightarrow> bool"
  for ifc :: "'k ifconfig" and clear install :: "'k blackhole_op" and c :: prefix
where
  new: "podnet_New c (newLo0AliasManager (Masked c), k) cfg = Inr n \<Longrightarrow> net_reach ifc clear install c n"
| node_alias: "net_reach ifc clear install c n \<Longrightarrow>
    EnsureNodeAlias (lo0_Ensure ifc clear) ip n = (r1, n') \<Longrightarrow> net_reach ifc clear install c n'"
| setup_pod: "net_reach ifc clear install c n \<Longrightarrow>
    podnet_setup (lo0_Ensure ifc clear) pod b n = (r2, n') \<Longrightarrow> net_reach ifc clear install c n'"
| teardown: "net_reach ifc clear install c n \<Longrightarrow>
    Teardown (lo0_Remove ifc install) pod n = (r3, n') \<Longrightarrow> net_reach ifc clear install c n'"
| reattach: "net_reach ifc clear install c n \<Longrightarrow>
    reattach (lo0_Ensure ifc clear) pod ip b n = (r4, n') \<Longrightarrow> net_reach ifc clear install c n'"
| sweep: "net_reach ifc clear install c n \<Longrightarrow>
    SweepStale (lo0_Remove ifc install) known n = Some (r5, n') \<Longrightarrow> net_reach ifc clear install c n'"
| environment: "net_reach ifc clear install c n \<Longrightarrow> nw_alias n = (m, k) \<Longrightarrow>
    net_reach ifc clear install c (n\<lparr>nw_alias := (m, k')\<rparr>)"

lemma net_reach_inv: "net_reach ifc clear install c n \<Longrightarrow> net_inv lo0_tracked n"
proof (induction rule: net_reach.induct)
  case (new k cfg n)
  then show ?case by (rule podnet_New_inv)
next
  case (node_alias n ip r1 n')
  then show ?case using lo0.node_alias_inv by metis
next
  case (setup_pod n pod b r2 n')
  then show ?case using lo0.setup_spec by metis
next
  case (teardown n pod r3 n')
  then show ?case using lo0.teardown_spec by metis
next
  case (reattach n pod ip b r4 n')
  then show ?case using lo0.reattach_spec by metis
next
  case (sweep n known r5 n')
  then show ?case using lo0.sweep_spec [of n ifc install known] by force
next
  case (environment n m k k')
  then show ?case by (auto intro!: net_inv_alias simp: lo0_tracked_def)
qed

lemma net_reach_alloc: "net_reach ifc clear install c n \<Longrightarrow> \<exists>w. c = pfx4 w 24"
  by (induction rule: net_reach.induct)
    (auto simp: podnet_New_def dest!: NewAllocator_inv split: sum.splits)

section \<open>Properties\<close>

subsection \<open>A concrete node\<close>

text \<open>The node 100.64.1.0/24 on a kernel whose tables are empty.\<close>

definition demo_cidr :: prefix where
  "demo_cidr = pfx4 0x64400100 24"

definition demo_ensure ::
  "(lo0AliasManager \<times> (u32 \<Rightarrow> u32 option) \<times> addr set, alias_error) alias_op" where
  "demo_ensure = lo0_Ensure two_tables_ifc (Clear two_tables_write two_tables_exchange)"

definition demo_remove ::
  "(lo0AliasManager \<times> (u32 \<Rightarrow> u32 option) \<times> addr set, alias_error) alias_op" where
  "demo_remove = lo0_Remove two_tables_ifc (Install two_tables_write two_tables_exchange)"

definition demo_net :: "(lo0AliasManager \<times> (u32 \<Rightarrow> u32 option) \<times> addr set) Network" where
  "demo_net = projr (podnet_New demo_cidr (newLo0AliasManager (Masked demo_cidr), Map.empty, {})
     \<lparr>vm_NATSubnet = NoPrefix, vm_Gateway = NoAddr, vm_DNSVIP = NoAddr\<rparr>)"

lemma demo_reach:
  "net_reach two_tables_ifc (Clear two_tables_write two_tables_exchange)
     (Install two_tables_write two_tables_exchange) demo_cidr demo_net"
proof -
  have "\<exists>a. NewAllocator demo_cidr = Inr a"
    by (simp add: NewAllocator_def demo_cidr_def nodeCIDRBits_def Masked_pfx4 Let_def
        lastHostInSlash24_def withLastByte_def)
  then have "podnet_New demo_cidr (newLo0AliasManager (Masked demo_cidr), Map.empty, {})
     \<lparr>vm_NATSubnet = NoPrefix, vm_Gateway = NoAddr, vm_DNSVIP = NoAddr\<rparr> = Inr demo_net"
    unfolding demo_net_def by (auto simp: podnet_New_def)
  then show ?thesis by (rule net_reach.new)
qed

lemma demo_empty: "byPod demo_net pod = None" "inverse demo_net ip = None"
proof -
  have "\<exists>a. NewAllocator demo_cidr = Inr a"
    by (simp add: NewAllocator_def demo_cidr_def nodeCIDRBits_def Masked_pfx4 Let_def
        lastHostInSlash24_def withLastByte_def)
  then show "byPod demo_net pod = None" "inverse demo_net ip = None"
    unfolding demo_net_def by (auto simp: podnet_New_def)
qed

text \<open>
  C1. In every reachable state of the node's network the bookkeeping agrees: no two pods share an
  address, the allocator holds exactly the addresses of the bound pods, the reverse map is the
  inverse of the forward map, and the alias manager still tracks every bound address.
\<close>
theorem podnet_bookkeeping:
  assumes "net_reach ifc clear install c n"
  shows "(\<forall>p q d e. byPod n p = Some d \<and> byPod n q = Some e \<and> pe_ip d = pe_ip e \<longrightarrow> p = q)
    \<and> allocated (nw_alloc n) = {pe_ip e | p e. byPod n p = Some e}
    \<and> (\<forall>ip p. inverse n ip = Some p \<longleftrightarrow> network_IP n p = Some ip)
    \<and> (\<forall>p ip. network_IP n p = Some ip \<longrightarrow> lo0_tracked (nw_alias n) ip)"
proof -
  note inv = net_reach_inv [OF assms]
  have "inverse n ip = Some p \<longleftrightarrow> network_IP n p = Some ip" for ip p
    using net_invD(2,5) [OF inv] by (auto simp: network_IP_def)
  moreover have "ip \<in> allocated (nw_alloc n) \<longleftrightarrow> (\<exists>p. inverse n ip = Some p)" for ip
    using net_invD(6) [OF inv] by auto
  ultimately have "allocated (nw_alloc n) = {pe_ip e | p e. byPod n p = Some e}"
    and "\<forall>ip p. inverse n ip = Some p \<longleftrightarrow> network_IP n p = Some ip"
    by (auto simp: network_IP_def) blast+
  then show ?thesis
    using net_inv_ips_distinct [OF inv] net_invD(3) [OF inv] by (auto simp: network_IP_def)
qed

theorem podnet_bookkeeping_witness:
  "allocated (nw_alloc demo_net) = {}
     \<and> (\<forall>ip p. inverse demo_net ip = Some p \<longleftrightarrow> network_IP demo_net p = Some ip)"
  using podnet_bookkeeping [OF demo_reach] by (simp add: demo_empty)



text \<open>
  C7. Tearing a pod down either fails and keeps the pod bound with its address still allocated (so
  the address cannot be handed to another pod while its alias may be plumbed), or unbinds it,
  returns its address to the pool and leaves no alias tracked for it. Tearing down a pod that is
  not set up succeeds and changes nothing.
\<close>
theorem teardown_releases_or_keeps:
  assumes "net_reach ifc clear install c n"
    and "Teardown (lo0_Remove ifc install) pod n = (r, n')"
  shows "case r of
       Inl e \<Rightarrow> byPod n' = byPod n \<and> inverse n' = inverse n
         \<and> allocated (nw_alloc n') = allocated (nw_alloc n)
     | Inr u \<Rightarrow> byPod n' = (byPod n)(pod := None)
         \<and> (case byPod n pod of
              None \<Rightarrow> n' = n
            | Some e \<Rightarrow> \<not> lo0_tracked (nw_alias n') (pe_ip e) \<and> inverse n' (pe_ip e) = None
                \<and> allocated (nw_alloc n') = allocated (nw_alloc n) - {pe_ip e})"
  using lo0.teardown_spec [OF net_reach_inv [OF assms(1)] assms(2)] by blast

theorem teardown_releases_or_keeps_witness:
  "\<exists>r n'. Teardown demo_remove ''web'' demo_net = (r, n') \<and> byPod n' ''web'' = None"
proof -
  obtain r n' where s: "Teardown demo_remove ''web'' demo_net = (r, n')"
    by (cases "Teardown demo_remove ''web'' demo_net")
  from teardown_releases_or_keeps [OF demo_reach s [unfolded demo_remove_def]] s
  show ?thesis by (cases r) (auto simp: demo_empty)
qed

text \<open>
  C10. Reattaching a pod to a given address never takes the address from another pod: on success the
  address was free or already this pod's, the pod is bound to exactly it and no other pod's binding
  changed; on failure no binding changed and no address stays reserved.
\<close>
theorem reattach_no_steal:
  assumes "net_reach ifc clear install c n"
    and "reattach (lo0_Ensure ifc clear) pod ip b n = (r, n')"
  shows "case r of
       Inl e \<Rightarrow> byPod n' = byPod n \<and> inverse n' = inverse n
         \<and> allocated (nw_alloc n') = allocated (nw_alloc n)
     | Inr u \<Rightarrow> lo0_live (nw_alias n') ip \<and> network_IP n' pod = Some ip
         \<and> allocated (nw_alloc n') = insert ip (allocated (nw_alloc n))
         \<and> (\<forall>q. q \<noteq> pod \<longrightarrow> byPod n' q = byPod n q)
         \<and> (inverse n ip = None \<or> inverse n ip = Some pod)"
  using lo0.reattach_spec [OF net_reach_inv [OF assms(1)] assms(2)] by blast

theorem reattach_no_steal_witness:
  "\<exists>r n'. reattach demo_ensure ''web'' (IPv4 0x64400107) BackendHostProcess demo_net = (r, n') \<and>
     (case r of Inl e \<Rightarrow> byPod n' ''web'' = None
      | Inr u \<Rightarrow> network_IP n' ''web'' = Some (IPv4 0x64400107))"
proof -
  obtain r n' where s: "reattach demo_ensure ''web'' (IPv4 0x64400107) BackendHostProcess demo_net = (r, n')"
    by (cases "reattach demo_ensure ''web'' (IPv4 0x64400107) BackendHostProcess demo_net")
  from reattach_no_steal [OF demo_reach s [unfolded demo_ensure_def]] s
  show ?thesis by (cases r) (auto simp: demo_empty)
qed



end
