(* ===== verification/PodEnv.thy ===== *)
theory PodEnv
  imports Netip
begin

text \<open>
  The environment variables of the bind discipline (\<^verbatim>\<open>pkg/podnet/env.go\<close>): the pod address and the
  cluster and interconnect prefixes passed to the bind shim. A nil map is \<^term>\<open>None\<close>.
\<close>

section \<open>Definitions\<close>

definition EnvPodIP :: string where "EnvPodIP = ''K3SM_POD_IP''"
definition EnvClusterCIDRs :: string where "EnvClusterCIDRs = ''K3SM_CLUSTER_CIDRS''"
definition EnvInterconnectIP :: string where "EnvInterconnectIP = ''K3SM_INTERCONNECT_IP''"
definition EnvInterconnectCIDRs :: string where "EnvInterconnectCIDRs = ''K3SM_INTERCONNECT_CIDRS''"

definition MaxClusterCIDRs :: nat where
  "MaxClusterCIDRs = 8"

definition interconnectRange :: prefix where
  "interconnectRange = pfx4 0xA9FE0000 16"

text \<open>\<^verbatim>\<open>Prefix.String\<close> on the IPv4 prefixes these functions print.\<close>

fun prefix_string4 :: "prefix \<Rightarrow> string" where
  "prefix_string4 p =
     (case p_ip p of IPv4 w \<Rightarrow> string4 w @ ''/'' @ Itoa (nat (Bits p)) | _ \<Rightarrow> ''invalid Prefix'')"

definition usable4 :: "addr \<Rightarrow> bool" where
  "usable4 ip \<longleftrightarrow> IsValid ip \<and> Is4 ip \<and> \<not> IsUnspecified ip"

fun addr_string4 :: "addr \<Rightarrow> string" where
  "addr_string4 (IPv4 w) = string4 w"
| "addr_string4 _ = ''invalid IP''"

definition BindDisciplineEnv :: "addr \<Rightarrow> (string \<Rightarrow> string option) option" where
  "BindDisciplineEnv podIP =
     (let ip = Unmap podIP in
      if \<not> usable4 ip then None else Some [EnvPodIP \<mapsto> addr_string4 ip])"

text \<open>A prefix re-keyed to its IPv4 form, when it has one.\<close>

definition as_v4 :: "prefix \<Rightarrow> prefix" where
  "as_v4 p = PrefixFrom (Unmap (p_ip p)) (Bits p)"

fun cidr_loop :: "prefix list \<Rightarrow> string set \<Rightarrow> string list" where
  "cidr_loop [] seen = []"
| "cidr_loop (p # ps) seen =
     (if \<not> prefix_IsValid p then cidr_loop ps seen
      else let q = as_v4 p in
        if \<not> prefix_IsValid q \<or> \<not> Is4 (p_ip q) \<or> Bits q < 1 then cidr_loop ps seen
        else let m = prefix_string4 (Masked q) in
          if m \<in> seen then cidr_loop ps seen else m # cidr_loop ps (insert m seen))"

definition BindDisciplineEnvWithCIDRs :: "addr \<Rightarrow> prefix list \<Rightarrow> (string \<Rightarrow> string option) option" where
  "BindDisciplineEnvWithCIDRs podIP cidrs =
     (case BindDisciplineEnv podIP of
        None \<Rightarrow> None
      | Some env \<Rightarrow>
          let out = cidr_loop cidrs {} in
          if out = [] \<or> MaxClusterCIDRs < length out then Some env
          else Some (env(EnvClusterCIDRs \<mapsto> Join out '','')))"

definition lastAddr :: "prefix \<Rightarrow> addr option" where
  "lastAddr p =
     (case As4 (p_ip (Masked p)) of
        None \<Rightarrow> None
      | Some b \<Rightarrow> Some (AddrFrom4 (bytes4 (be32 b OR drop_bit (nat (Bits p)) (- 1)))))"

text \<open>The loop of \<^verbatim>\<open>InterconnectEnv\<close>: the prefixes kept so far, and whether the address is inside one
  of them or is the first or last address of one that has such addresses.\<close>

fun interconnect_loop ::
  "addr \<Rightarrow> prefix list \<Rightarrow> prefix list \<Rightarrow> bool \<Rightarrow> bool \<Rightarrow> prefix list \<times> bool \<times> bool" where
  "interconnect_loop ip [] out inScope edge = (out, inScope, edge)"
| "interconnect_loop ip (p # ps) out inScope edge =
     (if \<not> prefix_IsValid p then interconnect_loop ip ps out inScope edge
      else let q = as_v4 p in
        if \<not> prefix_IsValid q \<or> \<not> Is4 (p_ip q) then interconnect_loop ip ps out inScope edge
        else let m = Masked q in
          if Bits m < Bits interconnectRange \<or> \<not> prefix_Contains interconnectRange (p_ip m)
          then interconnect_loop ip ps out inScope edge
          else if m \<in> set out then interconnect_loop ip ps out inScope edge
          else if prefix_Contains m ip then
            interconnect_loop ip ps (out @ [m]) True
              (edge \<or> Bits m \<le> 30 \<and> (ip = p_ip m \<or> Some ip = lastAddr m))
          else interconnect_loop ip ps (out @ [m]) inScope edge)"

definition InterconnectEnv :: "addr \<Rightarrow> prefix list \<Rightarrow> (string \<Rightarrow> string option) option" where
  "InterconnectEnv ip0 cidrs =
     (let ip = Unmap ip0 in
      if \<not> usable4 ip then None
      else let (out, inScope, edge) = interconnect_loop ip cidrs [] False False in
        if out = [] \<or> MaxClusterCIDRs < length out \<or> \<not> inScope \<or> edge then None
        else Some [EnvInterconnectIP \<mapsto> addr_string4 ip,
                   EnvInterconnectCIDRs \<mapsto> Join (map prefix_string4 out) '',''])"

section \<open>Lemmas\<close>

definition edge_of :: "addr \<Rightarrow> prefix \<Rightarrow> bool" where
  "edge_of ip m \<longleftrightarrow> prefix_Contains m ip \<and> Bits m \<le> 30 \<and> (ip = p_ip m \<or> Some ip = lastAddr m)"

definition ic_inv :: "addr \<Rightarrow> prefix list \<times> bool \<times> bool \<Rightarrow> bool" where
  "ic_inv ip r =
     (let (out, sc, ed) = r in
      distinct out
      \<and> (\<forall>m \<in> set out. 16 \<le> Bits m \<and> Is4 (p_ip m) \<and> prefix_Contains interconnectRange (p_ip m))
      \<and> sc = (\<exists>m \<in> set out. prefix_Contains m ip) \<and> ed = (\<exists>m \<in> set out. edge_of ip m))"

lemma ic_inv_extend:
  assumes "ic_inv ip (out, sc, ed)" and "m \<notin> set out" and "16 \<le> Bits m"
    and "prefix_Contains interconnectRange (p_ip m)"
  shows "ic_inv ip (out @ [m], sc \<or> prefix_Contains m ip, ed \<or> edge_of ip m)"
proof -
  have "Is4 (p_ip m)"
    using assms(4) by (cases "p_ip m") (auto simp: interconnectRange_def prefix_Contains_def)
  with assms show ?thesis by (auto simp: ic_inv_def)
qed

lemma interconnect_loop_inv:
  "ic_inv ip (out, sc, ed) \<Longrightarrow> ic_inv ip (interconnect_loop ip ps out sc ed)"
proof (induction ps arbitrary: out sc ed)
  case Nil
  then show ?case by simp
next
  case (Cons p ps)
  define m where "m = Masked (as_v4 p)"
  have range: "Bits interconnectRange = 16" by (simp add: interconnectRange_def)
  show ?case
  proof (cases "m \<notin> set out \<and> 16 \<le> Bits m \<and> prefix_Contains interconnectRange (p_ip m)")
    case True
    note ext = ic_inv_extend [OF Cons.prems, of m]
    show ?thesis
    proof (cases "prefix_Contains m ip")
      case in_m: True
      then have "edge_of ip m \<longleftrightarrow> Bits m \<le> 30 \<and> (ip = p_ip m \<or> Some ip = lastAddr m)"
        by (simp add: edge_of_def)
      with in_m show ?thesis
        using Cons.IH [OF Cons.prems] Cons.IH [OF ext] True
        by (simp add: Let_def range m_def [symmetric])
    next
      case False
      then have "\<not> edge_of ip m" by (simp add: edge_of_def)
      with False show ?thesis
        using Cons.IH [OF Cons.prems] Cons.IH [OF ext] True
        by (simp add: Let_def range m_def [symmetric])
    qed
  next
    case False
    then show ?thesis
      using Cons.IH [OF Cons.prems] by (auto simp: Let_def range m_def [symmetric])
  qed
qed

text \<open>
  The interconnect environment is produced only for an address that can be bound there: when
  \<^verbatim>\<open>InterconnectEnv\<close> returns variables, the address lies in one of the at most eight distinct
  prefixes it prints, every one of them lies inside 169.254.0.0/16, and the address is not the
  network or last address of a printed prefix of 30 bits or fewer.
\<close>
theorem interconnect_env_sound:
  assumes "InterconnectEnv ip cidrs = Some env"
  shows "\<exists>out. env EnvInterconnectCIDRs = Some (Join (map prefix_string4 out) '','')
    \<and> env EnvInterconnectIP = Some (addr_string4 (Unmap ip))
    \<and> distinct out \<and> length out \<le> 8
    \<and> (\<forall>m \<in> set out. 16 \<le> Bits m \<and> prefix_Contains interconnectRange (p_ip m))
    \<and> (\<exists>m \<in> set out. prefix_Contains m (Unmap ip))
    \<and> (\<forall>m \<in> set out. Bits m \<le> 30 \<and> prefix_Contains m (Unmap ip) \<longrightarrow>
         Unmap ip \<noteq> p_ip m \<and> lastAddr m \<noteq> Some (Unmap ip))"
proof -
  obtain out sc ed where l: "interconnect_loop (Unmap ip) cidrs [] False False = (out, sc, ed)"
    by (cases "interconnect_loop (Unmap ip) cidrs [] False False") auto
  have "ic_inv (Unmap ip) (out, sc, ed)"
    using interconnect_loop_inv [of "Unmap ip" "[]" False False cidrs] l by (simp add: ic_inv_def)
  moreover have "length out \<le> 8" "sc" "\<not> ed"
    "env = [EnvInterconnectIP \<mapsto> addr_string4 (Unmap ip),
            EnvInterconnectCIDRs \<mapsto> Join (map prefix_string4 out) '','']"
    using assms l by (auto simp: InterconnectEnv_def MaxClusterCIDRs_def Let_def split: if_splits)
  ultimately show ?thesis
    by (intro exI [of _ out])
      (auto simp: ic_inv_def edge_of_def EnvInterconnectIP_def EnvInterconnectCIDRs_def)
qed

theorem interconnect_env_sound_witness:
  "\<exists>env. InterconnectEnv (IPv4 0xA9FE0A02) [pfx4 0xA9FE0A00 30] = Some env
     \<and> env EnvInterconnectIP = Some (string4 0xA9FE0A02)"
proof -
  have "\<exists>env. InterconnectEnv (IPv4 0xA9FE0A02) [pfx4 0xA9FE0A00 30] = Some env"
    by (simp add: InterconnectEnv_def usable4_def IsUnspecified_def as_v4_def Masked_pfx4 Let_def
        interconnectRange_def contains_pfx4 prefix_Contains_def lastAddr_def AddrFrom4_def
        MaxClusterCIDRs_def mask_eq_exp_minus_1)
  then obtain env where "InterconnectEnv (IPv4 0xA9FE0A02) [pfx4 0xA9FE0A00 30] = Some env" ..
  with interconnect_env_sound [OF this] show ?thesis by auto
qed

end
