(* ===== verification/DNSNames.thy ===== *)
theory DNSNames
  imports Netip
begin

text \<open>
  The names of the cluster DNS (the name functions of \<^verbatim>\<open>pkg/dns/synth.go\<close>, and \<^verbatim>\<open>partial.go\<close>,
  \<^verbatim>\<open>flatregistry.go\<close>): RFC 1123 labels, the cluster domain, pod names with dashed addresses, reverse
  names, the completion of partial names and the flat registry names. \<open>ul\<close> is the Unicode part of
  \<^verbatim>\<open>strings.ToLower\<close>; the table of IANA top-level domains (generated data) is the argument \<open>tlds\<close>.
\<close>

section \<open>Labels and domains\<close>

fun label_loop :: "string \<Rightarrow> bool \<Rightarrow> bool" where
  "label_loop [] first = True"
| "label_loop (c # cs) first =
     (if is_lower c \<or> is_digit c then label_loop cs False
      else if c = CHR ''-'' then if first \<or> cs = [] then False else label_loop cs False
      else False)"

definition isDNSLabel :: "string \<Rightarrow> bool" where
  "isDNSLabel s \<longleftrightarrow> s \<noteq> [] \<and> length s \<le> 63 \<and> label_loop s True"

definition normalizeDomain :: "(string \<Rightarrow> string) \<Rightarrow> string \<Rightarrow> string option" where
  "normalizeDomain ul clusterDomain =
     (let d = ToLower ul (TrimSuffix clusterDomain ''.'') in
      if d = [] then None
      else if list_all isDNSLabel (Split CHR ''.'' d) then Some d else None)"

section \<open>Pod names and reverse names\<close>

definition dashedIP :: "u32 \<Rightarrow> string" where
  "dashedIP w = Join (map (\<lambda>b. Itoa (unat b)) (bytes4 w)) ''-''"

definition ReverseName :: "addr \<Rightarrow> string option" where
  "ReverseName ip =
     (case ip of
        IPv4 w \<Rightarrow> Some (Join (map (\<lambda>b. Itoa (unat b)) (rev (bytes4 w))) ''.'' @ ''.in-addr.arpa'')
      | _ \<Rightarrow> None)"

definition PodDNSName :: "(string \<Rightarrow> string) \<Rightarrow> addr \<Rightarrow> string \<Rightarrow> string \<Rightarrow> string option" where
  "PodDNSName ul ip namespace clusterDomain =
     (case normalizeDomain ul clusterDomain of
        None \<Rightarrow> None
      | Some domain \<Rightarrow>
          let ns = ToLower ul namespace in
          if \<not> isDNSLabel ns then None
          else case ip of
            IPv4 w \<Rightarrow> Some (dashedIP w @ ''.'' @ ns @ ''.pod.'' @ domain)
          | _ \<Rightarrow> None)"

definition PodAddrFromName ::
  "(string \<Rightarrow> string) \<Rightarrow> string \<Rightarrow> string \<Rightarrow> (addr \<times> string) option" where
  "PodAddrFromName ul name clusterDomain =
     (case normalizeDomain ul clusterDomain of
        None \<Rightarrow> None
      | Some domain \<Rightarrow>
          let q = ToLower ul (TrimSuffix name ''.''); suffix = ''.pod.'' @ domain in
          (case CutSuffix q suffix of
             None \<Rightarrow> None
           | Some rest \<Rightarrow>
               (case Cut CHR ''.'' rest of
                  None \<Rightarrow> None
                | Some (dashed, ns) \<Rightarrow>
                    if dashed = [] \<or> ns = [] \<or> CHR ''.'' \<in> set ns then None
                    else if \<not> isDNSLabel ns then None
                    else if count_list dashed CHR ''-'' \<noteq> 3 then None
                    else case ParseAddr (map (\<lambda>c. if c = CHR ''-'' then CHR ''.'' else c) dashed) of
                      None \<Rightarrow> None
                    | Some ip \<Rightarrow> if \<not> Is4 ip then None else Some (ip, ns))))"

section \<open>Partial names\<close>

datatype Verdict = Passthrough | Completed | Refused | Forward

definition svcLabel :: string where
  "svcLabel = ''svc''"

definition specialUseSuffixes :: "string list" where
  "specialUseSuffixes =
     [''alt'', ''arpa'', ''corp'', ''example'', ''home'', ''internal'', ''intranet'', ''invalid'',
      ''lan'', ''local'', ''localdomain'', ''localhost'', ''onion'', ''private'', ''test'']"

definition IsReservedSuffix :: "(string \<Rightarrow> string) \<Rightarrow> (string \<Rightarrow> bool) \<Rightarrow> string \<Rightarrow> bool" where
  "IsReservedSuffix ul tlds label =
     (let l = ToLower ul (TrimSuffix label ''.'') in l \<in> set specialUseSuffixes \<or> tlds l)"

text \<open>\<^verbatim>\<open>optedIn\<close> is an optional callback (it may be nil).\<close>

definition CompletePartialName ::
  "(string \<Rightarrow> string) \<Rightarrow> (string \<Rightarrow> bool) \<Rightarrow> string \<Rightarrow> string \<Rightarrow> (string \<Rightarrow> bool) option \<Rightarrow> string \<times> Verdict"
where
  "CompletePartialName ul tlds qname clusterDomain optedIn =
     (if HasSuffix qname ''.'' then (qname, Passthrough)
      else case normalizeDomain ul clusterDomain of
        None \<Rightarrow> (qname, Passthrough)
      | Some domain \<Rightarrow>
          let name = ToLower ul qname in
          if name = domain \<or> HasSuffix name (''.'' @ domain) then (qname, Passthrough)
          else let labels = Split CHR ''.'' name; valid = list_all isDNSLabel labels in
            if last labels = svcLabel then
              if valid \<and> length labels = 3 then (name @ ''.'' @ domain, Completed)
              else (qname, Refused)
            else if valid \<and> length labels = 2 then
              let ns = labels ! 1 in
              (case optedIn of
                 Some f \<Rightarrow>
                   if \<not> IsReservedSuffix ul tlds ns \<and> f ns
                   then (name @ ''.'' @ svcLabel @ ''.'' @ domain, Completed) else (qname, Forward)
               | None \<Rightarrow> (qname, Forward))
            else (qname, Forward))"

section \<open>The flat registry name\<close>

definition RegistryServiceName :: string where
  "RegistryServiceName = ''registry-k3sm''"

definition RegistryServiceNamespace :: string where
  "RegistryServiceNamespace = ''k3sm-registry''"

definition isFlatRegistryName :: "(string \<Rightarrow> string) \<Rightarrow> string \<Rightarrow> string \<Rightarrow> bool" where
  "isFlatRegistryName ul qname clusterDomain =
     (case normalizeDomain ul clusterDomain of
        None \<Rightarrow> False
      | Some domain \<Rightarrow>
          let name = ToLower ul (TrimSuffix qname ''.'') in
          if name = RegistryServiceName then True
          else (case CutPrefix name (RegistryServiceName @ ''.'') of
                  None \<Rightarrow> False
                | Some rest \<Rightarrow>
                    if rest = domain \<or> rest = svcLabel @ ''.'' @ domain then True
                    else (case CutSuffix rest (''.'' @ svcLabel @ ''.'' @ domain) of
                            None \<Rightarrow> False
                          | Some ns \<Rightarrow> ns \<noteq> RegistryServiceNamespace \<and> isDNSLabel ns)))"

text \<open>\<^verbatim>\<open>is_A\<close> says that the question is for an A record; \<^verbatim>\<open>lookup\<close> may be nil.\<close>

definition ResolveFlatRegistryName ::
  "(string \<Rightarrow> string) \<Rightarrow> bool \<Rightarrow> string \<Rightarrow> string \<Rightarrow> (string \<Rightarrow> string \<Rightarrow> addr option) option
     \<Rightarrow> addr list \<times> bool" where
  "ResolveFlatRegistryName ul is_A qname clusterDomain lookup =
     (case lookup of
        None \<Rightarrow> ([], False)
      | Some f \<Rightarrow>
          if \<not> isFlatRegistryName ul qname clusterDomain then ([], False)
          else case f RegistryServiceNamespace RegistryServiceName of
            None \<Rightarrow> ([], False)
          | Some ip \<Rightarrow>
              if \<not> Is4 ip \<and> \<not> Is4In6 ip then ([], False)
              else if \<not> is_A then ([], True)
              else ([Unmap ip], True))"

section \<open>Lemmas on labels\<close>

definition label_char :: "char \<Rightarrow> bool" where
  "label_char c \<longleftrightarrow> is_lower c \<or> is_digit c \<or> c = CHR ''-''"

lemma label_loop_chars: "label_loop s first \<Longrightarrow> list_all label_char s"
  by (induction s arbitrary: first) (auto simp: label_char_def split: if_splits)

lemma label_loop_last: "label_loop s first \<Longrightarrow> s \<noteq> [] \<Longrightarrow> last s \<noteq> CHR ''-''"
  by (induction s arbitrary: first) (auto simp: is_lower_def is_digit_def split: if_splits)

lemma label_char_simps:
  "label_char c \<Longrightarrow> is_ascii c" "label_char c \<Longrightarrow> \<not> is_upper c" "label_char c \<Longrightarrow> c \<noteq> CHR ''.''"
  by (auto simp: label_char_def is_ascii_def is_upper_def is_lower_def is_digit_def)

lemma isDNSLabel_chars: "isDNSLabel s \<Longrightarrow> list_all label_char s"
  by (auto simp: isDNSLabel_def dest: label_loop_chars)

lemma isDNSLabel_dot_free: "isDNSLabel s \<Longrightarrow> CHR ''.'' \<notin> set s"
  using isDNSLabel_chars [of s] label_char_simps(3) by (auto simp: list_all_iff)

definition name_char :: "char \<Rightarrow> bool" where
  "name_char c \<longleftrightarrow> label_char c \<or> c = CHR ''.''"

lemma label_char_name: "label_char c \<Longrightarrow> name_char c"
  by (simp add: name_char_def)

lemma ToLower_name:
  assumes "list_all name_char s"
  shows "ToLower ul s = s"
proof (rule ToLower_fixed)
  show "list_all is_ascii s" "list_all (\<lambda>c. \<not> is_upper c) s"
    using assms label_char_simps(1,2) by (auto simp: list_all_iff name_char_def is_ascii_def is_upper_def)
qed

lemma Join_name_chars:
  "(\<forall>w \<in> set ws. list_all label_char w) \<Longrightarrow> list_all name_char (Join ws ''.'')"
  by (induction ws rule: induct_list012) (auto simp: list_all_iff name_char_def)

lemma normalizeDomain_SomeD:
  assumes "normalizeDomain ul c = Some d"
  shows "list_all name_char d" "d \<noteq> []" "list_all isDNSLabel (Split CHR ''.'' d)"
    "\<not> HasSuffix d ''.''"
proof -
  show ne: "d \<noteq> []" and l: "list_all isDNSLabel (Split CHR ''.'' d)"
    using assms by (auto simp: normalizeDomain_def Let_def split: if_splits)
  have "list_all name_char (Join (Split CHR ''.'' d) ''.'')"
    using l isDNSLabel_chars by (intro Join_name_chars) (auto simp: list_all_iff)
  then show "list_all name_char d" by (simp add: Join_Split)
  show "\<not> HasSuffix d ''.''"
  proof
    assume "HasSuffix d ''.''"
    then obtain t where "d = t @ [CHR ''.'']" by (auto simp: HasSuffix_iff)
    with l show False by (simp add: Split_snoc isDNSLabel_def)
  qed
qed

lemma normalizeDomain_fixed:
  "normalizeDomain ul c = Some d \<Longrightarrow> normalizeDomain ul d = Some d"
  using normalizeDomain_SomeD [of ul c d]
  by (simp add: normalizeDomain_def Let_def TrimSuffix_id ToLower_name)

section \<open>Dashed addresses\<close>

definition undash :: "char \<Rightarrow> char" where
  "undash c = (if c = CHR ''-'' then CHR ''.'' else c)"

definition redash :: "char \<Rightarrow> char" where
  "redash c = (if c = CHR ''.'' then CHR ''-'' else c)"

lemma dashedIP_eq:
  "dashedIP w =
     Itoa (unat (bytes4 w ! 0)) @ ''-'' @ Itoa (unat (bytes4 w ! 1)) @ ''-'' @
     Itoa (unat (bytes4 w ! 2)) @ ''-'' @ Itoa (unat (bytes4 w ! 3))"
  by (simp add: dashedIP_def bytes4_def)

lemma map_undash_digits: "map undash (Itoa n) = Itoa n" "map redash (Itoa n) = Itoa n"
proof -
  have "undash c = c \<and> redash c = c" if "c \<in> set (Itoa n)" for c
    using that by (auto simp: undash_def redash_def)
  then show "map undash (Itoa n) = Itoa n" "map redash (Itoa n) = Itoa n"
    by (simp_all add: map_idI)
qed

lemma undash_dashedIP: "map undash (dashedIP w) = string4 w"
  by (simp add: dashedIP_eq string4_eq map_undash_digits) (simp add: undash_def)

lemma redash_string4: "map redash (string4 w) = dashedIP w"
  by (simp add: dashedIP_eq string4_eq map_undash_digits) (simp add: redash_def)

lemma count_dashes: "count_list (dashedIP w) CHR ''-'' = 3"
proof -
  have "count_list (Itoa n) CHR ''-'' = 0" for n
    by (simp add: count_list_0_iff)
  then show ?thesis by (simp add: dashedIP_eq count_list_append)
qed

lemma dashedIP_chars: "list_all label_char (dashedIP w)" "dashedIP w \<noteq> []"
proof -
  have "list_all label_char (Itoa n)" for n
    using Itoa_digitD [of _ n] by (auto simp: list_all_iff label_char_def)
  then show "list_all label_char (dashedIP w)" by (simp add: dashedIP_eq label_char_def)
  show "dashedIP w \<noteq> []" by (simp add: dashedIP_eq)
qed

lemma dashedIP_dot_free: "CHR ''.'' \<notin> set (dashedIP w)"
  using dashedIP_chars(1) [of w] label_char_simps(3) by (auto simp: list_all_iff)

lemma redash_undash: "CHR ''.'' \<notin> set s \<Longrightarrow> map redash (map undash s) = s"
  by (induction s) (auto simp: redash_def undash_def)

lemma list_all_name_label: "list_all label_char s \<Longrightarrow> list_all name_char s"
  by (auto simp: list_all_iff name_char_def)

lemma pod_name_parses:
  assumes "PodDNSName ul ip ns c = Some name"
  shows "PodAddrFromName ul name c = Some (ip, ToLower ul ns)"
proof -
  obtain d w where d: "normalizeDomain ul c = Some d" and w: "ip = IPv4 w"
    and l: "isDNSLabel (ToLower ul ns)"
    and name: "name = dashedIP w @ ''.'' @ ToLower ul ns @ ''.pod.'' @ d"
    using assms by (auto simp: PodDNSName_def Let_def split: option.splits if_splits addr.splits)
  note dom = normalizeDomain_SomeD [OF d]
  have "list_all name_char name"
    using dom(1) isDNSLabel_chars [OF l] dashedIP_chars(1) [of w]
    by (simp add: name list_all_name_label) (simp add: name_char_def label_char_def is_lower_def)
  then have low: "ToLower ul name = name" by (rule ToLower_name)
  have trim: "TrimSuffix name ''.'' = name"
    using dom(2,4) by (intro TrimSuffix_id) (simp add: name HasSuffix_single)
  have cut: "CutSuffix name (''.pod.'' @ d) = Some (dashedIP w @ CHR ''.'' # ToLower ul ns)"
    by (simp add: CutSuffix_Some_iff name)
  have ns: "ToLower ul ns \<noteq> []" "CHR ''.'' \<notin> set (ToLower ul ns)"
    using l isDNSLabel_dot_free by (auto simp: isDNSLabel_def)
  have "map (\<lambda>c. if c = CHR ''-'' then CHR ''.'' else c) (dashedIP w) = string4 w"
    using undash_dashedIP [of w] by (simp add: undash_def [abs_def])
  then show ?thesis
    unfolding PodAddrFromName_def d option.case Let_def trim low cut
    using l ns by (simp add: dashedIP_dot_free dashedIP_chars(2) count_dashes w)
qed

lemma pod_name_canonical:
  assumes "PodAddrFromName ul name c = Some (ip, ns)"
  shows "PodDNSName ul ip ns c = Some (ToLower ul (TrimSuffix name ''.''))"
proof -
  obtain d rest dashed where d: "normalizeDomain ul c = Some d"
    and q: "CutSuffix (ToLower ul (TrimSuffix name ''.'')) (''.pod.'' @ d) = Some rest"
    and cut: "Cut CHR ''.'' rest = Some (dashed, ns)"
    and l: "isDNSLabel ns" and p: "ParseAddr (map undash dashed) = Some ip" and v4: "Is4 ip"
    using assms
    by (auto simp: PodAddrFromName_def Let_def undash_def [abs_def]
        split: option.splits if_splits prod.splits)
  from v4 obtain w where w: "ip = IPv4 w" by (auto simp: Is4_iff)
  have df: "rest = dashed @ CHR ''.'' # ns" "CHR ''.'' \<notin> set dashed"
    using Cut_SomeD [OF cut] by auto
  have "map undash dashed = string4 w" using ParseAddr_Is4D p w by simp
  then have "dashed = dashedIP w"
    using redash_string4 [of w] redash_undash [OF df(2)] by simp
  moreover have "ToLower ul ns = ns"
    using isDNSLabel_chars [OF l] by (intro ToLower_name list_all_name_label)
  moreover have "ToLower ul (TrimSuffix name ''.'') = rest @ ''.pod.'' @ d"
    using q by (simp add: CutSuffix_Some_iff)
  ultimately show ?thesis
    using l d w df(1) by (simp add: PodDNSName_def)
qed

text \<open>
  C17. Pod names and pod addresses are in bijection: the name printed for an address and a namespace
  parses back to exactly them, and whatever name parses, the name printed for the result is that
  name in lower case without its trailing dot (so an address has one spelling only).
\<close>
theorem pod_name_roundtrip:
  "(PodDNSName ul ip ns c = Some name \<longrightarrow> PodAddrFromName ul name c = Some (ip, ToLower ul ns)) \<and>
   (PodAddrFromName ul name c = Some (ip, ns) \<longrightarrow>
      PodDNSName ul ip ns c = Some (ToLower ul (TrimSuffix name ''.'')))"
  using pod_name_parses pod_name_canonical by blast

theorem pod_name_roundtrip_witness:
  "PodAddrFromName id ''10-42-0-7.default.pod.cluster.local'' ''cluster.local.''
     = Some (IPv4 0x0A2A0007, ''default'')"
proof -
  have "PodDNSName id (IPv4 0x0A2A0007) ''default'' ''cluster.local.''
      = Some ''10-42-0-7.default.pod.cluster.local''"
    by (simp add: PodDNSName_def normalizeDomain_def TrimSuffix_def HasSuffix_def ToLower_def
        is_ascii_def lower_char_def is_upper_def isDNSLabel_def is_lower_def is_digit_def Let_def
        dashedIP_def bytes4_def Itoa_1 Itoa_2 digit_char_def char_of_def bit_0)
  moreover have "ToLower id ''default'' = ''default''"
    by (simp add: ToLower_def is_ascii_def lower_char_def is_upper_def)
  ultimately show ?thesis
    using pod_name_roundtrip [of id "IPv4 0x0A2A0007" "''default''" "''cluster.local.''"
        "''10-42-0-7.default.pod.cluster.local''"] by simp
qed

section \<open>Completion\<close>

lemma labels_name_chars:
  assumes "list_all isDNSLabel (Split CHR ''.'' n)"
  shows "list_all name_char n"
proof -
  have "list_all name_char (Join (Split CHR ''.'' n) ''.'')"
    using assms isDNSLabel_chars by (intro Join_name_chars) (auto simp: list_all_iff)
  then show ?thesis by (simp add: Join_Split)
qed

lemma completed_passes_through:
  assumes "normalizeDomain ul c = Some d" and "list_all name_char n"
  shows "CompletePartialName ul tlds (n @ ''.'' @ d) c opt = (n @ ''.'' @ d, Passthrough)"
proof -
  note dom = normalizeDomain_SomeD [OF assms(1)]
  have "ToLower ul (n @ ''.'' @ d) = n @ ''.'' @ d"
    using assms(2) dom(1) by (intro ToLower_name) (simp add: name_char_def)
  then have "HasSuffix (ToLower ul (n @ ''.'' @ d)) (''.'' @ d)" by simp
  moreover have "\<not> HasSuffix (n @ ''.'' @ d) ''.''"
    using dom(2,4) by (simp add: HasSuffix_single)
  ultimately show ?thesis
    unfolding CompletePartialName_def assms(1) option.case Let_def by simp
qed

text \<open>
  C36. A query name is rewritten only when the verdict is \<^verbatim>\<open>Completed\<close>. Then it consists of valid
  labels and is either \<^verbatim>\<open>name.namespace.svc\<close>, to which the cluster domain is appended, or
  \<^verbatim>\<open>name.namespace\<close> with a namespace that opted in and is not a reserved suffix, to which
  \<^verbatim>\<open>svc\<close> and the cluster domain are appended. A completed name is never completed again.
\<close>
theorem partial_name_completion:
  assumes "CompletePartialName ul tlds q c opt = (q', v)"
  shows "if v \<noteq> Completed then q' = q
    else \<exists>d. normalizeDomain ul c = Some d \<and>
      (let n = ToLower ul q; ls = Split CHR ''.'' n in
       list_all isDNSLabel ls \<and>
       (length ls = 3 \<and> ls ! 2 = svcLabel \<and> q' = n @ ''.'' @ d \<or>
        length ls = 2 \<and> ls ! 1 \<noteq> svcLabel \<and> \<not> IsReservedSuffix ul tlds (ls ! 1)
          \<and> (\<exists>f. opt = Some f \<and> f (ls ! 1)) \<and> q' = n @ ''.'' @ svcLabel @ ''.'' @ d))
      \<and> CompletePartialName ul tlds q' c opt' = (q', Passthrough)"
proof (cases "v = Completed")
  case False
  then show ?thesis
    using assms
    by (auto simp: CompletePartialName_def Let_def split: if_splits option.splits)
next
  case True
  define n where "n = ToLower ul q"
  define ls where "ls = Split CHR ''.'' n"
  have "ls \<noteq> []" by (simp add: ls_def)
  obtain d where d: "normalizeDomain ul c = Some d" and valid: "list_all isDNSLabel ls"
    and shape: "length ls = 3 \<and> last ls = svcLabel \<and> q' = n @ ''.'' @ d \<or>
        length ls = 2 \<and> last ls \<noteq> svcLabel \<and> \<not> IsReservedSuffix ul tlds (ls ! 1)
          \<and> (\<exists>f. opt = Some f \<and> f (ls ! 1)) \<and> q' = n @ ''.'' @ svcLabel @ ''.'' @ d"
    using assms True
    by (auto simp: CompletePartialName_def Let_def ls_def n_def split: if_splits option.splits)
  have n: "list_all name_char n" using labels_name_chars valid by (simp add: ls_def)
  then have "list_all name_char (n @ ''.'' @ svcLabel)"
    by (simp add: svcLabel_def name_char_def label_char_def is_lower_def)
  with n have "CompletePartialName ul tlds q' c opt' = (q', Passthrough)"
    using shape completed_passes_through [OF d n, of tlds opt']
      completed_passes_through [OF d, of "n @ ''.'' @ svcLabel" tlds opt'] by auto
  moreover have "last ls = ls ! (length ls - 1)"
    using \<open>ls \<noteq> []\<close> by (rule last_conv_nth)
  ultimately show ?thesis
    using True d valid shape unfolding Let_def n_def [symmetric] ls_def [symmetric]
    by (auto simp: numeral_2_eq_2)
qed

theorem partial_name_completion_witness:
  "CompletePartialName id (\<lambda>_. False) ''web.prod'' ''cluster.local'' (Some (\<lambda>ns. ns = ''prod''))
     = (''web.prod.svc.cluster.local'', Completed)
   \<and> CompletePartialName id (\<lambda>_. False) ''web.prod.svc.cluster.local'' ''cluster.local'' None
     = (''web.prod.svc.cluster.local'', Passthrough)"
proof -
  have c: "CompletePartialName id (\<lambda>_. False) ''web.prod'' ''cluster.local'' (Some (\<lambda>ns. ns = ''prod''))
     = (''web.prod.svc.cluster.local'', Completed)"
    by code_simp
  show ?thesis using partial_name_completion [OF c, of None] c by auto
qed

end
