(* ===== verification/DNSConfigs.thy ===== *)
theory DNSConfigs
  imports DNSNames
begin

text \<open>
  What a pod resolves with (\<^verbatim>\<open>pkg/dns/expand.go\<close>, \<^verbatim>\<open>normalize.go\<close>, \<^verbatim>\<open>merge.go\<close>, \<^verbatim>\<open>dnsconfig.go\<close>,
  \<^verbatim>\<open>env.go\<close>, \<^verbatim>\<open>resolvconf.go\<close>): search domains, candidate names, the merged configuration, and the
  environment and resolv.conf written from it. The type \<^verbatim>\<open>netv1.DNSConfig\<close> belongs to another module;
  the record has the fields these files read, and its methods \<^verbatim>\<open>WithDefaults\<close>, \<^verbatim>\<open>Validate\<close> and
  \<^verbatim>\<open>Servers\<close> are arguments (\<open>wd\<close>, \<open>vl\<close>, \<open>sv\<close>), as is the constant \<^verbatim>\<open>DefaultNDots\<close> (\<open>dn\<close>).
\<close>

section \<open>Configurations\<close>

datatype DNSPolicy = DNSPolicyClusterFirst | DNSPolicyNone | DNSPolicyOther string

record DNSConfig =
  dc_Policy :: DNSPolicy
  dc_ClusterDNSIP :: string
  dc_ClusterDomain :: string
  dc_SearchDomains :: "string list"
  dc_NDots :: int
  dc_Options :: "(string \<times> string) list"

definition MaxSearchDomains :: nat where
  "MaxSearchDomains = 8"

definition MaxNDots :: int where
  "MaxNDots = 15"

definition int32 :: "int \<Rightarrow> int" where
  "int32 z = sint (word_of_int z :: 32 word)"

section \<open>Search domains\<close>

definition rfc1123_char :: "char \<Rightarrow> bool" where
  "rfc1123_char c \<longleftrightarrow> is_lower c \<or> is_upper c \<or> is_digit c \<or> c = CHR ''.'' \<or> c = CHR ''-''"

definition hasOnlyRFC1123Chars :: "string \<Rightarrow> bool" where
  "hasOnlyRFC1123Chars s = list_all rfc1123_char s"

fun sanitizeSearch :: "string list \<Rightarrow> string list" where
  "sanitizeSearch [] = []"
| "sanitizeSearch (s # ss) =
     (let t = TrimSpace s in
      if t = [] then sanitizeSearch ss
      else if \<not> hasOnlyRFC1123Chars t then sanitizeSearch ss
      else t # sanitizeSearch ss)"

definition capSearch :: "string list \<Rightarrow> string list" where
  "capSearch ss = (if MaxSearchDomains < length ss then take MaxSearchDomains ss else ss)"

definition normalizeSearch :: "string list \<Rightarrow> string list" where
  "normalizeSearch ss = capSearch (sanitizeSearch ss)"

section \<open>Candidate names\<close>

definition dedupe :: "string list \<Rightarrow> string list" where
  "dedupe xs = dedup_from {} xs"

fun searched_names :: "string \<Rightarrow> string list \<Rightarrow> string list" where
  "searched_names name [] = []"
| "searched_names name (d # ds) =
     (let e = TrimSuffix d ''.'' in
      if e = [] then searched_names name ds else (name @ ''.'' @ e) # searched_names name ds)"

definition candidateNames :: "(DNSConfig \<Rightarrow> DNSConfig) \<Rightarrow> DNSConfig \<Rightarrow> string \<Rightarrow> string list" where
  "candidateNames wd cfg0 name0 =
     (let cfg = wd cfg0; name = TrimSpace name0 in
      if name = [] then []
      else if HasSuffix name ''.'' then [TrimSuffix name ''.'']
      else let dots = count_list name CHR ''.'';
               searched = searched_names name (normalizeSearch (dc_SearchDomains cfg)) in
        dedupe (if dc_NDots cfg \<le> int32 (int dots) then name # searched else searched @ [name]))"

section \<open>Merging\<close>

definition MergeDNSConfig :: "DNSConfig \<Rightarrow> string list \<Rightarrow> int \<Rightarrow> DNSConfig \<times> nat" where
  "MergeDNSConfig base searches ndots =
     (if dc_Policy base \<noteq> DNSPolicyClusterFirst then (base, 0)
      else let sanitized = sanitizeSearch (dedupe (dc_SearchDomains base @ searches));
               dropped = length sanitized - MaxSearchDomains;
               merged = base\<lparr>dc_SearchDomains := capSearch sanitized\<rparr> in
        (if 0 < ndots then merged\<lparr>dc_NDots := ndots\<rparr> else merged, dropped))"

definition DefaultClusterDomain :: string where
  "DefaultClusterDomain = ''cluster.local''"

definition PodDNSConfig :: "DNSPolicy \<Rightarrow> int \<Rightarrow> string \<Rightarrow> string \<Rightarrow> string \<Rightarrow> DNSConfig" where
  "PodDNSConfig zero_policy dn dnsVIP clusterDomain0 namespace =
     (let clusterDomain = (if clusterDomain0 = [] then DefaultClusterDomain else clusterDomain0) in
      \<lparr>dc_Policy = zero_policy, dc_ClusterDNSIP = dnsVIP, dc_ClusterDomain = clusterDomain,
       dc_SearchDomains = [namespace @ ''.svc.'' @ clusterDomain, ''svc.'' @ clusterDomain, clusterDomain],
       dc_NDots = dn, dc_Options = []\<rparr>)"

section \<open>The shim environment and the guest's resolv.conf\<close>

datatype dns_error = ErrInvalidConfig string | ErrNoUsableNameserver "string list"
  | ErrNameserversDropped "string list"

fun ipv4_servers_loop :: "string list \<Rightarrow> string list \<times> string list" where
  "ipv4_servers_loop [] = ([], [])"
| "ipv4_servers_loop (s # ss) =
     (let (kept, dropped) = ipv4_servers_loop ss in
      case map_option Unmap (ParseAddr s) of
        Some (IPv4 w) \<Rightarrow> (string4 w # kept, dropped)
      | _ \<Rightarrow> (kept, s # dropped))"

definition ipv4Servers :: "(DNSConfig \<Rightarrow> string list) \<Rightarrow> DNSConfig \<Rightarrow> string list \<times> string list" where
  "ipv4Servers sv cfg = ipv4_servers_loop (sv cfg)"

definition clampNDots :: "int \<Rightarrow> int" where
  "clampNDots n = (if MaxNDots < n then MaxNDots else n)"

type_synonym env = "string \<Rightarrow> string option"

text \<open>The result is the environment (which may come with an error) or an error alone.\<close>

definition ConfigToEnvChecked ::
  "int \<Rightarrow> (DNSConfig \<Rightarrow> string option) \<Rightarrow> (DNSConfig \<Rightarrow> string list) \<Rightarrow> DNSConfig
     \<Rightarrow> env option \<times> dns_error option" where
  "ConfigToEnvChecked dn vl sv cfg =
     (case vl cfg of
        Some e \<Rightarrow> (None, Some (ErrInvalidConfig e))
      | None \<Rightarrow>
          let ndots = clampNDots (if dc_NDots cfg \<le> 0 then dn else dc_NDots cfg);
              search = Join (normalizeSearch (dc_SearchDomains cfg)) '' '' in
          if dc_Policy cfg \<noteq> DNSPolicyNone then
            (Some [''K3SM_DNS_SERVER'' \<mapsto> dc_ClusterDNSIP cfg,
                   ''K3SM_DNS_DOMAIN'' \<mapsto> dc_ClusterDomain cfg,
                   ''K3SM_DNS_SEARCH'' \<mapsto> search,
                   ''K3SM_DNS_NDOTS'' \<mapsto> Itoa_int ndots], None)
          else let (kept, dropped) = ipv4Servers sv cfg in
            if kept = [] then (None, Some (ErrNoUsableNameserver dropped))
            else let e = [''K3SM_DNS_SERVERS'' \<mapsto> Join kept '' '',
                          ''K3SM_DNS_EXCLUSIVE'' \<mapsto> ''1'',
                          ''K3SM_DNS_SEARCH'' \<mapsto> search,
                          ''K3SM_DNS_NDOTS'' \<mapsto> Itoa_int ndots];
                     e' = (if dc_ClusterDomain cfg \<noteq> []
                           then e(''K3SM_DNS_DOMAIN'' \<mapsto> dc_ClusterDomain cfg) else e) in
              (Some e', if dropped \<noteq> [] then Some (ErrNameserversDropped dropped) else None))"

definition ConfigToEnv ::
  "int \<Rightarrow> (DNSConfig \<Rightarrow> string option) \<Rightarrow> (DNSConfig \<Rightarrow> string list) \<Rightarrow> DNSConfig \<Rightarrow> env option" where
  "ConfigToEnv dn vl sv cfg =
     (if dc_Policy cfg \<noteq> DNSPolicyClusterFirst then None
      else case ConfigToEnvChecked dn vl sv cfg of
        (e, None) \<Rightarrow> e
      | (_, Some _) \<Rightarrow> None)"

record ResolvConfFields =
  rc_Nameservers :: "string list"
  rc_Search :: "string list"
  rc_Options :: "string list"

definition GuestResolvConfFields ::
  "(DNSConfig \<Rightarrow> DNSConfig) \<Rightarrow> (DNSConfig \<Rightarrow> string option) \<Rightarrow> (DNSConfig \<Rightarrow> string list) \<Rightarrow> DNSConfig
     \<Rightarrow> dns_error + ResolvConfFields" where
  "GuestResolvConfFields wd vl sv cfg0 =
     (case vl cfg0 of
        Some e \<Rightarrow> Inl (ErrInvalidConfig e)
      | None \<Rightarrow>
          let cfg = wd cfg0; search = normalizeSearch (dc_SearchDomains cfg);
              options = [''ndots:'' @ Itoa_int (clampNDots (dc_NDots cfg))] in
          if dc_Policy cfg \<noteq> DNSPolicyNone then
            Inr \<lparr>rc_Nameservers = [dc_ClusterDNSIP cfg], rc_Search = search, rc_Options = options\<rparr>
          else let (kept, dropped) = ipv4Servers sv cfg in
            if kept = [] then Inl (ErrNoUsableNameserver dropped)
            else Inr \<lparr>rc_Nameservers = kept, rc_Search = search,
                  rc_Options = options @ map (\<lambda>(nm, v). if v = [] then nm else nm @ '':'' @ v)
                    (dc_Options cfg)\<rparr>)"

definition GuestResolvConf ::
  "(DNSConfig \<Rightarrow> DNSConfig) \<Rightarrow> (DNSConfig \<Rightarrow> string option) \<Rightarrow> (DNSConfig \<Rightarrow> string list) \<Rightarrow> DNSConfig
     \<Rightarrow> dns_error + string" where
  "GuestResolvConf wd vl sv cfg =
     (case GuestResolvConfFields wd vl sv cfg of
        Inl e \<Rightarrow> Inl e
      | Inr f \<Rightarrow>
          Inr (concat (map (\<lambda>ns. ''nameserver '' @ ns @ ''\<newline>'') (rc_Nameservers f))
            @ (if rc_Search f \<noteq> [] then ''search '' @ Join (rc_Search f) '' '' @ ''\<newline>'' else [])
            @ concat (map (\<lambda>opt. ''options '' @ opt @ ''\<newline>'') (rc_Options f))))"

section \<open>Lemmas\<close>

lemma space_encodings_not_rfc1123:
  "\<forall>e \<in> set space_encodings. e \<noteq> [] \<and> \<not> rfc1123_char (hd e) \<and> \<not> rfc1123_char (last e)"
proof -
  have "list_all (\<lambda>e. e \<noteq> [] \<and> \<not> rfc1123_char (hd e) \<and> \<not> rfc1123_char (last e)) space_encodings"
    by code_simp
  then show ?thesis by (simp add: list_all_iff)
qed

lemma find_none: "(\<And>x. x \<in> set xs \<Longrightarrow> \<not> P x) \<Longrightarrow> find P xs = None"
  by (simp add: find_None_iff)

lemma TrimSpace_id:
  assumes "hasOnlyRFC1123Chars s"
  shows "TrimSpace s = s"
proof (cases "s = []")
  case True
  then show ?thesis by simp
next
  case False
  have "\<not> HasPrefix s e \<and> \<not> HasSuffix s e" if e: "e \<in> set space_encodings" for e
  proof -
    note bad = space_encodings_not_rfc1123 [rule_format, OF e]
    have rfc: "\<forall>c \<in> set s. rfc1123_char c"
      using assms by (simp add: hasOnlyRFC1123Chars_def list_all_iff)
    have "hd e \<in> set s" if "HasPrefix s e" using that bad by (auto simp: HasPrefix_iff)
    moreover have "last e \<in> set s" if "HasSuffix s e" using that bad by (auto simp: HasSuffix_iff)
    ultimately show ?thesis using bad rfc by blast
  qed
  then have "leading_space s = 0" "trailing_space s = 0"
    by (simp_all add: leading_space_def trailing_space_def find_none)
  then have "TrimLeftSpace s = s" "TrimRightSpace s = s"
    by (simp_all add: TrimLeftSpace.simps [of s] TrimRightSpace.simps [of s])
  then show ?thesis by (simp add: TrimSpace_def)
qed

lemma sanitize_chars:
  "d \<in> set (sanitizeSearch ss) \<Longrightarrow> d \<noteq> [] \<and> hasOnlyRFC1123Chars d"
  by (induction ss) (auto simp: Let_def split: if_splits)

lemma sanitize_fixed:
  "(\<forall>d \<in> set ss. d \<noteq> [] \<and> hasOnlyRFC1123Chars d) \<Longrightarrow> sanitizeSearch ss = ss"
  by (induction ss) (auto simp: TrimSpace_id)

lemma sanitize_append: "sanitizeSearch (xs @ ys) = sanitizeSearch xs @ sanitizeSearch ys"
  by (induction xs) (auto simp: Let_def)

lemma capSearch_take: "capSearch ss = take 8 ss"
  by (simp add: capSearch_def MaxSearchDomains_def)

lemma normalizeSearch_fixed:
  assumes "xs = capSearch (sanitizeSearch ss)"
  shows "normalizeSearch xs = xs"
proof -
  have "\<forall>d \<in> set xs. d \<in> set (sanitizeSearch ss)"
    unfolding assms capSearch_take using in_set_takeD by fast
  then have "sanitizeSearch xs = xs"
    using sanitize_chars by (intro sanitize_fixed) blast
  then have "normalizeSearch xs = capSearch xs" by (simp only: normalizeSearch_def)
  then show ?thesis by (simp add: assms capSearch_take)
qed

lemma searched_names_longer: "x \<in> set (searched_names n ds) \<Longrightarrow> length n < length x"
  by (induction ds) (auto simp: Let_def split: if_splits)

lemma dedupe_props: "distinct (dedupe xs)" "set (dedupe xs) = set xs"
  by (simp_all add: dedupe_def distinct_dedup_from set_dedup_from)

lemma length_searched_names: "length (searched_names n ds) \<le> length ds"
  by (induction ds) (auto simp: Let_def)

section \<open>Properties\<close>

text \<open>
  C37. The names tried for a relative query are distinct and at most nine: the name itself and the
  name under each usable search domain. The name itself is tried first when it has at least
  \<^verbatim>\<open>NDots\<close> dots and last otherwise; a rooted name is tried alone.
\<close>
theorem candidate_names_order:
  "let cfg = wd cfg0; n = TrimSpace name; cs = candidateNames wd cfg0 name in
   distinct cs \<and> length cs \<le> 9 \<and>
   (if n = [] then cs = []
    else if HasSuffix n ''.'' then cs = [TrimSuffix n ''.'']
    else \<exists>rest. set rest = {n @ ''.'' @ TrimSuffix d ''.'' | d.
             d \<in> set (normalizeSearch (dc_SearchDomains cfg)) \<and> TrimSuffix d ''.'' \<noteq> []} \<and>
      cs = (if dc_NDots cfg \<le> int32 (int (count_list n CHR ''.'')) then n # rest else rest @ [n]))"
proof -
  define n where "n = TrimSpace name"
  define cfg where "cfg = wd cfg0"
  define ds where "ds = normalizeSearch (dc_SearchDomains cfg)"
  define rest where "rest = dedupe (searched_names n ds)"
  have set: "set (searched_names n xs) = {n @ ''.'' @ TrimSuffix d ''.'' | d.
      d \<in> set xs \<and> TrimSuffix d ''.'' \<noteq> []}" for xs
    by (induction xs) (auto simp: Let_def)
  have n: "n \<notin> set (searched_names n ds)" using searched_names_longer by blast
  have "length ds \<le> 8" by (simp add: ds_def normalizeSearch_def capSearch_take)
  then have len: "length rest \<le> 8"
    using length_searched_names [of n ds] length_dedup_from [of "{}" "searched_names n ds"]
    by (simp add: rest_def dedupe_def)
  have "dedupe (n # searched_names n ds) = n # rest"
    using n by (simp add: rest_def dedupe_def dedup_from_cong [of "{n}" _ "{}"])
  moreover have "dedupe (searched_names n ds @ [n]) = rest @ [n]"
    using n by (simp add: rest_def dedupe_def dedup_from_append)
  ultimately have cs: "candidateNames wd cfg0 name =
      (if n = [] then [] else if HasSuffix n ''.'' then [TrimSuffix n ''.'']
       else if dc_NDots cfg \<le> int32 (int (count_list n CHR ''.'')) then n # rest else rest @ [n])"
    by (simp add: candidateNames_def Let_def n_def [symmetric] cfg_def [symmetric] ds_def [symmetric])
  have "distinct rest" "n \<notin> set rest" "set rest = set (searched_names n ds)"
    using n by (simp_all add: rest_def dedupe_props)
  then show ?thesis
    unfolding Let_def n_def [symmetric] cfg_def [symmetric] cs ds_def [symmetric]
    using len set [of ds] by auto
qed

text \<open>
  C38. Merging a pod's search domains into the base configuration changes only a cluster-first one.
  The result has at most eight domains, the first eight of the deduplicated and sanitised list in
  which the base's come first; the count of dropped domains is exact; and the list is stable: no
  later normalisation (environment, resolv.conf, expansion) changes it.
\<close>
theorem merge_dns_config:
  "let (out, dropped) = MergeDNSConfig base searches ndots;
       all = sanitizeSearch (dedupe (dc_SearchDomains base @ searches)) in
   if dc_Policy base \<noteq> DNSPolicyClusterFirst then out = base \<and> dropped = 0
   else dc_SearchDomains out = take 8 all \<and> length (dc_SearchDomains out) + dropped = length all
     \<and> normalizeSearch (dc_SearchDomains out) = dc_SearchDomains out
     \<and> dc_NDots out = (if 0 < ndots then ndots else dc_NDots base)
     \<and> dc_Policy out = dc_Policy base \<and> dc_ClusterDNSIP out = dc_ClusterDNSIP base
     \<and> dc_ClusterDomain out = dc_ClusterDomain base \<and> dc_Options out = dc_Options base"
proof -
  define ss where "ss = dedupe (dc_SearchDomains base @ searches)"
  define all where "all = sanitizeSearch ss"
  have fixed: "normalizeSearch (take 8 all) = take 8 all"
    by (rule normalizeSearch_fixed [of _ ss]) (simp add: capSearch_take all_def)
  show ?thesis
    unfolding MergeDNSConfig_def ss_def [symmetric] all_def [symmetric] Let_def
    using fixed by (auto simp: MaxSearchDomains_def capSearch_take)
qed

end
