(* ===== verification/DNSSynth.thy ===== *)
theory DNSSynth
  imports DNSNames "HOL-Library.List_Lexorder" "HOL-Library.Char_ord"
begin

text \<open>
  Record synthesis of the cluster DNS (\<^verbatim>\<open>pkg/dns/synth.go\<close>, \<^verbatim>\<open>Synthesize\<close>): the A, SRV and PTR records
  of one service. \<open>ul\<close> is the Unicode part of \<^verbatim>\<open>strings.ToLower\<close>. \<^verbatim>\<open>sort.Slice\<close> is not stable, so the
  order it gives records of one target is the argument \<open>srt\<close>, of which only \<open>sorts_srv\<close> is assumed;
  the endpoints are sorted by address after deduplication, where no two are equal.
\<close>

section \<open>Data\<close>

record SynthPort =
  sp_Name :: string
  sp_Port :: u16
  sp_Protocol :: string

record SynthService =
  ss_Name :: string
  ss_Namespace :: string
  ss_ClusterIP :: addr
  ss_Headless :: bool
  ss_PublishNotReadyAddresses :: bool
  ss_Ports :: "SynthPort list"

record SynthEndpoint =
  se_IP :: addr
  se_Hostname :: string
  se_Ready :: bool

record SRVRecord =
  srv_Target :: string
  srv_Port :: u16
  srv_Priority :: u16
  srv_Weight :: u16

record RecordSet =
  rs_A :: "string \<Rightarrow> addr list option"
  rs_SRV :: "string \<Rightarrow> SRVRecord list option"
  rs_PTR :: "string \<Rightarrow> string option"

datatype synth_error = ErrSynthInput

section \<open>Synthesis\<close>

text \<open>\<^verbatim>\<open>m[k] = append(m[k], v)\<close>\<close>

definition append_at :: "(string \<Rightarrow> 'v list option) \<Rightarrow> string \<Rightarrow> 'v \<Rightarrow> string \<Rightarrow> 'v list option" where
  "append_at m k v = m(k \<mapsto> (case m k of None \<Rightarrow> [] | Some l \<Rightarrow> l) @ [v])"

text \<open>Called on IPv4 addresses only; \<^verbatim>\<open>As4\<close> panics on others.\<close>

definition endpointOwnerName :: "(string \<Rightarrow> string) \<Rightarrow> SynthEndpoint \<Rightarrow> string \<Rightarrow> string" where
  "endpointOwnerName ul e svcName =
     (if se_Hostname e \<noteq> [] then ToLower ul (se_Hostname e) @ ''.'' @ svcName
      else (case As4 (se_IP e) of
              Some b \<Rightarrow> dashedIP (be32 b)
            | None \<Rightarrow> undefined) @ ''.'' @ svcName)"

definition srvOwnerName :: "(string \<Rightarrow> string) \<Rightarrow> SynthPort \<Rightarrow> string \<Rightarrow> synth_error + string" where
  "srvOwnerName ul p svcName =
     (if sp_Name p = [] then Inr []
      else let name = ToLower ul (sp_Name p) in
        if \<not> isDNSLabel name then Inl ErrSynthInput
        else let proto0 = ToLower ul (sp_Protocol p);
                 proto = (if proto0 = [] then ''tcp'' else proto0) in
          if proto \<in> {''tcp'', ''udp'', ''sctp''} then Inr (''_'' @ name @ ''._'' @ proto @ ''.'' @ svcName)
          else Inl ErrSynthInput)"

definition srv_weight :: "SRVRecord list \<Rightarrow> u16" where
  "srv_weight recs = (let w = word_of_nat (100 div length recs) in if w = 0 then 1 else w)"

definition finalizeSRVWeights ::
  "(SRVRecord list \<Rightarrow> SRVRecord list) \<Rightarrow> (string \<Rightarrow> SRVRecord list option)
     \<Rightarrow> string \<Rightarrow> SRVRecord list option" where
  "finalizeSRVWeights srt srv =
     (\<lambda>name. map_option (\<lambda>recs. srt (map (\<lambda>r. r\<lparr>srv_Weight := srv_weight recs\<rparr>) recs)) (srv name))"

definition new_srv :: "string \<Rightarrow> u16 \<Rightarrow> SRVRecord" where
  "new_srv target port = \<lparr>srv_Target = target, srv_Port = port, srv_Priority = 0, srv_Weight = 0\<rparr>"

text \<open>The loop over the ports, with the SRV targets each named port gets.\<close>

fun srv_loop ::
  "(string \<Rightarrow> string) \<Rightarrow> string \<Rightarrow> string list \<Rightarrow> SynthPort list \<Rightarrow> (string \<Rightarrow> SRVRecord list option)
     \<Rightarrow> synth_error + (string \<Rightarrow> SRVRecord list option)" where
  "srv_loop ul svcName targets [] srv = Inr srv"
| "srv_loop ul svcName targets (p # ps) srv =
     (case srvOwnerName ul p svcName of
        Inl e \<Rightarrow> Inl e
      | Inr srvName \<Rightarrow>
          srv_loop ul svcName targets ps
            (if srvName = [] then srv
             else foldl (\<lambda>m tgt. append_at m srvName (new_srv tgt (sp_Port p))) srv targets))"

definition synthesizeClusterIP ::
  "(string \<Rightarrow> string) \<Rightarrow> (SRVRecord list \<Rightarrow> SRVRecord list) \<Rightarrow> RecordSet \<Rightarrow> SynthService \<Rightarrow> string
     \<Rightarrow> synth_error + RecordSet" where
  "synthesizeClusterIP ul srt rs svc svcName =
     (if \<not> Is4 (ss_ClusterIP svc) then Inl ErrSynthInput
      else case ReverseName (ss_ClusterIP svc) of
        None \<Rightarrow> Inl ErrSynthInput
      | Some rv \<Rightarrow>
          (case srv_loop ul svcName [svcName] (ss_Ports svc) (rs_SRV rs) of
             Inl e \<Rightarrow> Inl e
           | Inr srv \<Rightarrow> Inr (rs\<lparr>rs_A := (rs_A rs)(svcName \<mapsto> [ss_ClusterIP svc]),
                              rs_PTR := (rs_PTR rs)(rv \<mapsto> svcName),
                              rs_SRV := finalizeSRVWeights srt srv\<rparr>)))"

text \<open>The filter loop: \<open>seen\<close> are the addresses already included.\<close>

fun included_loop ::
  "(string \<Rightarrow> string) \<Rightarrow> bool \<Rightarrow> addr list \<Rightarrow> SynthEndpoint list \<Rightarrow> synth_error + SynthEndpoint list" where
  "included_loop ul publish seen [] = Inr []"
| "included_loop ul publish seen (e # es) =
     (if \<not> se_Ready e \<and> \<not> publish then included_loop ul publish seen es
      else if \<not> Is4 (se_IP e) then Inl ErrSynthInput
      else if se_Hostname e \<noteq> [] \<and> \<not> isDNSLabel (ToLower ul (se_Hostname e)) then Inl ErrSynthInput
      else if se_IP e \<in> set seen then included_loop ul publish seen es
      else case included_loop ul publish (se_IP e # seen) es of
        Inl er \<Rightarrow> Inl er
      | Inr rest \<Rightarrow> Inr (e # rest))"

fun endpoint_loop ::
  "(string \<Rightarrow> string) \<Rightarrow> string \<Rightarrow> SynthEndpoint list \<Rightarrow> RecordSet \<Rightarrow> synth_error + RecordSet" where
  "endpoint_loop ul svcName [] rs = Inr rs"
| "endpoint_loop ul svcName (e # es) rs =
     (let name = endpointOwnerName ul e svcName in
      case ReverseName (se_IP e) of
        None \<Rightarrow> Inl ErrSynthInput
      | Some rv \<Rightarrow>
          endpoint_loop ul svcName es
            (rs\<lparr>rs_A := append_at (append_at (rs_A rs) svcName (se_IP e)) name (se_IP e),
                rs_PTR := (rs_PTR rs)(rv \<mapsto> name)\<rparr>))"

definition synthesizeHeadless ::
  "(string \<Rightarrow> string) \<Rightarrow> (SRVRecord list \<Rightarrow> SRVRecord list) \<Rightarrow> RecordSet \<Rightarrow> SynthService \<Rightarrow> string
     \<Rightarrow> SynthEndpoint list \<Rightarrow> synth_error + RecordSet" where
  "synthesizeHeadless ul srt rs svc svcName endpoints =
     (case included_loop ul (ss_PublishNotReadyAddresses svc) [] endpoints of
        Inl e \<Rightarrow> Inl e
      | Inr inc \<Rightarrow>
          let included = sort_key se_IP inc in
          (case endpoint_loop ul svcName included rs of
             Inl e \<Rightarrow> Inl e
           | Inr rs' \<Rightarrow>
               (case srv_loop ul svcName (map (\<lambda>e. endpointOwnerName ul e svcName) included)
                       (ss_Ports svc) (rs_SRV rs') of
                  Inl e \<Rightarrow> Inl e
                | Inr srv \<Rightarrow> Inr (rs'\<lparr>rs_SRV := finalizeSRVWeights srt srv\<rparr>))))"

definition Synthesize ::
  "(string \<Rightarrow> string) \<Rightarrow> (SRVRecord list \<Rightarrow> SRVRecord list) \<Rightarrow> string \<Rightarrow> SynthService
     \<Rightarrow> SynthEndpoint list \<Rightarrow> synth_error + RecordSet" where
  "Synthesize ul srt clusterDomain svc endpoints =
     (case normalizeDomain ul clusterDomain of
        None \<Rightarrow> Inl ErrSynthInput
      | Some domain \<Rightarrow>
          if \<not> isDNSLabel (ToLower ul (ss_Name svc)) \<or> \<not> isDNSLabel (ToLower ul (ss_Namespace svc))
          then Inl ErrSynthInput
          else let rs = \<lparr>rs_A = Map.empty, rs_SRV = Map.empty, rs_PTR = Map.empty\<rparr>;
                   svcName = ToLower ul (ss_Name svc) @ ''.'' @ ToLower ul (ss_Namespace svc) @ ''.svc.'' @ domain in
            if \<not> ss_Headless svc then synthesizeClusterIP ul srt rs svc svcName
            else synthesizeHeadless ul srt rs svc svcName endpoints)"

definition sorts_srv :: "(SRVRecord list \<Rightarrow> SRVRecord list) \<Rightarrow> bool" where
  "sorts_srv srt \<longleftrightarrow> (\<forall>l. set (srt l) = set l \<and> length (srt l) = length l
     \<and> sorted (map srv_Target (srt l)))"

section \<open>The loops\<close>

lemma append_at_get: "append_at m k v x = (if x = k then Some ((case m k of None \<Rightarrow> [] | Some l \<Rightarrow> l) @ [v]) else m x)"
  by (simp add: append_at_def)

lemma included_loop_spec:
  assumes "included_loop ul publish seen es = Inr inc"
  shows "distinct (map se_IP inc) \<and> se_IP ` set inc = se_IP ` {e \<in> set es. se_Ready e \<or> publish} - set seen
    \<and> set inc \<subseteq> {e \<in> set es. se_Ready e \<or> publish} \<and> (\<forall>e \<in> set inc. Is4 (se_IP e))"
  using assms
proof (induction es arbitrary: seen inc)
  case (Cons e es)
  consider (out) "\<not> (se_Ready e \<or> publish)" "included_loop ul publish seen es = Inr inc"
    | (dup) "se_Ready e \<or> publish" "se_IP e \<in> set seen" "included_loop ul publish seen es = Inr inc"
    | (add) rest where "se_Ready e \<or> publish" "se_IP e \<notin> set seen" "Is4 (se_IP e)" "inc = e # rest"
        "included_loop ul publish (se_IP e # seen) es = Inr rest"
    using Cons.prems by (auto split: if_split_asm sum.split_asm)
  then show ?case
  proof cases
    case out
    then show ?thesis using Cons.IH [OF out(2)] by auto
  next
    case dup
    then show ?thesis using Cons.IH [OF dup(3)] by auto
  next
    case add
    have e: "{x \<in> set (e # es). se_Ready x \<or> publish} = insert e {x \<in> set es. se_Ready x \<or> publish}"
      using add(1) by auto
    show ?thesis using Cons.IH [OF add(5)] add(2-4) unfolding e by auto
  qed
qed simp

text \<open>Every name of the A map after the endpoint loop: the service name has all addresses in order.\<close>

lemma endpointOwnerName_neq: "endpointOwnerName ul e svcName \<noteq> svcName"
proof -
  have "length svcName < length (endpointOwnerName ul e svcName)" by (simp add: endpointOwnerName_def)
  then show ?thesis by auto
qed

definition get_list :: "(string \<Rightarrow> 'v list option) \<Rightarrow> string \<Rightarrow> 'v list" where
  "get_list m k = (case m k of None \<Rightarrow> [] | Some l \<Rightarrow> l)"

lemma get_list_append_at: "get_list (append_at m k v) x = get_list m x @ (if x = k then [v] else [])"
  by (simp add: get_list_def append_at_def split: option.split)

lemma dom_append_at: "dom (append_at m k v) = insert k (dom m)"
  by (auto simp: append_at_def)

lemma append_at_cases: "append_at m k v n = Some l \<Longrightarrow> l = get_list m k @ [v] \<or> m n = Some l"
  by (cases "n = k") (simp_all add: append_at_def get_list_def)

lemma endpoint_loop_spec:
  assumes "endpoint_loop ul svcName es rs = Inr rs'"
  shows "get_list (rs_A rs') x = get_list (rs_A rs) x @
      (if x = svcName then map se_IP es else map se_IP (filter (\<lambda>e. endpointOwnerName ul e svcName = x) es))"
    "rs_SRV rs' = rs_SRV rs"
    "rs_PTR rs' rv = Some n \<Longrightarrow> rs_PTR rs rv = Some n \<or>
      (\<exists>e \<in> set es. ReverseName (se_IP e) = Some rv \<and> n = endpointOwnerName ul e svcName)"
    "dom (rs_A rs') = dom (rs_A rs) \<union> (if es = [] then {} else {svcName})
       \<union> (\<lambda>e. endpointOwnerName ul e svcName) ` set es"
  using assms
proof (induction es arbitrary: rs)
  case (Cons e es)
  {
    case 1
    then obtain rv where "endpoint_loop ul svcName es
        (rs\<lparr>rs_A := append_at (append_at (rs_A rs) svcName (se_IP e)) (endpointOwnerName ul e svcName) (se_IP e),
            rs_PTR := (rs_PTR rs)(rv \<mapsto> endpointOwnerName ul e svcName)\<rparr>) = Inr rs'"
      by (auto simp: Let_def split: option.split_asm)
    from Cons.IH(1) [OF this] show ?case
      using endpointOwnerName_neq [of ul e svcName] by (auto simp: get_list_append_at)
  next
    case 2
    then show ?case using Cons(2) by (fastforce simp: Let_def split: option.split_asm)
  next
    case 3
    then show ?case using Cons(3) by (fastforce simp: Let_def split: option.split_asm if_split_asm)
  next
    case 4
    then obtain rv where "endpoint_loop ul svcName es
        (rs\<lparr>rs_A := append_at (append_at (rs_A rs) svcName (se_IP e)) (endpointOwnerName ul e svcName) (se_IP e),
            rs_PTR := (rs_PTR rs)(rv \<mapsto> endpointOwnerName ul e svcName)\<rparr>) = Inr rs'"
      by (auto simp: Let_def split: option.split_asm)
    from Cons.IH(4) [OF this] show ?case by (auto simp: dom_append_at)
  }
qed simp_all

text \<open>All SRV targets come from the list of targets, and no group is empty.\<close>

definition srv_ok :: "string set \<Rightarrow> (string \<Rightarrow> SRVRecord list option) \<Rightarrow> bool" where
  "srv_ok T srv \<longleftrightarrow> (\<forall>n l. srv n = Some l \<longrightarrow> l \<noteq> [] \<and> (\<forall>r \<in> set l. srv_Target r \<in> T \<and> srv_Priority r = 0))"

lemma srv_fold_ok:
  "srv_ok T srv \<Longrightarrow> set targets \<subseteq> T \<Longrightarrow>
    srv_ok T (foldl (\<lambda>m tgt. append_at m k (new_srv tgt port)) srv targets)"
proof (induction targets arbitrary: srv)
  case (Cons a targets)
  have "srv_ok T (append_at srv k (new_srv a port))"
    unfolding srv_ok_def
  proof (intro allI impI)
    fix n l assume "append_at srv k (new_srv a port) n = Some l"
    then have "l = get_list srv k @ [new_srv a port] \<or> srv n = Some l" by (rule append_at_cases)
    then show "l \<noteq> [] \<and> (\<forall>r \<in> set l. srv_Target r \<in> T \<and> srv_Priority r = 0)"
    proof
      assume l: "l = get_list srv k @ [new_srv a port]"
      have "\<forall>r \<in> set (get_list srv k). srv_Target r \<in> T \<and> srv_Priority r = 0"
        using Cons.prems(1) by (cases "srv k") (simp_all add: srv_ok_def get_list_def)
      then show ?thesis using l Cons.prems(2) by (simp add: new_srv_def)
    next
      assume "srv n = Some l"
      then show ?thesis using Cons.prems(1) by (simp add: srv_ok_def)
    qed
  qed
  then show ?case using Cons by simp
qed simp

lemma srv_loop_ok:
  "srv_loop ul svcName targets ps srv = Inr srv' \<Longrightarrow> srv_ok T srv \<Longrightarrow> set targets \<subseteq> T \<Longrightarrow> srv_ok T srv'"
  by (induction ps arbitrary: srv) (auto simp: srv_fold_ok split: sum.split_asm if_split_asm)

text \<open>The weights share 100 among the group, rounded down, and are at least 1.\<close>

lemma srv_weight_bounds:
  assumes "recs \<noteq> []"
  shows "unat (srv_weight recs) = max 1 (100 div length recs)"
proof -
  define q where "q = 100 div length recs"
  have "q \<le> 100" by (simp add: q_def)
  then have q: "unat (word_of_nat q :: u16) = q" by (simp add: unat_of_nat)
  have "word_of_nat q = (0 :: u16) \<longleftrightarrow> q = 0" using q by (metis unat_0 unat_eq_zero of_nat_0)
  then show ?thesis unfolding srv_weight_def Let_def q_def [symmetric] using q by simp
qed

lemma finalize_ok:
  assumes "srv_ok T srv" and "sorts_srv srt" and "finalizeSRVWeights srt srv n = Some l"
  shows "l \<noteq> [] \<and> sorted (map srv_Target l)
    \<and> (\<forall>r \<in> set l. srv_Target r \<in> T \<and> srv_Priority r = 0 \<and> unat (srv_Weight r) = max 1 (100 div length l))"
proof -
  obtain recs where r: "srv n = Some recs" "l = srt (map (\<lambda>r. r\<lparr>srv_Weight := srv_weight recs\<rparr>) recs)"
    using assms(3) by (auto simp: finalizeSRVWeights_def)
  have ne: "recs \<noteq> []" and t: "\<forall>r \<in> set recs. srv_Target r \<in> T \<and> srv_Priority r = 0"
    using assms(1) r(1) by (simp_all add: srv_ok_def)
  have s: "set l = (\<lambda>r. r\<lparr>srv_Weight := srv_weight recs\<rparr>) ` set recs" "length l = length recs"
    "sorted (map srv_Target l)"
    using assms(2) unfolding sorts_srv_def r(2) by simp_all
  then have "l \<noteq> []" using ne by auto
  then show ?thesis using s t srv_weight_bounds [OF ne] by auto
qed

text \<open>The addresses a service publishes.\<close>

definition published :: "SynthService \<Rightarrow> SynthEndpoint list \<Rightarrow> addr set" where
  "published svc eps = se_IP ` {e \<in> set eps. se_Ready e \<or> ss_PublishNotReadyAddresses svc}"

lemma published_list:
  "published svc eps = set (map se_IP (filter (\<lambda>e. se_Ready e \<or> ss_PublishNotReadyAddresses svc) eps))"
  by (auto simp: published_def)

definition svc_name :: "(string \<Rightarrow> string) \<Rightarrow> string \<Rightarrow> SynthService \<Rightarrow> string" where
  "svc_name ul domain svc = ToLower ul (ss_Name svc) @ ''.'' @ ToLower ul (ss_Namespace svc) @ ''.svc.'' @ domain"

lemma Synthesize_cases:
  assumes "Synthesize ul srt clusterDomain svc eps = Inr rs"
  obtains domain where "normalizeDomain ul clusterDomain = Some domain"
    "(if ss_Headless svc
      then synthesizeHeadless ul srt \<lparr>rs_A = Map.empty, rs_SRV = Map.empty, rs_PTR = Map.empty\<rparr> svc
             (svc_name ul domain svc) eps
      else synthesizeClusterIP ul srt \<lparr>rs_A = Map.empty, rs_SRV = Map.empty, rs_PTR = Map.empty\<rparr> svc
             (svc_name ul domain svc)) = Inr rs"
  using assms by (auto simp: Synthesize_def Let_def svc_name_def split: option.split_asm if_split_asm)

text \<open>The shape of a headless record set: endpoints sorted by address, each once.\<close>

lemma synthesizeHeadless_cases:
  assumes "synthesizeHeadless ul srt \<lparr>rs_A = Map.empty, rs_SRV = Map.empty, rs_PTR = Map.empty\<rparr> svc sn eps = Inr rs"
  obtains inc rs1 srv where "map se_IP inc = sorted_list_of_set (published svc eps)"
    "endpoint_loop ul sn inc \<lparr>rs_A = Map.empty, rs_SRV = Map.empty, rs_PTR = Map.empty\<rparr> = Inr rs1"
    "srv_loop ul sn (map (\<lambda>e. endpointOwnerName ul e sn) inc) (ss_Ports svc) Map.empty = Inr srv"
    "rs_A rs = rs_A rs1" "rs_PTR rs = rs_PTR rs1" "rs_SRV rs = finalizeSRVWeights srt srv"
proof -
  obtain inc0 where i: "included_loop ul (ss_PublishNotReadyAddresses svc) [] eps = Inr inc0"
    using assms by (auto simp: synthesizeHeadless_def split: sum.split_asm)
  define inc where "inc = sort_key se_IP inc0"
  obtain rs1 where e: "endpoint_loop ul sn inc \<lparr>rs_A = Map.empty, rs_SRV = Map.empty, rs_PTR = Map.empty\<rparr> = Inr rs1"
    using assms by (auto simp: synthesizeHeadless_def i inc_def [symmetric] split: sum.split_asm)
  have srv1: "rs_SRV rs1 = Map.empty" using endpoint_loop_spec(2) [OF e] by simp
  obtain srv where v: "srv_loop ul sn (map (\<lambda>e. endpointOwnerName ul e sn) inc) (ss_Ports svc) Map.empty = Inr srv"
      "rs = rs1\<lparr>rs_SRV := finalizeSRVWeights srt srv\<rparr>"
    using assms by (auto simp: synthesizeHeadless_def i inc_def [symmetric] e srv1 split: sum.split_asm)
  note inc0 = included_loop_spec [OF i]
  have "sorted (map se_IP inc)" "distinct (map se_IP inc)" "set (map se_IP inc) = published svc eps"
    using inc0 by (simp_all add: inc_def published_def distinct_map)
  then have "map se_IP inc = sorted_list_of_set (published svc eps)"
    by (metis sorted_list_of_set.idem_if_sorted_distinct)
  from that [OF this e v(1)] v(2) show ?thesis by simp
qed

section \<open>A concrete service\<close>

definition demo_svc :: SynthService where
  "demo_svc = \<lparr>ss_Name = ''db'', ss_Namespace = ''prod'', ss_ClusterIP = NoAddr, ss_Headless = True,
     ss_PublishNotReadyAddresses = False,
     ss_Ports = [\<lparr>sp_Name = ''sql'', sp_Port = 5432, sp_Protocol = ''TCP''\<rparr>]\<rparr>"

definition demo_endpoints :: "SynthEndpoint list" where
  "demo_endpoints = [\<lparr>se_IP = IPv4 0x64400102, se_Hostname = ''db-1'', se_Ready = True\<rparr>,
     \<lparr>se_IP = IPv4 0x64400103, se_Hostname = [], se_Ready = False\<rparr>,
     \<lparr>se_IP = IPv4 0x64400101, se_Hostname = [], se_Ready = True\<rparr>]"

lemma sorts_srv_sort_key: "sorts_srv (sort_key srv_Target)"
  by (simp add: sorts_srv_def)

lemma demo_synth: "\<exists>rs. Synthesize (\<lambda>s. s) (sort_key srv_Target) ''cluster.local'' demo_svc demo_endpoints = Inr rs
  \<and> rs_SRV rs ''_sql._tcp.db.prod.svc.cluster.local'' \<noteq> None"
proof -
  let ?r = "Synthesize (\<lambda>s. s) (sort_key srv_Target) ''cluster.local'' demo_svc demo_endpoints"
  have "(case ?r of Inl _ \<Rightarrow> False
    | Inr rs \<Rightarrow> \<not> Option.is_none (rs_SRV rs ''_sql._tcp.db.prod.svc.cluster.local''))" by code_simp
  then show ?thesis by (cases ?r) (simp_all add: Option.is_none_def)
qed

section \<open>Properties\<close>

text \<open>C21. Synthesised record sets are closed: every SRV target is a name with an A record, the group
  is sorted, has priority 0 and the equal share of 100 as weight (at least 1), and every PTR points
  to a name whose A record contains the reversed address.\<close>

theorem synth_closed:
  assumes "Synthesize ul srt clusterDomain svc eps = Inr rs" and "sorts_srv srt"
  shows "(rs_SRV rs n = Some l \<longrightarrow> l \<noteq> [] \<and> sorted (map srv_Target l) \<and>
      (\<forall>r \<in> set l. rs_A rs (srv_Target r) \<noteq> None \<and> srv_Priority r = 0
         \<and> unat (srv_Weight r) = max 1 (100 div length l)))
    \<and> (rs_PTR rs rv = Some owner \<longrightarrow>
        (\<exists>ip \<in> set (get_list (rs_A rs) owner). ReverseName ip = Some rv))"
proof -
  obtain domain where d: "(if ss_Headless svc
      then synthesizeHeadless ul srt \<lparr>rs_A = Map.empty, rs_SRV = Map.empty, rs_PTR = Map.empty\<rparr> svc
             (svc_name ul domain svc) eps
      else synthesizeClusterIP ul srt \<lparr>rs_A = Map.empty, rs_SRV = Map.empty, rs_PTR = Map.empty\<rparr> svc
             (svc_name ul domain svc)) = Inr rs"
    using assms(1) by (rule Synthesize_cases)
  let ?sn = "svc_name ul domain svc"
  have e: "srv_ok T Map.empty" for T by (simp add: srv_ok_def)
  show ?thesis
  proof (cases "ss_Headless svc")
    case True
    obtain inc rs1 srv where h:
      "endpoint_loop ul ?sn inc \<lparr>rs_A = Map.empty, rs_SRV = Map.empty, rs_PTR = Map.empty\<rparr> = Inr rs1"
      "srv_loop ul ?sn (map (\<lambda>e. endpointOwnerName ul e ?sn) inc) (ss_Ports svc) Map.empty = Inr srv"
      "rs_A rs = rs_A rs1" "rs_PTR rs = rs_PTR rs1" "rs_SRV rs = finalizeSRVWeights srt srv"
      using d True by (auto elim: synthesizeHeadless_cases)
    note ep = endpoint_loop_spec [OF h(1)]
    have "srv_ok (dom (rs_A rs)) srv"
      by (rule srv_loop_ok [OF h(2) e]) (use ep(4) h(3) in auto)
    from finalize_ok [OF this assms(2)] have "rs_SRV rs n = Some l \<longrightarrow> l \<noteq> [] \<and> sorted (map srv_Target l) \<and>
      (\<forall>r \<in> set l. rs_A rs (srv_Target r) \<noteq> None \<and> srv_Priority r = 0
         \<and> unat (srv_Weight r) = max 1 (100 div length l))"
      unfolding h(5) by blast
    moreover have "\<exists>ip \<in> set (get_list (rs_A rs) owner). ReverseName ip = Some rv" if "rs_PTR rs rv = Some owner"
      using ep(3) [of rv owner] that h(3,4) endpointOwnerName_neq [of ul _ ?sn] by (auto simp: ep(1))
    ultimately show ?thesis by blast
  next
    case False
    then obtain srv rv' where c: "srv_loop ul ?sn [?sn] (ss_Ports svc) Map.empty = Inr srv"
      "ReverseName (ss_ClusterIP svc) = Some rv'" "rs_A rs = [?sn \<mapsto> [ss_ClusterIP svc]]"
      "rs_PTR rs = [rv' \<mapsto> ?sn]" "rs_SRV rs = finalizeSRVWeights srt srv"
      using d by (auto simp: synthesizeClusterIP_def split: if_split_asm option.split_asm sum.split_asm)
    have "srv_ok (dom (rs_A rs)) srv"
      by (rule srv_loop_ok [OF c(1) e]) (simp add: c(3))
    from finalize_ok [OF this assms(2)] have "rs_SRV rs n = Some l \<longrightarrow> l \<noteq> [] \<and> sorted (map srv_Target l) \<and>
      (\<forall>r \<in> set l. rs_A rs (srv_Target r) \<noteq> None \<and> srv_Priority r = 0
         \<and> unat (srv_Weight r) = max 1 (100 div length l))"
      unfolding c(5) by blast
    moreover have "\<exists>ip \<in> set (get_list (rs_A rs) owner). ReverseName ip = Some rv" if "rs_PTR rs rv = Some owner"
      using that c(2-4) by (auto simp: get_list_def split: if_split_asm)
    ultimately show ?thesis by blast
  qed
qed

theorem synth_closed_witness:
  "\<exists>rs l. Synthesize (\<lambda>s. s) (sort_key srv_Target) ''cluster.local'' demo_svc demo_endpoints = Inr rs
     \<and> rs_SRV rs ''_sql._tcp.db.prod.svc.cluster.local'' = Some l
     \<and> (\<forall>r \<in> set l. rs_A rs (srv_Target r) \<noteq> None)"
proof -
  obtain rs l where r: "Synthesize (\<lambda>s. s) (sort_key srv_Target) ''cluster.local'' demo_svc demo_endpoints = Inr rs"
    "rs_SRV rs ''_sql._tcp.db.prod.svc.cluster.local'' = Some l"
    using demo_synth by auto
  from synth_closed [OF r(1) sorts_srv_sort_key] r show ?thesis by blast
qed

text \<open>C22. Readiness filter: the A record of a headless service lists, in address order and without
  duplicates, exactly the addresses of its ready endpoints, or of all endpoints when the service
  publishes not-ready addresses; a ClusterIP service has exactly its virtual address.\<close>

theorem synth_service_addresses:
  assumes "Synthesize ul srt clusterDomain svc eps = Inr rs" and "normalizeDomain ul clusterDomain = Some domain"
  shows "get_list (rs_A rs) (svc_name ul domain svc) =
    (if ss_Headless svc then sorted_list_of_set (published svc eps) else [ss_ClusterIP svc])"
proof -
  have d: "(if ss_Headless svc
      then synthesizeHeadless ul srt \<lparr>rs_A = Map.empty, rs_SRV = Map.empty, rs_PTR = Map.empty\<rparr> svc
             (svc_name ul domain svc) eps
      else synthesizeClusterIP ul srt \<lparr>rs_A = Map.empty, rs_SRV = Map.empty, rs_PTR = Map.empty\<rparr> svc
             (svc_name ul domain svc)) = Inr rs"
    using assms(2) Synthesize_cases [OF assms(1)] by (metis option.inject)
  let ?sn = "svc_name ul domain svc"
  show ?thesis
  proof (cases "ss_Headless svc")
    case True
    obtain inc rs1 where h: "map se_IP inc = sorted_list_of_set (published svc eps)"
      "endpoint_loop ul ?sn inc \<lparr>rs_A = Map.empty, rs_SRV = Map.empty, rs_PTR = Map.empty\<rparr> = Inr rs1"
      "rs_A rs = rs_A rs1"
      using d True by (auto elim: synthesizeHeadless_cases)
    show ?thesis using endpoint_loop_spec(1) [OF h(2), of ?sn] h(1,3) True by (simp add: get_list_def)
  next
    case False
    then show ?thesis
      using d by (auto simp: synthesizeClusterIP_def get_list_def split: if_split_asm option.split_asm sum.split_asm)
  qed
qed

theorem synth_service_addresses_witness:
  "\<exists>rs. Synthesize (\<lambda>s. s) (sort_key srv_Target) ''cluster.local'' demo_svc demo_endpoints = Inr rs
     \<and> get_list (rs_A rs) ''db.prod.svc.cluster.local'' = [IPv4 0x64400101, IPv4 0x64400102]"
proof -
  obtain rs where r: "Synthesize (\<lambda>s. s) (sort_key srv_Target) ''cluster.local'' demo_svc demo_endpoints = Inr rs"
    using demo_synth by auto
  have n: "normalizeDomain (\<lambda>s. s) ''cluster.local'' = Some ''cluster.local''" by code_simp
  have sn: "svc_name (\<lambda>s. s) ''cluster.local'' demo_svc = ''db.prod.svc.cluster.local''" by code_simp
  have h: "ss_Headless demo_svc" by (simp add: demo_svc_def)
  have p: "published demo_svc demo_endpoints = {IPv4 0x64400102, IPv4 0x64400101}"
    by (simp add: published_list demo_svc_def demo_endpoints_def)
  have "IPv4 0x64400101 \<le> IPv4 0x64400102" by code_simp
  then have "sorted_list_of_set (published demo_svc demo_endpoints) = [IPv4 0x64400101, IPv4 0x64400102]"
    unfolding p by (simp add: insort_key.simps)
  then show ?thesis using synth_service_addresses [OF r n] r h by (simp add: sn)
qed

end
