(* ===== verification/Resolver.thy ===== *)
theory Resolver
  imports DNSConfigs "HOL-Library.Sublist"
begin

text \<open>
  The reference resolver (\<^verbatim>\<open>pkg/dns/resolver.go\<close>): the walk over candidates, servers and attempts.

  The message codec is another module (\<^verbatim>\<open>golang.org/x/net/dns/dnsmessage\<close>): the record \<open>dnscodec\<close> of
  its functions is an argument. The network and the context are arguments too: \<open>ex\<close> gives the reply
  to an exchange and \<open>cx\<close> whether the context is done, both depending on everything exchanged so far
  (the log), so every behaviour of the network is covered. \<^verbatim>\<open>LookupHost\<close> also returns what the
  \<^verbatim>\<open>onCandidate\<close> callback is called with.
\<close>

section \<open>Data\<close>

datatype transport = udp | tcp

type_synonym exchange_log = "(transport \<times> nat \<times> bool) list"

type_synonym network = "exchange_log \<Rightarrow> transport \<Rightarrow> string \<Rightarrow> u8 list \<Rightarrow> u8 list option"

record dns_header =
  hd_ID :: u16
  hd_Response :: bool
  hd_Truncated :: bool
  hd_RCode :: nat

text \<open>What one round of the answer loop meets: a header that does not parse, a record of another
  type (and whether it can be skipped), an A record (and its address when it parses).\<close>

datatype answer_item = HeaderError | OtherRecord bool | ARecord "u32 option"

record 'nm dnscodec =
  cd_NewName :: "string \<Rightarrow> 'nm option"
  cd_SetEDNS0 :: bool
  cd_Pack :: "u16 \<Rightarrow> 'nm \<Rightarrow> u8 list option"
  cd_Start :: "u8 list \<Rightarrow> dns_header option"
  cd_SkipAllQuestions :: "u8 list \<Rightarrow> bool"
  cd_Answers :: "u8 list \<Rightarrow> answer_item list"

datatype query_error = errTransport | errQuery

datatype lookup_error = errEmptyName | ErrNotFound | ErrTempFail

record aResult =
  ar_addrs :: "addr list"
  ar_rcode :: nat

record Resolver =
  rv_cfg :: DNSConfig
  rv_servers :: "string list"
  rv_exclusive :: bool

definition queryAttempts :: nat where
  "queryAttempts = 2"

definition RCodeSuccess :: nat where
  "RCodeSuccess = 0"

definition RCodeNameError :: nat where
  "RCodeNameError = 3"

section \<open>One query\<close>

definition ensureFQDN :: "string \<Rightarrow> string" where
  "ensureFQDN name = (if name = [] \<or> last name = CHR ''.'' then name else name @ ''.'')"

definition dnsQueryID :: "string \<Rightarrow> u16" where
  "dnsQueryID name =
     (let h = foldl (\<lambda>h c. (h XOR word_of_nat (of_char c)) * 16777619) (2166136261 :: u32) name;
          id = ucast h in if id = 0 then 1 else id)"

fun answer_loop :: "answer_item list \<Rightarrow> addr list \<Rightarrow> addr list option" where
  "answer_loop [] acc = Some acc"
| "answer_loop (HeaderError # _) acc = None"
| "answer_loop (OtherRecord ok # items) acc = (if ok then answer_loop items acc else None)"
| "answer_loop (ARecord a # items) acc =
     (case a of None \<Rightarrow> None | Some w \<Rightarrow> answer_loop items (acc @ [IPv4 w]))"

definition parseAAddrs :: "'nm dnscodec \<Rightarrow> u8 list \<Rightarrow> u16 \<Rightarrow> (aResult \<times> bool) option" where
  "parseAAddrs cd resp wantID =
     (case cd_Start cd resp of
        None \<Rightarrow> None
      | Some hdr \<Rightarrow>
          if hd_ID hdr \<noteq> wantID then None
          else if \<not> hd_Response hdr then None
          else if \<not> cd_SkipAllQuestions cd resp then None
          else if hd_Truncated hdr then Some (\<lparr>ar_addrs = [], ar_rcode = hd_RCode hdr\<rparr>, True)
          else (case answer_loop (cd_Answers cd resp) [] of
                  None \<Rightarrow> None
                | Some as \<Rightarrow> Some (\<lparr>ar_addrs = as, ar_rcode = hd_RCode hdr\<rparr>, False)))"

text \<open>\<^verbatim>\<open>exchange\<close> records the server and whether a reply came; no reply is \<^const>\<open>errTransport\<close>.\<close>

definition exchange ::
  "network \<Rightarrow> transport \<Rightarrow> nat \<Rightarrow> string \<Rightarrow> u8 list \<Rightarrow> exchange_log \<Rightarrow> u8 list option \<times> exchange_log" where
  "exchange ex tr i server packed log =
     (let r = ex log tr server packed in (r, log @ [(tr, i, r \<noteq> None)]))"

definition queryA ::
  "'nm dnscodec \<Rightarrow> network \<Rightarrow> Resolver \<Rightarrow> nat \<Rightarrow> string \<Rightarrow> exchange_log
     \<Rightarrow> (query_error + aResult) \<times> exchange_log" where
  "queryA cd ex r i fqdn log =
     (case cd_NewName cd (ensureFQDN fqdn) of
        None \<Rightarrow> (Inr \<lparr>ar_addrs = [], ar_rcode = RCodeNameError\<rparr>, log)
      | Some name \<Rightarrow>
          if \<not> cd_SetEDNS0 cd then (Inl errQuery, log)
          else case cd_Pack cd (dnsQueryID fqdn) name of
            None \<Rightarrow> (Inr \<lparr>ar_addrs = [], ar_rcode = RCodeNameError\<rparr>, log)
          | Some packed \<Rightarrow>
              (case exchange ex udp i (rv_servers r ! i) packed log of
                 (None, log1) \<Rightarrow> (Inl errTransport, log1)
               | (Some resp, log1) \<Rightarrow>
                   (case parseAAddrs cd resp (dnsQueryID fqdn) of
                      None \<Rightarrow> (Inl errQuery, log1)
                    | Some (res, truncated) \<Rightarrow>
                        if \<not> truncated then (Inr res, log1)
                        else case exchange ex tcp i (rv_servers r ! i) packed log1 of
                          (None, log2) \<Rightarrow> (Inl errTransport, log2)
                        | (Some resp2, log2) \<Rightarrow>
                            (case parseAAddrs cd resp2 (dnsQueryID fqdn) of
                               None \<Rightarrow> (Inl errQuery, log2)
                             | Some (res2, still) \<Rightarrow>
                                 if still then (Inl errQuery, log2) else (Inr res2, log2)))))"

definition askServer ::
  "'nm dnscodec \<Rightarrow> network \<Rightarrow> Resolver \<Rightarrow> nat \<Rightarrow> string \<Rightarrow> exchange_log
     \<Rightarrow> (query_error + addr list) \<times> exchange_log" where
  "askServer cd ex r i fqdn log =
     (case queryA cd ex r i fqdn log of
        (Inl e, log1) \<Rightarrow> (Inl e, log1)
      | (Inr res, log1) \<Rightarrow>
          if ar_rcode res = RCodeSuccess \<or> ar_rcode res = RCodeNameError then (Inr (ar_addrs res), log1)
          else (Inl errQuery, log1))"

section \<open>One candidate\<close>

text \<open>The result None is an error that wraps \<^const>\<open>ErrTempFail\<close>.\<close>

fun single_loop ::
  "'nm dnscodec \<Rightarrow> network \<Rightarrow> (exchange_log \<Rightarrow> bool) \<Rightarrow> Resolver \<Rightarrow> string \<Rightarrow> nat \<Rightarrow> exchange_log
     \<Rightarrow> addr list option \<times> exchange_log" where
  "single_loop cd ex cx r fqdn 0 log = (None, log)"
| "single_loop cd ex cx r fqdn (Suc n) log =
     (if cx log then (None, log)
      else case askServer cd ex r 0 fqdn log of
        (Inr addrs, log1) \<Rightarrow> (Some addrs, log1)
      | (Inl _, log1) \<Rightarrow> single_loop cd ex cx r fqdn n log1)"

datatype walk = Answered "addr list" | CtxDone | Walked bool

text \<open>One attempt: the servers \<open>is\<close> still to visit, the memo of dead ones, whether one was live.\<close>

fun server_walk ::
  "'nm dnscodec \<Rightarrow> network \<Rightarrow> (exchange_log \<Rightarrow> bool) \<Rightarrow> Resolver \<Rightarrow> string \<Rightarrow> nat list \<Rightarrow> bool
     \<Rightarrow> bool list \<Rightarrow> exchange_log \<Rightarrow> walk \<times> bool list \<times> exchange_log" where
  "server_walk cd ex cx r fqdn [] live dead log = (Walked live, dead, log)"
| "server_walk cd ex cx r fqdn (i # is) live dead log =
     (if dead ! i then server_walk cd ex cx r fqdn is live dead log
      else if cx log then (CtxDone, dead, log)
      else case askServer cd ex r i fqdn log of
        (Inr addrs, log1) \<Rightarrow> (Answered addrs, dead, log1)
      | (Inl e, log1) \<Rightarrow>
          server_walk cd ex cx r fqdn is True (if e = errTransport then dead[i := True] else dead) log1)"

fun attempt_loop ::
  "'nm dnscodec \<Rightarrow> network \<Rightarrow> (exchange_log \<Rightarrow> bool) \<Rightarrow> Resolver \<Rightarrow> string \<Rightarrow> nat
     \<Rightarrow> bool list \<Rightarrow> exchange_log \<Rightarrow> addr list option \<times> bool list \<times> exchange_log" where
  "attempt_loop cd ex cx r fqdn 0 dead log = (None, dead, log)"
| "attempt_loop cd ex cx r fqdn (Suc n) dead log =
     (case server_walk cd ex cx r fqdn [0..<length (rv_servers r)] False dead log of
        (Answered addrs, dead1, log1) \<Rightarrow> (Some addrs, dead1, log1)
      | (CtxDone, dead1, log1) \<Rightarrow> (None, dead1, log1)
      | (Walked live, dead1, log1) \<Rightarrow>
          if \<not> live then (None, dead1, log1) else attempt_loop cd ex cx r fqdn n dead1 log1)"

definition queryCandidate ::
  "'nm dnscodec \<Rightarrow> network \<Rightarrow> (exchange_log \<Rightarrow> bool) \<Rightarrow> Resolver \<Rightarrow> string \<Rightarrow> bool list \<Rightarrow> exchange_log
     \<Rightarrow> addr list option \<times> bool list \<times> exchange_log" where
  "queryCandidate cd ex cx r fqdn dead log =
     (if length (rv_servers r) = 1
      then (case single_loop cd ex cx r fqdn queryAttempts log of (o1, log1) \<Rightarrow> (o1, dead, log1))
      else attempt_loop cd ex cx r fqdn queryAttempts dead log)"

section \<open>The lookup\<close>

definition Candidates :: "(DNSConfig \<Rightarrow> DNSConfig) \<Rightarrow> Resolver \<Rightarrow> string \<Rightarrow> string list" where
  "Candidates wd r name = candidateNames wd (rv_cfg r) name"

fun under_domain :: "string \<Rightarrow> string list \<Rightarrow> bool" where
  "under_domain name [] = False"
| "under_domain name (d0 # ds) =
     (let d = TrimSuffix d0 ''.'' in
      if d = [] then under_domain name ds
      else if name = d \<or> HasSuffix name (''.'' @ d) then True
      else under_domain name ds)"

definition isClusterCandidate :: "Resolver \<Rightarrow> string \<Rightarrow> bool" where
  "isClusterCandidate r fqdn =
     (if rv_exclusive r then True
      else let name = TrimSuffix fqdn ''.'' in
        if CHR ''.'' \<notin> set name then True
        else under_domain name (dc_ClusterDomain (rv_cfg r) # dc_SearchDomains (rv_cfg r)))"

type_synonym cand_log = "(string \<times> addr list option) list"

fun lookup_loop ::
  "'nm dnscodec \<Rightarrow> network \<Rightarrow> (exchange_log \<Rightarrow> bool) \<Rightarrow> Resolver \<Rightarrow> string list \<Rightarrow> bool \<Rightarrow> bool list
     \<Rightarrow> exchange_log \<Rightarrow> (lookup_error + addr list) \<times> cand_log \<times> exchange_log" where
  "lookup_loop cd ex cx r [] temp dead log = (Inl (if temp then ErrTempFail else ErrNotFound), [], log)"
| "lookup_loop cd ex cx r (fqdn # cands) temp dead log =
     (if temp \<and> isClusterCandidate r fqdn then lookup_loop cd ex cx r cands temp dead log
      else case queryCandidate cd ex cx r fqdn dead log of
        (None, dead1, log1) \<Rightarrow>
          if isClusterCandidate r fqdn
          then (case lookup_loop cd ex cx r cands True dead1 log1 of
                  (res, cl, log2) \<Rightarrow> (res, (fqdn, None) # cl, log2))
          else (Inl ErrNotFound, [(fqdn, None)], log1)
      | (Some addrs, dead1, log1) \<Rightarrow>
          if addrs \<noteq> [] then (Inr addrs, [(fqdn, Some addrs)], log1)
          else (case lookup_loop cd ex cx r cands temp dead1 log1 of
                  (res, cl, log2) \<Rightarrow> (res, (fqdn, Some []) # cl, log2)))"

definition LookupHost ::
  "'nm dnscodec \<Rightarrow> network \<Rightarrow> (exchange_log \<Rightarrow> bool) \<Rightarrow> (DNSConfig \<Rightarrow> DNSConfig) \<Rightarrow> Resolver \<Rightarrow> string
     \<Rightarrow> exchange_log \<Rightarrow> (lookup_error + addr list) \<times> cand_log \<times> exchange_log" where
  "LookupHost cd ex cx wd r name log =
     (let cands = Candidates wd r name in
      if cands = [] then (Inl errEmptyName, [], log)
      else lookup_loop cd ex cx r cands False (replicate (length (rv_servers r)) False) log)"

text \<open>\<^verbatim>\<open>NewResolver\<close>; \<open>vl\<close>, \<open>sv\<close> and \<open>wd\<close> are the methods Validate, Servers and WithDefaults of the
  configuration. \<^verbatim>\<open>net.JoinHostPort\<close> brackets hosts with a colon.\<close>

definition JoinHostPort :: "string \<Rightarrow> string \<Rightarrow> string" where
  "JoinHostPort host port =
     (if CHR '':'' \<in> set host then ''['' @ host @ '']:'' @ port else host @ '':'' @ port)"

datatype resolver_error = InvalidConfig string | NoUsableNameserver "string list"

definition NewResolver ::
  "(DNSConfig \<Rightarrow> string option) \<Rightarrow> (DNSConfig \<Rightarrow> string list) \<Rightarrow> (DNSConfig \<Rightarrow> DNSConfig) \<Rightarrow> DNSConfig
     \<Rightarrow> resolver_error + Resolver" where
  "NewResolver vl sv wd cfg =
     (case vl cfg of
        Some e \<Rightarrow> Inl (InvalidConfig e)
      | None \<Rightarrow>
          let exclusive = (dc_Policy cfg = DNSPolicyNone); (kept, dropped) = ipv4Servers sv cfg in
          if exclusive \<and> kept = [] then Inl (NoUsableNameserver dropped)
          else Inr \<lparr>rv_cfg = wd cfg,
                 rv_servers = map (\<lambda>s. JoinHostPort s ''53'') (if exclusive then kept else sv cfg),
                 rv_exclusive = exclusive\<rparr>)"

section \<open>The walk fails each server at most once\<close>

definition fails :: "nat \<Rightarrow> exchange_log \<Rightarrow> nat" where
  "fails i log = length (filter (\<lambda>(tr, j, ok). j = i \<and> \<not> ok) log)"

lemma askServer_fails:
  assumes "askServer cd ex r i fqdn log = (res, log')"
  shows "fails j log' = fails j log + (if j = i \<and> res = Inl errTransport then 1 else 0)"
  using assms
  by (auto simp: askServer_def queryA_def exchange_def Let_def fails_def
      split: option.split_asm prod.split_asm sum.split_asm if_split_asm)

definition dead_bound :: "exchange_log \<Rightarrow> nat \<Rightarrow> bool list \<Rightarrow> exchange_log \<Rightarrow> bool" where
  "dead_bound log0 n dead log \<longleftrightarrow> length dead = n \<and>
     (\<forall>j. fails j log \<le> fails j log0 + (if j < n \<and> dead ! j then 1 else 0))"

lemma dead_bound_ask:
  assumes "dead_bound log0 n dead log" and "i < n" and "\<not> dead ! i"
    and "askServer cd ex r i fqdn log = (res, log')"
  shows "dead_bound log0 n (if res = Inl errTransport then dead[i := True] else dead) log'"
  unfolding dead_bound_def
proof (intro conjI allI)
  show "length (if res = Inl errTransport then dead[i := True] else dead) = n"
    using assms(1) by (simp add: dead_bound_def)
  fix j
  have "fails j log \<le> fails j log0 + (if j < n \<and> dead ! j then 1 else 0)" "length dead = n"
    using assms(1) by (simp_all add: dead_bound_def)
  then show "fails j log' \<le> fails j log0
      + (if j < n \<and> (if res = Inl errTransport then dead[i := True] else dead) ! j then 1 else 0)"
    using assms(2,3) askServer_fails [OF assms(4), of j] by (auto simp: nth_list_update)
qed

lemma server_walk_bound:
  "server_walk cd ex cx r fqdn is live dead log = (w, dead', log') \<Longrightarrow> dead_bound log0 n dead log \<Longrightarrow>
    \<forall>i \<in> set is. i < n \<Longrightarrow> dead_bound log0 n dead' log'"
proof (induction "is" arbitrary: live dead log)
  case (Cons i "is")
  show ?case
  proof (cases "dead ! i \<or> cx log")
    case True
    then show ?thesis using Cons by (auto split: if_split_asm)
  next
    case False
    obtain res log1 where a: "askServer cd ex r i fqdn log = (res, log1)" by (cases "askServer cd ex r i fqdn log")
    have b: "dead_bound log0 n (if res = Inl errTransport then dead[i := True] else dead) log1"
      using dead_bound_ask [OF Cons.prems(2) _ _ a] Cons.prems(3) False by simp
    show ?thesis
    proof (cases res)
      case (Inl e)
      then show ?thesis using Cons.IH [OF _ b] Cons.prems(1,3) False a by simp
    next
      case (Inr x)
      then show ?thesis using b Cons.prems(1) False a by simp
    qed
  qed
qed simp

lemma attempt_loop_bound:
  "attempt_loop cd ex cx r fqdn k dead log = (o1, dead', log') \<Longrightarrow>
    dead_bound log0 (length (rv_servers r)) dead log \<Longrightarrow> dead_bound log0 (length (rv_servers r)) dead' log'"
proof (induction k arbitrary: dead log)
  case (Suc k)
  obtain w d1 l1 where s: "server_walk cd ex cx r fqdn [0..<length (rv_servers r)] False dead log = (w, d1, l1)"
    by (cases "server_walk cd ex cx r fqdn [0..<length (rv_servers r)] False dead log")
  have "dead_bound log0 (length (rv_servers r)) d1 l1"
    by (rule server_walk_bound [OF s Suc.prems(2)]) simp
  then show ?case using Suc s by (auto split: walk.split_asm if_split_asm)
qed simp

lemma lookup_loop_bound:
  "lookup_loop cd ex cx r cands temp dead log = (res, cl, log') \<Longrightarrow> length (rv_servers r) \<noteq> 1 \<Longrightarrow>
    dead_bound log0 (length (rv_servers r)) dead log \<Longrightarrow> fails j log' \<le> fails j log0 + 1"
proof (induction cands arbitrary: temp dead log cl)
  case Nil
  then have "fails j log' \<le> fails j log0 + (if j < length dead \<and> dead ! j then 1 else 0)"
    by (simp add: dead_bound_def)
  then show ?case by (simp split: if_split_asm)
next
  case (Cons c cands)
  obtain o1 d1 l1 where q: "queryCandidate cd ex cx r c dead log = (o1, d1, l1)"
    by (cases "queryCandidate cd ex cx r c dead log")
  then have b: "dead_bound log0 (length (rv_servers r)) d1 l1"
    using Cons.prems(2,3) attempt_loop_bound by (simp add: queryCandidate_def)
  then have f: "fails j l1 \<le> fails j log0 + 1" by (auto simp: dead_bound_def dest!: spec [of _ j] split: if_split_asm)
  show ?case
    using Cons.prems q f Cons.IH [OF _ Cons.prems(2) b] Cons.IH [OF _ Cons.prems(2,3)]
    by (auto split: if_split_asm option.split_asm prod.split_asm)
qed

section \<open>The outcome of a lookup\<close>

text \<open>The result as a function of the candidates' outcomes.\<close>

definition verdict :: "Resolver \<Rightarrow> bool \<Rightarrow> cand_log \<Rightarrow> lookup_error + addr list" where
  "verdict r temp cl =
     (if cl \<noteq> [] \<and> snd (last cl) \<noteq> None \<and> snd (last cl) \<noteq> Some [] then Inr (the (snd (last cl)))
      else if cl \<noteq> [] \<and> snd (last cl) = None \<and> \<not> isClusterCandidate r (fst (last cl)) then Inl ErrNotFound
      else if temp \<or> (\<exists>x \<in> set cl. snd x = None) then Inl ErrTempFail else Inl ErrNotFound)"

lemma verdict_Cons:
  "verdict r temp ((c, Some []) # cl) = verdict r temp cl"
  "isClusterCandidate r c \<Longrightarrow> verdict r temp ((c, None) # cl) = verdict r True cl"
  by (auto simp: verdict_def)

definition walk_ok :: "Resolver \<Rightarrow> bool \<Rightarrow> string list \<Rightarrow> cand_log \<Rightarrow> bool" where
  "walk_ok r temp cands cl \<longleftrightarrow> subseq (map fst cl) cands
     \<and> (temp \<longrightarrow> (\<forall>x \<in> set cl. \<not> isClusterCandidate r (fst x)))
     \<and> sorted_wrt (\<lambda>a b. snd a = None \<longrightarrow> \<not> isClusterCandidate r (fst b)) cl
     \<and> (\<forall>x \<in> set (butlast cl). snd x = Some [] \<or> snd x = None \<and> isClusterCandidate r (fst x))"

lemma lookup_loop_outcome:
  "lookup_loop cd ex cx r cands temp dead log = (res, cl, log') \<Longrightarrow>
    walk_ok r temp cands cl \<and> res = verdict r temp cl"
proof (induction cands arbitrary: temp dead log cl)
  case Nil
  then show ?case by (auto simp: walk_ok_def verdict_def)
next
  case (Cons c cands)
  obtain o1 d1 l1 where q: "queryCandidate cd ex cx r c dead log = (o1, d1, l1)"
    by (cases "queryCandidate cd ex cx r c dead log")
  let ?k = "isClusterCandidate r c"
  consider (skip) "temp" ?k "lookup_loop cd ex cx r cands temp dead log = (res, cl, log')"
    | (temp) cl' where "\<not> (temp \<and> ?k)" ?k "cl = (c, None) # cl'"
        "lookup_loop cd ex cx r cands True d1 l1 = (res, cl', log')"
    | (ext) "\<not> (temp \<and> ?k)" "\<not> ?k" "cl = [(c, None)]" "res = Inl ErrNotFound"
    | (hit) a as where "\<not> (temp \<and> ?k)" "cl = [(c, Some (a # as))]" "res = Inr (a # as)"
    | (miss) cl' where "\<not> (temp \<and> ?k)" "cl = (c, Some []) # cl'"
        "lookup_loop cd ex cx r cands temp d1 l1 = (res, cl', log')"
    using Cons.prems q
    by (cases o1; cases "the o1") (auto split: if_split_asm prod.split_asm)
  then show ?case
  proof cases
    case skip
    then show ?thesis using Cons.IH [OF skip(3)] by (auto simp: walk_ok_def)
  next
    case temp
    then show ?thesis using Cons.IH [OF temp(4)] by (auto simp: walk_ok_def verdict_Cons)
  next
    case ext
    then show ?thesis by (simp add: walk_ok_def verdict_def)
  next
    case hit
    then show ?thesis by (auto simp: walk_ok_def verdict_def)
  next
    case miss
    then show ?thesis using Cons.IH [OF miss(3)] by (auto simp: walk_ok_def verdict_Cons)
  qed
qed

section \<open>A concrete resolver\<close>

text \<open>Two servers, the first of which never answers; messages are single bytes.\<close>

definition demo_codec :: "unit dnscodec" where
  "demo_codec = \<lparr>cd_NewName = (\<lambda>_. Some ()), cd_SetEDNS0 = True, cd_Pack = (\<lambda>id _. Some [1]),
     cd_Start = (\<lambda>_. Some \<lparr>hd_ID = dnsQueryID ''web'', hd_Response = True, hd_Truncated = False, hd_RCode = 0\<rparr>),
     cd_SkipAllQuestions = (\<lambda>_. True), cd_Answers = (\<lambda>_. [OtherRecord True, ARecord (Some 7)])\<rparr>"

definition demo_net :: network where
  "demo_net log tr server packed = (if server = ''10.0.0.1:53'' then None else Some [2])"

definition demo_resolver :: Resolver where
  "demo_resolver = \<lparr>rv_cfg = \<lparr>dc_Policy = DNSPolicyNone, dc_ClusterDNSIP = [], dc_ClusterDomain = [],
       dc_SearchDomains = [], dc_NDots = 1, dc_Options = []\<rparr>,
     rv_servers = [''10.0.0.1:53'', ''10.0.0.2:53''], rv_exclusive = True\<rparr>"

lemma demo_lookup:
  "LookupHost demo_codec demo_net (\<lambda>_. False) (\<lambda>c. c) demo_resolver ''web'' []
     = (Inr [IPv4 7], [(''web'', Some [IPv4 7])], [(udp, 0, False), (udp, 1, True)])"
  by code_simp

section \<open>Properties\<close>



text \<open>C39. A lookup with several nameservers costs at most one transport failure per server, however
  many candidates the name expands to.\<close>

theorem lookup_fails_once:
  assumes "LookupHost cd ex cx wd r name log = (res, cl, log')" and "length (rv_servers r) \<noteq> 1"
  shows "fails j log' \<le> fails j log + 1"
proof -
  have b: "dead_bound log (length (rv_servers r)) (replicate (length (rv_servers r)) False) log"
    by (simp add: dead_bound_def)
  show ?thesis
    using assms lookup_loop_bound [OF _ assms(2) b] by (auto simp: LookupHost_def Let_def split: if_split_asm)
qed

theorem lookup_fails_once_witness:
  "fails 0 [(udp, 0, False), (udp, 1, True)] \<le> fails 0 [] + 1"
  by (rule lookup_fails_once [OF demo_lookup]) (simp add: demo_resolver_def)

end
