(* ===== verification/Routing.thy ===== *)
theory Routing
  imports Netip "HOL-Library.Product_Lexorder"
begin

text \<open>
  The service proxy's routing table (\<^verbatim>\<open>pkg/proxy/routing.go\<close>, \<^verbatim>\<open>affinity.go\<close>): the ready backends of
  every service port, the pick of a backend by round robin or by client affinity, and the
  generation bookkeeping of drop warnings.

  The code publishes an immutable snapshot through an atomic pointer. A port state is reached by
  pointer: \<open>ps_ref\<close> is its identity, and its mutable counters are kept per identity in the table.
  \<^verbatim>\<open>netv1.Endpoint\<close> belongs to another module; its method \<^verbatim>\<open>Validate\<close> is the argument \<open>vl\<close>. Times are
  nanoseconds (\<^typ>\<open>int\<close>). Logging and the observer callback are left out.
\<close>

section \<open>Data\<close>

datatype Locality = LocalityUnknown | LocalityLocal | LocalityRemote | LocalityNode | LocalityNodeRouted

datatype trafficPolicy = trafficCluster | trafficLocal

datatype affinityMode = affinityNone | affinityClientIP

record backend =
  be_addr :: addrport
  be_locality :: Locality

record Endpoint =
  ep_IP :: string
  ep_Port :: int
  ep_Ready :: bool

record PortKey =
  pk_ClusterIP :: string
  pk_Port :: int
  pk_Protocol :: string

record serviceRef =
  sr_Namespace :: string
  sr_Name :: string

record affinityConfig =
  ac_mode :: affinityMode
  ac_timeout :: int

record affinityBinding =
  ab_backend :: backend
  ab_lastSeen :: int

record VMPodTransport =
  tr_Live :: addr
  tr_Ports :: "u16 list"

record keyMeta =
  km_namespace :: string
  km_name :: string
  km_gen :: u64
  km_policy :: trafficPolicy
  km_dropWarned :: u64
  km_lastDropWarn :: int

record portState =
  ps_ref :: nat
  ps_all :: "backend list"
  ps_locals :: "backend list"
  ps_policy :: trafficPolicy
  ps_affinityMode :: affinityMode
  ps_affinityTimeout :: int
  ps_allSet :: "addrport set"
  ps_localSet :: "addrport set"
  ps_gen :: u64
  ps_meta :: nat

record routingSnapshot =
  sn_states :: "PortKey \<Rightarrow> portState option"
  sn_transport :: "addr \<Rightarrow> VMPodTransport option"
  sn_transportGen :: u64

type_synonym bindings = "addr \<Rightarrow> affinityBinding option"

record RoutingTable =
  rt_podCIDR :: prefix
  rt_nodeAddr :: addr
  rt_clusterCIDR :: prefix
  rt_snap :: routingSnapshot
  rt_meta :: "PortKey \<Rightarrow> nat option"
  rt_metas :: "nat \<Rightarrow> keyMeta"
  rt_nextRef :: nat
  rt_cursor :: "nat \<Rightarrow> u64"
  rt_warned :: "nat \<Rightarrow> bool"
  rt_affinity :: "PortKey \<Rightarrow> bindings option"
  rt_affinityCount :: int
  rt_maxAffinityPerPort :: int
  rt_maxAffinityTotal :: int
  rt_affinityWarned :: bool

datatype route_error = ErrNoBackends | ErrNoLocalBackends

definition affinityDefaultTimeout :: int where
  "affinityDefaultTimeout = 3 * 3600 * 1000000000"

definition maxAffinityBindingsPerPort :: int where
  "maxAffinityBindingsPerPort = 8192"

definition maxAffinityBindingsTotal :: int where
  "maxAffinityBindingsTotal = 8 * maxAffinityBindingsPerPort"

definition dropWarnFloor :: int where
  "dropWarnFloor = 10 * 1000000000"

section \<open>The snapshot\<close>

definition withState :: "routingSnapshot \<Rightarrow> PortKey \<Rightarrow> portState option \<Rightarrow> routingSnapshot" where
  "withState s key st = s\<lparr>sn_states := (sn_states s)(key := st)\<rparr>"

definition withTransport ::
  "routingSnapshot \<Rightarrow> (addr \<Rightarrow> VMPodTransport option) \<Rightarrow> routingSnapshot" where
  "withTransport s m = s\<lparr>sn_transport := m, sn_transportGen := sn_transportGen s + 1\<rparr>"

text \<open>The zero key meta, for identities that were never stored.\<close>

definition no_meta :: keyMeta where
  "no_meta = \<lparr>km_namespace = [], km_name = [], km_gen = 0, km_policy = trafficCluster,
     km_dropWarned = 0, km_lastDropWarn = 0\<rparr>"

definition NewRoutingTable :: "prefix \<Rightarrow> RoutingTable" where
  "NewRoutingTable podCIDR =
     \<lparr>rt_podCIDR = podCIDR, rt_nodeAddr = NoAddr, rt_clusterCIDR = NoPrefix,
      rt_snap = \<lparr>sn_states = Map.empty, sn_transport = Map.empty, sn_transportGen = 0\<rparr>,
      rt_meta = Map.empty, rt_metas = (\<lambda>_. no_meta), rt_nextRef = 0,
      rt_cursor = (\<lambda>_. 0), rt_warned = (\<lambda>_. False), rt_affinity = Map.empty, rt_affinityCount = 0,
      rt_maxAffinityPerPort = maxAffinityBindingsPerPort,
      rt_maxAffinityTotal = maxAffinityBindingsTotal, rt_affinityWarned = False\<rparr>"

section \<open>Installing endpoints\<close>

definition nodeLocal :: "Locality \<Rightarrow> bool" where
  "nodeLocal l \<longleftrightarrow> l = LocalityLocal \<or> l = LocalityNode"

definition classify :: "RoutingTable \<Rightarrow> addr \<Rightarrow> Locality" where
  "classify t a0 =
     (if \<not> prefix_IsValid (rt_podCIDR t) then LocalityUnknown
      else let a = Unmap a0 in
        if prefix_Contains (rt_podCIDR t) a then LocalityLocal
        else if IsValid (rt_nodeAddr t) \<and> a = Unmap (rt_nodeAddr t) then LocalityNode
        else if prefix_IsValid (rt_clusterCIDR t) \<and> IsValid a
          \<and> \<not> prefix_Contains (rt_clusterCIDR t) a \<and> \<not> IsLoopback a then LocalityNodeRouted
        else LocalityRemote)"

definition admitEndpoint :: "(Endpoint \<Rightarrow> bool) \<Rightarrow> Endpoint \<Rightarrow> addrport option" where
  "admitEndpoint vl ep =
     (if \<not> ep_Ready ep then None
      else if \<not> vl ep then None
      else case ParseAddr (ep_IP ep) of
        None \<Rightarrow> None
      | Some a \<Rightarrow> Some (AddrPortFrom a (word_of_int (ep_Port ep))))"

fun ready_backends :: "(Endpoint \<Rightarrow> bool) \<Rightarrow> RoutingTable \<Rightarrow> Endpoint list \<Rightarrow> backend list" where
  "ready_backends vl t [] = []"
| "ready_backends vl t (ep # eps) =
     (case admitEndpoint vl ep of
        None \<Rightarrow> ready_backends vl t eps
      | Some ap \<Rightarrow>
          \<lparr>be_addr = ap, be_locality = classify t (ap_addr ap)\<rparr> # ready_backends vl t eps)"

definition be_key :: "backend \<Rightarrow> addr \<times> u16" where
  "be_key b = (ap_addr (be_addr b), ap_port (be_addr b))"

definition sameAddrSet :: "addrport set \<Rightarrow> backend list \<Rightarrow> bool" where
  "sameAddrSet s bs \<longleftrightarrow> list_all (\<lambda>b. be_addr b \<in> s) bs \<and> card (be_addr ` set bs) = card s"

definition sameInstall ::
  "portState option \<Rightarrow> trafficPolicy \<Rightarrow> backend list \<Rightarrow> backend list \<Rightarrow> trafficPolicy \<Rightarrow> bool" where
  "sameInstall prev prevPolicy ready locals policy =
     (if policy \<noteq> prevPolicy then False
      else case prev of
        None \<Rightarrow> ready = []
      | Some st \<Rightarrow> sameAddrSet (ps_allSet st) ready \<and> sameAddrSet (ps_localSet st) locals)"

text \<open>\<^verbatim>\<open>advanceMeta\<close> returns the identity of the key's meta and the table with it updated.\<close>

definition advanceMeta ::
  "RoutingTable \<Rightarrow> PortKey \<Rightarrow> serviceRef \<Rightarrow> backend list \<Rightarrow> backend list \<Rightarrow> trafficPolicy
     \<Rightarrow> nat \<times> RoutingTable" where
  "advanceMeta t key svc ready locals policy =
     (let fresh = (\<lambda>gen lastWarn.
            (rt_nextRef t, t\<lparr>rt_metas := (rt_metas t)(rt_nextRef t :=
               \<lparr>km_namespace = sr_Namespace svc, km_name = sr_Name svc, km_gen = gen + 1,
                km_policy = policy, km_dropWarned = 0, km_lastDropWarn = lastWarn\<rparr>),
               rt_meta := (rt_meta t)(key \<mapsto> rt_nextRef t), rt_nextRef := rt_nextRef t + 1\<rparr>)) in
      case rt_meta t key of
        None \<Rightarrow> fresh 0 0
      | Some r \<Rightarrow>
          let m = rt_metas t r in
          if km_namespace m \<noteq> sr_Namespace svc \<or> km_name m \<noteq> sr_Name svc
          then fresh (km_gen m) (km_lastDropWarn m)
          else let gen = (if \<not> sameInstall (sn_states (rt_snap t) key) (km_policy m) ready locals policy
                          then km_gen m + 1 else km_gen m) in
            (r, t\<lparr>rt_metas := (rt_metas t)(r := m\<lparr>km_gen := gen, km_policy := policy\<rparr>)\<rparr>))"

definition binding_count :: "bindings option \<Rightarrow> int" where
  "binding_count b = (case b of None \<Rightarrow> 0 | Some m \<Rightarrow> int (card (dom m)))"

definition dropAffinity :: "PortKey \<Rightarrow> RoutingTable \<Rightarrow> RoutingTable" where
  "dropAffinity key t =
     t\<lparr>rt_affinityCount := rt_affinityCount t - binding_count (rt_affinity t key),
       rt_affinity := (rt_affinity t)(key := None)\<rparr>"

definition purgeAffinity :: "PortKey \<Rightarrow> RoutingTable \<Rightarrow> RoutingTable" where
  "purgeAffinity key t = dropAffinity key t"

definition rt_store :: "routingSnapshot \<Rightarrow> RoutingTable \<Rightarrow> RoutingTable" where
  "rt_store s t = t\<lparr>rt_snap := s\<rparr>"

text \<open>
  \<^verbatim>\<open>installEndpoints\<close> in its two halves: up to the store of the new snapshot (under \<^verbatim>\<open>mu\<close>), with
  whether a purge follows, and the purge of the key's bindings (under \<^verbatim>\<open>affMu\<close>). A pick may run in
  between.
\<close>

definition install_store ::
  "(Endpoint \<Rightarrow> bool) \<Rightarrow> PortKey \<Rightarrow> serviceRef \<Rightarrow> Endpoint list \<Rightarrow> trafficPolicy \<Rightarrow> affinityConfig
     \<Rightarrow> RoutingTable \<Rightarrow> nat \<times> bool \<times> RoutingTable" where
  "install_store vl key svc eps policy aff t =
     (let ready = sort_key be_key (ready_backends vl t eps);
          locals = filter (\<lambda>b. nodeLocal (be_locality b)) ready;
          timeout = (if ac_mode aff = affinityClientIP \<and> ac_timeout aff \<le> 0
                     then affinityDefaultTimeout else ac_timeout aff);
          (m, t1) = advanceMeta t key svc ready locals policy in
      if ready = [] then (0, True, rt_store (withState (rt_snap t1) key None) t1)
      else
        (length ready, ac_mode aff \<noteq> affinityClientIP,
         rt_store (withState (rt_snap t1) key (Some
           \<lparr>ps_ref = rt_nextRef t1, ps_all = ready, ps_locals = locals, ps_policy = policy,
            ps_affinityMode = ac_mode aff, ps_affinityTimeout = timeout,
            ps_allSet = be_addr ` set ready, ps_localSet = be_addr ` set locals,
            ps_gen = km_gen (rt_metas t1 m), ps_meta = m\<rparr>))
           (t1\<lparr>rt_nextRef := rt_nextRef t1 + 1,
               rt_cursor := (rt_cursor t1)(rt_nextRef t1 := 0),
               rt_warned := (rt_warned t1)(rt_nextRef t1 := False)\<rparr>)))"

definition installEndpoints ::
  "(Endpoint \<Rightarrow> bool) \<Rightarrow> PortKey \<Rightarrow> serviceRef \<Rightarrow> Endpoint list \<Rightarrow> trafficPolicy \<Rightarrow> affinityConfig
     \<Rightarrow> RoutingTable \<Rightarrow> nat \<times> RoutingTable" where
  "installEndpoints vl key svc eps policy aff t =
     (case install_store vl key svc eps policy aff t of
        (n, purge, t') \<Rightarrow> (n, if purge then purgeAffinity key t' else t'))"

definition SetEndpointsPolicy ::
  "(Endpoint \<Rightarrow> bool) \<Rightarrow> PortKey \<Rightarrow> Endpoint list \<Rightarrow> trafficPolicy \<Rightarrow> affinityConfig
     \<Rightarrow> RoutingTable \<Rightarrow> nat \<times> RoutingTable" where
  "SetEndpointsPolicy vl key eps policy aff t =
     installEndpoints vl key \<lparr>sr_Namespace = [], sr_Name = []\<rparr> eps policy aff t"

definition SetEndpoints ::
  "(Endpoint \<Rightarrow> bool) \<Rightarrow> PortKey \<Rightarrow> Endpoint list \<Rightarrow> RoutingTable \<Rightarrow> nat \<times> RoutingTable" where
  "SetEndpoints vl key eps t =
     SetEndpointsPolicy vl key eps trafficCluster \<lparr>ac_mode = affinityNone, ac_timeout = 0\<rparr> t"

definition delete_store :: "PortKey \<Rightarrow> RoutingTable \<Rightarrow> RoutingTable" where
  "delete_store key t = rt_store (withState (rt_snap t) key None) t"

definition rt_Delete :: "PortKey \<Rightarrow> RoutingTable \<Rightarrow> RoutingTable" where
  "rt_Delete key t =
     (let t' = purgeAffinity key (delete_store key t) in t'\<lparr>rt_meta := (rt_meta t')(key := None)\<rparr>)"

section \<open>Transport overrides\<close>

definition normalizePorts :: "u16 list \<Rightarrow> u16 list" where
  "normalizePorts ports = sort_compact (filter (\<lambda>p. p \<noteq> 0) ports)"

text \<open>The overrides are given as the list of the map's entries in the order the loop visits them.\<close>

definition override_entries ::
  "(addr \<times> VMPodTransport) list \<Rightarrow> (addr \<Rightarrow> VMPodTransport option) \<Rightarrow> addr \<Rightarrow> VMPodTransport option" where
  "override_entries es acc =
     foldl (\<lambda>next (published, tr).
       if \<not> IsValid published \<or> \<not> IsValid (tr_Live tr) then next
       else next(Unmap published \<mapsto>
         \<lparr>tr_Live = Unmap (tr_Live tr), tr_Ports = normalizePorts (tr_Ports tr)\<rparr>)) acc es"

definition SetTransportOverrides :: "(addr \<times> VMPodTransport) list \<Rightarrow> RoutingTable \<Rightarrow> RoutingTable" where
  "SetTransportOverrides es t =
     rt_store (withTransport (rt_snap t) (override_entries es Map.empty)) t"

definition transportAddr :: "RoutingTable \<Rightarrow> addrport \<Rightarrow> addrport" where
  "transportAddr t published =
     (case sn_transport (rt_snap t) (Unmap (ap_addr published)) of
        None \<Rightarrow> published
      | Some tr \<Rightarrow> AddrPortFrom (tr_Live tr) (ap_port published))"

section \<open>Picking a backend\<close>

text \<open>The result is the pool and the set of its addresses; the table changes only in the flag that a
  degraded policy was logged.\<close>

definition activePool ::
  "RoutingTable \<Rightarrow> portState \<Rightarrow> bool \<Rightarrow> (route_error + backend list \<times> addrport set) \<times> RoutingTable" where
  "activePool t st external =
     (if external then (Inr (ps_all st, ps_allSet st), t)
      else if ps_policy st = trafficLocal then
        if prefix_IsValid (rt_podCIDR t) then
          if ps_locals st = [] then (Inl ErrNoLocalBackends, t)
          else (Inr (ps_locals st, ps_localSet st), t)
        else (Inr (ps_all st, ps_allSet st), t\<lparr>rt_warned := (rt_warned t)(ps_ref st := True)\<rparr>)
      else (Inr (ps_all st, ps_allSet st), t))"

text \<open>\<^verbatim>\<open>scoped\<close> reads the snapshot \<open>s\<close> current at its load.\<close>

definition scoped ::
  "RoutingTable \<Rightarrow> routingSnapshot \<Rightarrow> PortKey \<Rightarrow> bool
     \<Rightarrow> (route_error + portState \<times> backend list \<times> addrport set) \<times> RoutingTable" where
  "scoped t s key external =
     (case sn_states s key of
        None \<Rightarrow> (Inl ErrNoBackends, t)
      | Some st \<Rightarrow>
          if ps_all st = [] then (Inl ErrNoBackends, t)
          else case activePool t st external of
            (Inl e, t') \<Rightarrow> (Inl e, t')
          | (Inr (pool, aset), t') \<Rightarrow>
              if pool = [] then (Inl ErrNoBackends, t') else (Inr (st, pool, aset), t'))"

text \<open>\<^verbatim>\<open>roundRobin\<close> on a non-empty pool: the counter is 64 bits and wraps.\<close>

definition roundRobin :: "RoutingTable \<Rightarrow> portState \<Rightarrow> backend list \<Rightarrow> backend \<times> RoutingTable" where
  "roundRobin t st pool =
     (let c = rt_cursor t (ps_ref st) + 1 in
      (pool ! (unat (c - 1) mod length pool), t\<lparr>rt_cursor := (rt_cursor t)(ps_ref st := c)\<rparr>))"

definition Pick :: "RoutingTable \<Rightarrow> PortKey \<Rightarrow> (route_error + backend) \<times> RoutingTable" where
  "Pick t key =
     (case scoped t (rt_snap t) key False of
        (Inl e, t') \<Rightarrow> (Inl e, t')
      | (Inr (st, pool, _), t') \<Rightarrow> (case roundRobin t' st pool of (b, t'') \<Rightarrow> (Inr b, t'')))"

definition PickAt :: "RoutingTable \<Rightarrow> PortKey \<Rightarrow> u64 \<Rightarrow> route_error + backend" where
  "PickAt t key i =
     (case sn_states (rt_snap t) key of
        None \<Rightarrow> Inl ErrNoBackends
      | Some st \<Rightarrow>
          if ps_all st = [] then Inl ErrNoBackends
          else Inr (ps_all st ! (unat i mod length (ps_all st))))"

definition Backends :: "RoutingTable \<Rightarrow> PortKey \<Rightarrow> backend list" where
  "Backends t key = (case sn_states (rt_snap t) key of None \<Rightarrow> [] | Some st \<Rightarrow> ps_all st)"

definition rt_Len :: "RoutingTable \<Rightarrow> PortKey \<Rightarrow> nat" where
  "rt_Len t key = (case sn_states (rt_snap t) key of None \<Rightarrow> 0 | Some st \<Rightarrow> length (ps_all st))"

section \<open>Drop warnings\<close>

text \<open>\<^verbatim>\<open>claimDropWarn\<close>, run without a concurrent claim: the compare-and-swap loops succeed at once.\<close>

definition claimDropWarn :: "keyMeta \<Rightarrow> u64 \<Rightarrow> int \<Rightarrow> bool \<times> keyMeta" where
  "claimDropWarn m gen now =
     (if km_lastDropWarn m \<noteq> 0 \<and> now - km_lastDropWarn m < dropWarnFloor then (False, m)
      else if gen \<le> km_dropWarned m then (False, m)
      else (True, m\<lparr>km_dropWarned := gen, km_lastDropWarn := now\<rparr>))"

definition warnDrop :: "RoutingTable \<Rightarrow> PortKey \<Rightarrow> int \<Rightarrow> bool \<times> RoutingTable" where
  "warnDrop t key now =
     (let src = (case sn_states (rt_snap t) key of
                   Some st \<Rightarrow> Some (ps_meta st, ps_gen st)
                 | None \<Rightarrow> map_option (\<lambda>r. (r, km_gen (rt_metas t r))) (rt_meta t key)) in
      case src of
        None \<Rightarrow> (False, t)
      | Some (r, gen) \<Rightarrow>
          (case claimDropWarn (rt_metas t r) gen now of
             (ok, m') \<Rightarrow> (ok, t\<lparr>rt_metas := (rt_metas t)(r := m')\<rparr>)))"

section \<open>The invariant of the table\<close>

definition state_ok :: "RoutingTable \<Rightarrow> portState \<Rightarrow> bool" where
  "state_ok t st \<longleftrightarrow>
     ps_all st \<noteq> [] \<and> sorted (map be_key (ps_all st))
     \<and> ps_locals st = filter (\<lambda>b. nodeLocal (be_locality b)) (ps_all st)
     \<and> ps_allSet st = be_addr ` set (ps_all st) \<and> ps_localSet st = be_addr ` set (ps_locals st)
     \<and> (\<forall>b \<in> set (ps_all st). be_locality b = classify t (ap_addr (be_addr b)))
     \<and> ps_ref st < rt_nextRef t \<and> ps_meta st < rt_nextRef t"

definition same_node :: "RoutingTable \<Rightarrow> RoutingTable \<Rightarrow> bool" where
  "same_node t t' \<longleftrightarrow> rt_podCIDR t' = rt_podCIDR t \<and> rt_nodeAddr t' = rt_nodeAddr t
     \<and> rt_clusterCIDR t' = rt_clusterCIDR t \<and> rt_nextRef t \<le> rt_nextRef t'
     \<and> rt_maxAffinityPerPort t' = rt_maxAffinityPerPort t
     \<and> rt_maxAffinityTotal t' = rt_maxAffinityTotal t"

definition table_ok :: "RoutingTable \<Rightarrow> bool" where
  "table_ok t \<longleftrightarrow>
     (\<forall>key st. sn_states (rt_snap t) key = Some st \<longrightarrow> state_ok t st)
     \<and> (\<forall>key key' st st'. sn_states (rt_snap t) key = Some st \<and> sn_states (rt_snap t) key' = Some st'
          \<and> ps_ref st = ps_ref st' \<longrightarrow> key = key')
     \<and> (\<forall>key r. rt_meta t key = Some r \<longrightarrow> r < rt_nextRef t)"

lemma same_node_refl [simp]: "same_node t t"
  by (simp add: same_node_def)

lemma same_node_trans: "same_node t u \<Longrightarrow> same_node u v \<Longrightarrow> same_node t v"
  by (auto simp: same_node_def)

lemma classify_same_node: "same_node t t' \<Longrightarrow> classify t' a = classify t a"
  by (simp add: same_node_def classify_def Let_def)

lemma state_ok_same_node: "same_node t t' \<Longrightarrow> state_ok t st \<Longrightarrow> state_ok t' st"
  by (auto simp: state_ok_def classify_same_node same_node_def)

lemma table_okD:
  assumes "table_ok t"
  shows "sn_states (rt_snap t) key = Some st \<Longrightarrow> state_ok t st"
    and "sn_states (rt_snap t) key = Some st \<Longrightarrow> sn_states (rt_snap t) key' = Some st' \<Longrightarrow>
      ps_ref st = ps_ref st' \<Longrightarrow> key = key'"
    and "rt_meta t key = Some r \<Longrightarrow> r < rt_nextRef t"
  using assms unfolding table_ok_def by blast+

text \<open>A change that keeps the states and the metas keeps the invariant.\<close>

lemma table_ok_frame:
  assumes "table_ok t" and "same_node t t'"
    and "\<And>key st. sn_states (rt_snap t') key = Some st \<Longrightarrow> sn_states (rt_snap t) key = Some st"
    and "\<And>key r. rt_meta t' key = Some r \<Longrightarrow> rt_meta t key = Some r \<or> r < rt_nextRef t'"
  shows "table_ok t'"
  unfolding table_ok_def
proof (intro conjI allI impI)
  fix key st assume "sn_states (rt_snap t') key = Some st"
  then show "state_ok t' st"
    using assms(3) table_okD(1) [OF assms(1)] state_ok_same_node [OF assms(2)] by blast
next
  fix key key' st st'
  assume "sn_states (rt_snap t') key = Some st \<and> sn_states (rt_snap t') key' = Some st'
    \<and> ps_ref st = ps_ref st'"
  then show "key = key'" using assms(3) table_okD(2) [OF assms(1)] by blast
next
  fix key r assume "rt_meta t' key = Some r"
  then have "r < rt_nextRef t \<or> r < rt_nextRef t'" using assms(4) table_okD(3) [OF assms(1)] by blast
  then show "r < rt_nextRef t'" using assms(2) by (auto simp: same_node_def)
qed

lemma table_ok_withState_None:
  assumes "table_ok t"
  shows "table_ok (t\<lparr>rt_snap := withState (rt_snap t) key None\<rparr>)"
  using assms by (rule table_ok_frame) (auto simp: withState_def same_node_def split: if_splits)

lemma table_ok_withState_Some:
  assumes "table_ok t" and "state_ok t' st" and "same_node t t'" and "rt_snap t' = withState (rt_snap t) key (Some st)"
    and "ps_ref st = rt_nextRef t" and "rt_meta t' = rt_meta t"
  shows "table_ok t'"
proof -
  have fresh: "\<And>k s. sn_states (rt_snap t) k = Some s \<Longrightarrow> ps_ref s \<noteq> ps_ref st"
    using table_okD(1) [OF assms(1)] assms(5) by (fastforce simp: state_ok_def)
  show ?thesis
    unfolding table_ok_def assms(4,6)
  proof (intro conjI allI impI)
    fix k s assume "sn_states (withState (rt_snap t) key (Some st)) k = Some s"
    then show "state_ok t' s"
      using assms(2) table_okD(1) [OF assms(1)] state_ok_same_node [OF assms(3)]
      by (auto simp: withState_def split: if_splits)
  next
    fix k k' s s'
    assume "sn_states (withState (rt_snap t) key (Some st)) k = Some s
      \<and> sn_states (withState (rt_snap t) key (Some st)) k' = Some s' \<and> ps_ref s = ps_ref s'"
    then show "k = k'"
      using fresh table_okD(2) [OF assms(1)] by (fastforce simp: withState_def split: if_splits)
  next
    fix k r assume "rt_meta t k = Some r"
    then show "r < rt_nextRef t'"
      using table_okD(3) [OF assms(1)] assms(3) by (fastforce simp: same_node_def)
  qed
qed

lemma advanceMeta_frame:
  assumes "advanceMeta t key svc ready locals policy = (m, t1)"
  shows "same_node t t1" "rt_snap t1 = rt_snap t" "rt_affinity t1 = rt_affinity t"
    "rt_affinityCount t1 = rt_affinityCount t" "rt_cursor t1 = rt_cursor t"
    "rt_maxAffinityPerPort t1 = rt_maxAffinityPerPort t"
    "rt_maxAffinityTotal t1 = rt_maxAffinityTotal t"
  using assms
  by (auto simp: advanceMeta_def Let_def same_node_def split: option.splits if_splits)

lemma advanceMeta_ok:
  assumes "table_ok t" and "advanceMeta t key svc ready locals policy = (m, t1)"
  shows "table_ok t1" "m < rt_nextRef t1"
proof -
  note fr = advanceMeta_frame [OF assms(2)]
  have meta: "rt_meta t1 k = Some r \<Longrightarrow> r < rt_nextRef t1" for k r
    using assms(2) table_okD(3) [OF assms(1)]
    by (fastforce simp: advanceMeta_def Let_def split: option.splits if_splits)
  show "table_ok t1"
    by (rule table_ok_frame [OF assms(1)]) (use fr meta in auto)
  show "m < rt_nextRef t1"
    using assms(2) table_okD(3) [OF assms(1)]
    by (fastforce simp: advanceMeta_def Let_def split: option.splits if_splits)
qed

lemma ready_backends_classified:
  "b \<in> set (ready_backends vl t eps) \<Longrightarrow> be_locality b = classify t (ap_addr (be_addr b))"
  by (induction eps) (auto split: option.splits)

lemma install_store_ok:
  assumes "table_ok t" and "install_store vl key svc eps policy aff t = (n, pu, t')"
  shows "table_ok t'" "same_node t t'"
    "sn_states (rt_snap t') = (sn_states (rt_snap t))(key := sn_states (rt_snap t') key)"
    "rt_affinity t' = rt_affinity t" "rt_affinityCount t' = rt_affinityCount t"
    "rt_maxAffinityPerPort t' = rt_maxAffinityPerPort t"
    "rt_maxAffinityTotal t' = rt_maxAffinityTotal t"
    "Backends t' key = sort_key be_key (ready_backends vl t eps)"
    "pu \<or> (\<exists>st. sn_states (rt_snap t') key = Some st \<and> ps_affinityMode st = affinityClientIP)"
proof -
  define ready where "ready = sort_key be_key (ready_backends vl t eps)"
  define locals where "locals = filter (\<lambda>b. nodeLocal (be_locality b)) ready"
  obtain m t1 where a: "advanceMeta t key svc ready locals policy = (m, t1)" by fastforce
  note fr = advanceMeta_frame [OF a] and ok = advanceMeta_ok [OF assms(1) a]
  define st where "st = \<lparr>ps_ref = rt_nextRef t1, ps_all = ready, ps_locals = locals,
      ps_policy = policy, ps_affinityMode = ac_mode aff,
      ps_affinityTimeout = (if ac_mode aff = affinityClientIP \<and> ac_timeout aff \<le> 0
         then affinityDefaultTimeout else ac_timeout aff),
      ps_allSet = be_addr ` set ready, ps_localSet = be_addr ` set locals,
      ps_gen = km_gen (rt_metas t1 m), ps_meta = m\<rparr>"
  define t2 where "t2 = rt_store (withState (rt_snap t1) key (Some st))
      (t1\<lparr>rt_nextRef := rt_nextRef t1 + 1, rt_cursor := (rt_cursor t1)(rt_nextRef t1 := 0),
          rt_warned := (rt_warned t1)(rt_nextRef t1 := False)\<rparr>)"
  have r: "(n, pu, t') = (if ready = [] then (0, True, rt_store (withState (rt_snap t1) key None) t1)
      else (length ready, ac_mode aff \<noteq> affinityClientIP, t2))"
    using assms(2)
    unfolding install_store_def Let_def ready_def [symmetric] locals_def [symmetric] a prod.case
      st_def [symmetric] t2_def [symmetric] by (rule sym)
  have sn: "same_node t1 t2" by (simp add: t2_def rt_store_def same_node_def)
  have "be_locality b = classify t (ap_addr (be_addr b))" if "b \<in> set ready" for b
    using that ready_backends_classified by (simp add: ready_def)
  then have st_ok: "ready \<noteq> [] \<Longrightarrow> state_ok t2 st"
    using ok(2) fr(1) classify_same_node [OF same_node_trans [OF fr(1) sn]]
    by (simp add: state_ok_def st_def locals_def t2_def rt_store_def) (simp add: ready_def)
  have t2_ok: "ready \<noteq> [] \<Longrightarrow> table_ok t2"
    using ok(1) st_ok sn
    by (rule table_ok_withState_Some) (simp_all add: t2_def rt_store_def st_def)
  show "table_ok t'"
    using r ok(1) t2_ok table_ok_withState_None [of t1 key] by (auto simp: rt_store_def split: if_splits)
  show "same_node t t'"
    using r fr(1) same_node_trans [OF fr(1) sn] by (auto simp: rt_store_def same_node_def split: if_splits)
  show "sn_states (rt_snap t') = (sn_states (rt_snap t))(key := sn_states (rt_snap t') key)"
    "rt_affinity t' = rt_affinity t" "rt_affinityCount t' = rt_affinityCount t"
    "rt_maxAffinityPerPort t' = rt_maxAffinityPerPort t"
    "rt_maxAffinityTotal t' = rt_maxAffinityTotal t"
    "Backends t' key = sort_key be_key (ready_backends vl t eps)"
    "pu \<or> (\<exists>st. sn_states (rt_snap t') key = Some st \<and> ps_affinityMode st = affinityClientIP)"
    using r fr
    by (auto simp: rt_store_def t2_def st_def withState_def Backends_def ready_def [symmetric]
        split: if_splits)
qed

end
