(* ===== verification/Affinity.thy ===== *)
theory Affinity
  imports Routing "HOL-Library.Multiset"
begin

text \<open>
  Client affinity of the routing table (\<^verbatim>\<open>pkg/proxy/affinity.go\<close>) and the properties of picking.

  A sticky pick holds \<^verbatim>\<open>affMu\<close> while it works on the bindings, but the snapshot can be replaced under
  it at any time. The model takes the snapshots its three loads return as arguments (\<open>s1\<close>, \<open>s2\<close>, \<open>s3\<close>),
  so every interleaving with stores is covered; run alone, all three are the current snapshot. Which
  binding a full table evicts is the iteration order of a Go map: the argument \<open>ev\<close>.
\<close>

section \<open>Operations\<close>

definition binds_of :: "RoutingTable \<Rightarrow> PortKey \<Rightarrow> bindings" where
  "binds_of t key = (case rt_affinity t key of None \<Rightarrow> Map.empty | Some m \<Rightarrow> m)"

definition dropBinding :: "PortKey \<Rightarrow> addr \<Rightarrow> RoutingTable \<Rightarrow> RoutingTable" where
  "dropBinding key client t =
     t\<lparr>rt_affinity := (rt_affinity t)(key \<mapsto> (binds_of t key)(client := None)),
       rt_affinityCount := rt_affinityCount t - 1\<rparr>"

definition still_bound :: "affinityBinding \<Rightarrow> addrport set \<Rightarrow> int \<Rightarrow> portState \<Rightarrow> bool" where
  "still_bound b aset now st \<longleftrightarrow>
     be_addr (ab_backend b) \<in> aset \<and> now - ab_lastSeen b < ps_affinityTimeout st"

definition evict_full :: "(addr set \<Rightarrow> addr) \<Rightarrow> PortKey \<Rightarrow> RoutingTable \<Rightarrow> RoutingTable" where
  "evict_full ev key t =
     (if max 1 (rt_maxAffinityPerPort t) \<le> int (card (dom (binds_of t key)))
      then dropBinding key (ev (dom (binds_of t key))) t else t)"

text \<open>The part of \<^verbatim>\<open>pickStickyScoped\<close> that binds the client to a fresh pick.\<close>

definition sticky_bind ::
  "(addr set \<Rightarrow> addr) \<Rightarrow> routingSnapshot \<Rightarrow> PortKey \<Rightarrow> addr \<Rightarrow> int \<Rightarrow> portState \<Rightarrow> backend
     \<Rightarrow> RoutingTable \<Rightarrow> RoutingTable" where
  "sticky_bind ev s3 key client now st be t =
     (let totalCap = max 1 (rt_maxAffinityTotal t); t1 = evict_full ev key t in
      if totalCap \<le> rt_affinityCount t1 then t1\<lparr>rt_affinityWarned := True\<rparr>
      else let t2 = t1\<lparr>rt_affinityWarned := False\<rparr> in
        if map_option ps_ref (sn_states s3 key) \<noteq> Some (ps_ref st) then t2
        else t2\<lparr>rt_affinity := (rt_affinity t2)(key \<mapsto> (binds_of t2 key)(client \<mapsto>
                  \<lparr>ab_backend = be, ab_lastSeen = now\<rparr>)),
                rt_affinityCount := rt_affinityCount t2 + 1\<rparr>)"

definition sticky_locked ::
  "(addr set \<Rightarrow> addr) \<Rightarrow> routingSnapshot \<Rightarrow> routingSnapshot \<Rightarrow> PortKey \<Rightarrow> addr \<Rightarrow> int \<Rightarrow> bool
     \<Rightarrow> RoutingTable \<Rightarrow> (route_error + backend) \<times> RoutingTable" where
  "sticky_locked ev s2 s3 key client now external t =
     (case scoped t s2 key external of
        (Inl e, t1) \<Rightarrow> (Inl e, t1)
      | (Inr (st, pool, aset), t1) \<Rightarrow>
          if ps_affinityMode st \<noteq> affinityClientIP
          then (case roundRobin t1 st pool of (b, t2) \<Rightarrow> (Inr b, t2))
          else case binds_of t1 key client of
            Some b \<Rightarrow>
              if still_bound b aset now st then
                (Inr (ab_backend b), t1\<lparr>rt_affinity := (rt_affinity t1)(key \<mapsto>
                   (binds_of t1 key)(client \<mapsto> b\<lparr>ab_lastSeen := now\<rparr>))\<rparr>)
              else (case roundRobin (dropBinding key client t1) st pool of
                      (be, t2) \<Rightarrow> (Inr be, sticky_bind ev s3 key client now st be t2))
          | None \<Rightarrow>
              (case roundRobin t1 st pool of
                 (be, t2) \<Rightarrow> (Inr be, sticky_bind ev s3 key client now st be t2)))"

definition pickStickyScoped ::
  "(addr set \<Rightarrow> addr) \<Rightarrow> routingSnapshot \<Rightarrow> routingSnapshot \<Rightarrow> routingSnapshot
     \<Rightarrow> PortKey \<Rightarrow> addr \<Rightarrow> int \<Rightarrow> bool \<Rightarrow> RoutingTable \<Rightarrow> (route_error + backend) \<times> RoutingTable" where
  "pickStickyScoped ev s1 s2 s3 key client now external t =
     (case scoped t s1 key external of
        (Inl e, t1) \<Rightarrow> (Inl e, t1)
      | (Inr (st, pool, _), t1) \<Rightarrow>
          if ps_affinityMode st \<noteq> affinityClientIP
          then (case roundRobin t1 st pool of (b, t2) \<Rightarrow> (Inr b, t2))
          else sticky_locked ev s2 s3 key client now external t1)"

definition PickSticky ::
  "(addr set \<Rightarrow> addr) \<Rightarrow> PortKey \<Rightarrow> addr \<Rightarrow> int \<Rightarrow> RoutingTable \<Rightarrow> (route_error + backend) \<times> RoutingTable" where
  "PickSticky ev key client now t =
     pickStickyScoped ev (rt_snap t) (rt_snap t) (rt_snap t) key client now False t"

definition PickStickyCluster ::
  "(addr set \<Rightarrow> addr) \<Rightarrow> PortKey \<Rightarrow> addr \<Rightarrow> int \<Rightarrow> RoutingTable \<Rightarrow> (route_error + backend) \<times> RoutingTable" where
  "PickStickyCluster ev key client now t =
     pickStickyScoped ev (rt_snap t) (rt_snap t) (rt_snap t) key client now True t"

text \<open>One round of the sweep's outer loop; the inner loop deletes exactly the expired bindings.\<close>

definition sweep_key :: "routingSnapshot \<Rightarrow> int \<Rightarrow> PortKey \<Rightarrow> RoutingTable \<Rightarrow> RoutingTable" where
  "sweep_key s now key t =
     (case sn_states s key of
        None \<Rightarrow> dropAffinity key t
      | Some st \<Rightarrow>
          let binds = binds_of t key;
              expired = {c \<in> dom binds. ps_affinityTimeout st \<le> now - ab_lastSeen (the (binds c))};
              kept = binds |` (- expired);
              t' = t\<lparr>rt_affinity := (rt_affinity t)(key \<mapsto> kept),
                     rt_affinityCount := rt_affinityCount t - int (card expired)\<rparr> in
          if dom kept = {} then dropAffinity key t' else t')"

text \<open>\<open>order\<close> is the order in which the range statement visits the keys of the table.\<close>

definition sweep_from :: "routingSnapshot \<Rightarrow> PortKey list \<Rightarrow> int \<Rightarrow> RoutingTable \<Rightarrow> RoutingTable" where
  "sweep_from s order now t = foldl (\<lambda>t key. sweep_key s now key t) t order"

definition SweepExpired :: "PortKey list \<Rightarrow> int \<Rightarrow> RoutingTable \<Rightarrow> RoutingTable" where
  "SweepExpired order now t = sweep_from (rt_snap t) order now t"

section \<open>Counting bindings\<close>

definition total_bindings :: "(PortKey \<Rightarrow> bindings option) \<Rightarrow> int" where
  "total_bindings A = (\<Sum>key \<in> dom A. binding_count (A key))"

lemma total_bindings_upd:
  assumes "finite (dom A)"
  shows "total_bindings (A(key := x)) = total_bindings A - binding_count (A key) + binding_count x"
proof -
  let ?D = "dom A - {key}"
  have f: "finite ?D" using assms by simp
  have rest: "(\<Sum>k \<in> ?D. binding_count ((A(key := x)) k)) = (\<Sum>k \<in> ?D. binding_count (A k))"
    by (rule sum.cong) auto
  have old: "total_bindings A = binding_count (A key) + (\<Sum>k \<in> ?D. binding_count (A k))"
  proof (cases "key \<in> dom A")
    case True
    then show ?thesis unfolding total_bindings_def using assms by (simp add: sum.remove)
  next
    case False
    then have "?D = dom A" "A key = None" by auto
    then show ?thesis by (simp add: total_bindings_def binding_count_def)
  qed
  have new: "total_bindings (A(key := x)) = binding_count x + (\<Sum>k \<in> ?D. binding_count (A k))"
  proof (cases x)
    case None
    then have "dom (A(key := x)) = ?D" by auto
    with None rest show ?thesis by (simp add: total_bindings_def binding_count_def)
  next
    case (Some m)
    then have d: "dom (A(key := x)) = insert key ?D" by auto
    have "total_bindings (A(key := x))
        = binding_count ((A(key := x)) key) + (\<Sum>k \<in> ?D. binding_count ((A(key := x)) k))"
      unfolding total_bindings_def d by (rule sum.insert) (use f in simp_all)
    with rest show ?thesis by (simp only: fun_upd_same)
  qed
  show ?thesis unfolding old new by arith
qed

lemma binding_count_nonneg: "0 \<le> binding_count x"
  by (simp add: binding_count_def split: option.split)

lemma binding_count_binds: "binding_count (rt_affinity t key) = int (card (dom (binds_of t key)))"
  by (simp add: binding_count_def binds_of_def split: option.split)

definition aff_ok :: "RoutingTable \<Rightarrow> bool" where
  "aff_ok t \<longleftrightarrow> finite (dom (rt_affinity t)) \<and> (\<forall>key. finite (dom (binds_of t key)))
     \<and> rt_affinityCount t = total_bindings (rt_affinity t)
     \<and> rt_affinityCount t \<le> max 1 (rt_maxAffinityTotal t)
     \<and> (\<forall>key. int (card (dom (binds_of t key))) \<le> max 1 (rt_maxAffinityPerPort t))"

lemma aff_okD:
  assumes "aff_ok t"
  shows "finite (dom (rt_affinity t))" "finite (dom (binds_of t key))"
    "rt_affinityCount t = total_bindings (rt_affinity t)"
    "rt_affinityCount t \<le> max 1 (rt_maxAffinityTotal t)"
    "int (card (dom (binds_of t key))) \<le> max 1 (rt_maxAffinityPerPort t)"
  using assms by (simp_all add: aff_ok_def)

text \<open>Fields outside the affinity bookkeeping do not matter.\<close>

definition same_aff :: "RoutingTable \<Rightarrow> RoutingTable \<Rightarrow> bool" where
  "same_aff t t' \<longleftrightarrow> rt_affinity t' = rt_affinity t \<and> rt_affinityCount t' = rt_affinityCount t
     \<and> rt_maxAffinityPerPort t' = rt_maxAffinityPerPort t
     \<and> rt_maxAffinityTotal t' = rt_maxAffinityTotal t"

lemma same_aff_binds: "same_aff t t' \<Longrightarrow> binds_of t' key = binds_of t key"
  by (simp add: same_aff_def binds_of_def)

lemma aff_ok_cong: "same_aff t t' \<Longrightarrow> aff_ok t' = aff_ok t"
  unfolding aff_ok_def same_aff_binds by (simp add: same_aff_def)

text \<open>Replacing the bindings of one key and moving the counter by the difference.\<close>

lemma aff_ok_update:
  assumes "aff_ok t" and "rt_affinity t' = (rt_affinity t)(key := x)"
    and "rt_affinityCount t' = rt_affinityCount t - binding_count (rt_affinity t key) + binding_count x"
    and "rt_maxAffinityPerPort t' = rt_maxAffinityPerPort t"
    and "rt_maxAffinityTotal t' = rt_maxAffinityTotal t"
    and "\<And>m. x = Some m \<Longrightarrow> finite (dom m) \<and> int (card (dom m)) \<le> max 1 (rt_maxAffinityPerPort t)"
    and "rt_affinityCount t' \<le> max 1 (rt_maxAffinityTotal t)"
  shows "aff_ok t'"
proof -
  note ok = aff_okD [OF assms(1)]
  have b: "binds_of t' k = (if k = key then (case x of None \<Rightarrow> Map.empty | Some m \<Rightarrow> m) else binds_of t k)"
    for k by (simp add: binds_of_def assms(2))
  have "dom (rt_affinity t') \<subseteq> insert key (dom (rt_affinity t))" by (auto simp: assms(2) split: if_splits)
  then have "finite (dom (rt_affinity t'))" using ok(1) finite_subset by blast
  moreover have "rt_affinityCount t' = total_bindings (rt_affinity t')"
    using assms(2,3) ok(3) total_bindings_upd [OF ok(1)] by simp
  ultimately show ?thesis
    unfolding aff_ok_def b using ok(2,5) assms(4-7) by (cases x) auto
qed

lemma aff_ok_dropAffinity:
  assumes "aff_ok t"
  shows "aff_ok (dropAffinity key t)"
proof (rule aff_ok_update [OF assms, where key = key and x = None])
  show "rt_affinityCount (dropAffinity key t) \<le> max 1 (rt_maxAffinityTotal t)"
    using binding_count_nonneg [of "rt_affinity t key"] aff_okD(4) [OF assms]
    by (simp add: dropAffinity_def)
qed (simp_all add: dropAffinity_def binding_count_def)

lemma aff_ok_dropBinding:
  assumes "aff_ok t" and "client \<in> dom (binds_of t key)"
  shows "aff_ok (dropBinding key client t)"
    and "card (dom (binds_of (dropBinding key client t) key)) = card (dom (binds_of t key)) - 1"
    and "rt_affinityCount (dropBinding key client t) = rt_affinityCount t - 1"
proof -
  let ?m = "(binds_of t key)(client := None)"
  have fin: "finite (dom (binds_of t key))" using aff_okD(2) [OF assms(1)] .
  have c: "card (dom ?m) = card (dom (binds_of t key)) - 1" "0 < card (dom (binds_of t key))"
    using assms(2) fin by (auto simp: card_gt_0_iff)
  show "card (dom (binds_of (dropBinding key client t) key)) = card (dom (binds_of t key)) - 1"
    using c by (simp add: dropBinding_def binds_of_def)
  show "rt_affinityCount (dropBinding key client t) = rt_affinityCount t - 1"
    by (simp add: dropBinding_def)
  have "binding_count (Some ?m) = binding_count (rt_affinity t key) - 1"
    unfolding binding_count_binds using c by (simp add: binding_count_def)
  then have cnt: "rt_affinityCount (dropBinding key client t)
      = rt_affinityCount t - binding_count (rt_affinity t key) + binding_count (Some ?m)"
    by (simp add: dropBinding_def)
  have fm: "finite (dom ?m)" using fin by simp
  have cm: "int (card (dom ?m)) \<le> max 1 (rt_maxAffinityPerPort t)"
    using aff_okD(5) [OF assms(1), of key] c by linarith
  show "aff_ok (dropBinding key client t)"
  proof (rule aff_ok_update [OF assms(1) _ cnt])
    show "rt_affinityCount (dropBinding key client t) \<le> max 1 (rt_maxAffinityTotal t)"
      using aff_okD(4) [OF assms(1)] by (simp add: dropBinding_def)
    fix m assume "Some ?m = Some m"
    then have "m = ?m" by blast
    with fm cm show "finite (dom m) \<and> int (card (dom m)) \<le> max 1 (rt_maxAffinityPerPort t)"
      by blast
  qed (simp_all add: dropBinding_def)
qed


section \<open>Pools and picks\<close>

lemma activePool_frame:
  assumes "activePool t st external = (r, t1)"
  shows "same_node t t1" "same_aff t t1" "rt_snap t1 = rt_snap t" "rt_meta t1 = rt_meta t"
    "rt_cursor t1 = rt_cursor t" "rt_nextRef t1 = rt_nextRef t"
  using assms by (auto simp: activePool_def same_node_def same_aff_def split: if_split_asm)

lemma scoped_frame:
  assumes "scoped t s key external = (r, t1)"
  shows "same_node t t1" "same_aff t t1" "rt_snap t1 = rt_snap t" "rt_meta t1 = rt_meta t"
    "rt_cursor t1 = rt_cursor t" "rt_nextRef t1 = rt_nextRef t"
  using assms
  by (auto simp: scoped_def same_aff_def split: option.split_asm if_split_asm prod.split_asm sum.split_asm
      dest: activePool_frame activePool_frame(2) [unfolded same_aff_def])

lemma scoped_Inr:
  assumes "scoped t s key external = (Inr (st, pool, aset), t1)"
  shows "sn_states s key = Some st" "pool \<noteq> []"
    "(pool, aset) = (if \<not> external \<and> ps_policy st = trafficLocal \<and> prefix_IsValid (rt_podCIDR t)
                     then (ps_locals st, ps_localSet st) else (ps_all st, ps_allSet st))"
  using assms
  by (auto simp: scoped_def activePool_def split: option.split_asm if_split_asm prod.split_asm sum.split_asm)

lemma scoped_state:
  assumes "sn_states s key = Some st" and "state_ok t st"
  shows "fst (scoped t s key external) =
    (if \<not> external \<and> ps_policy st = trafficLocal \<and> prefix_IsValid (rt_podCIDR t)
     then if ps_locals st = [] then Inl ErrNoLocalBackends else Inr (st, ps_locals st, ps_localSet st)
     else Inr (st, ps_all st, ps_allSet st))"
  using assms by (simp add: scoped_def activePool_def state_ok_def)

lemma scoped_cong:
  assumes "same_node t t'"
  shows "fst (scoped t' s key external) = fst (scoped t s key external)"
  using assms
  by (simp add: scoped_def activePool_def same_node_def split: option.split)

text \<open>The pool a pick draws from, or the error it returns.\<close>

definition pool_of :: "RoutingTable \<Rightarrow> PortKey \<Rightarrow> route_error + backend list" where
  "pool_of t key =
     (case fst (scoped t (rt_snap t) key False) of Inl e \<Rightarrow> Inl e | Inr (st, pool, _) \<Rightarrow> Inr pool)"

fun pick_n :: "nat \<Rightarrow> RoutingTable \<Rightarrow> PortKey \<Rightarrow> (route_error + backend) list \<times> RoutingTable" where
  "pick_n 0 t key = ([], t)"
| "pick_n (Suc n) t key =
     (case Pick t key of (r, t') \<Rightarrow> (case pick_n n t' key of (rs, t'') \<Rightarrow> (r # rs, t'')))"

lemma Pick_pool:
  assumes "sn_states (rt_snap t) key = Some st" and "pool_of t key = Inr pool" and "Pick t key = (r, t')"
  shows "r = Inr (pool ! (unat (rt_cursor t (ps_ref st)) mod length pool))"
    "rt_cursor t' (ps_ref st) = rt_cursor t (ps_ref st) + 1"
    "rt_snap t' = rt_snap t" "pool_of t' key = Inr pool" "pool \<noteq> []"
proof -
  obtain aset t1 where s: "scoped t (rt_snap t) key False = (Inr (st, pool, aset), t1)"
    using assms(1,2) scoped_Inr(1) [of t "rt_snap t" key False]
    by (cases "scoped t (rt_snap t) key False") (fastforce simp: pool_of_def split: sum.split_asm)
  note f = scoped_frame [OF s]
  have r: "r = Inr (pool ! (unat (rt_cursor t (ps_ref st)) mod length pool))"
    and t': "t' = t1\<lparr>rt_cursor := (rt_cursor t1)(ps_ref st := rt_cursor t1 (ps_ref st) + 1)\<rparr>"
    using assms(3) by (auto simp: Pick_def s roundRobin_def Let_def f(5))
  show "r = Inr (pool ! (unat (rt_cursor t (ps_ref st)) mod length pool))" by (rule r)
  show "rt_cursor t' (ps_ref st) = rt_cursor t (ps_ref st) + 1" by (simp add: t' f(5))
  show sn: "rt_snap t' = rt_snap t" by (simp add: t' f(3))
  have "same_node t t'" using f(1) by (simp add: t' same_node_def)
  then show "pool_of t' key = Inr pool"
    using assms(2) by (simp add: pool_of_def sn scoped_cong)
  show "pool \<noteq> []" using scoped_Inr(2) [OF s] .
qed

lemma pick_n_pool:
  assumes "sn_states (rt_snap t) key = Some st" and "pool_of t key = Inr pool"
    and "unat (rt_cursor t (ps_ref st)) + n \<le> 2 ^ 64"
  shows "fst (pick_n n t key)
    = map (\<lambda>i. Inr (pool ! ((unat (rt_cursor t (ps_ref st)) + i) mod length pool))) [0..<n]"
  using assms
proof (induction n arbitrary: t)
  case 0
  then show ?case by simp
next
  case (Suc n)
  let ?c = "rt_cursor t (ps_ref st)"
  obtain r t' where p: "Pick t key = (r, t')" by (cases "Pick t key")
  note P = Pick_pool [OF Suc.prems(1,2) p]
  have rest: "fst (pick_n n t' key) = map (\<lambda>i. Inr (pool ! ((unat ?c + Suc i) mod length pool))) [0..<n]"
  proof (cases "n = 0")
    case True
    then show ?thesis by simp
  next
    case False
    then have u: "unat (?c + 1) = unat ?c + 1"
      using Suc.prems(3) by (simp add: unat_plus_if')
    show ?thesis
      using Suc.IH [of t'] Suc.prems P u by simp
  qed
  have "[0..<Suc n] = 0 # map Suc [0..<n]" by (simp add: map_Suc_upt upt_conv_Cons del: upt_Suc)
  moreover have "fst (pick_n (Suc n) t key) = r # fst (pick_n n t' key)"
    by (simp add: p split: prod.split)
  ultimately show ?case using rest P(1) by (simp del: upt_Suc)
qed

text \<open>Full rounds through the indices, from any start.\<close>

lemma mset_rotate: "mset (rotate c xs) = mset xs"
proof (induction c)
  case (Suc c)
  have "mset (rotate1 ys) = mset ys" for ys :: "'a list" by (cases ys) simp_all
  then show ?case using Suc by simp
qed simp

lemma rotated_mset: "mset (map (\<lambda>i. f ((c + i) mod n)) [0..<n]) = mset (map f [0..<n])"
proof -
  have "map (\<lambda>i. f ((c + i) mod n)) [0..<n] = map f (rotate c [0..<n])"
    by (rule nth_equalityI) (simp_all add: nth_rotate)
  then show ?thesis by (simp only: mset_map mset_rotate)
qed

lemma rounds_mset:
  "mset (map (\<lambda>i. f ((c + i) mod n)) [0..<k * n]) = repeat_mset k (mset (map f [0..<n]))"
proof (induction k)
  case 0
  then show ?case by simp
next
  case (Suc k)
  have "[0..<Suc k * n] = [0..<k * n] @ map (\<lambda>i. i + k * n) [0..<n]"
    using upt_add_eq_append [of 0 "k * n" n] by (simp add: map_add_upt add.commute [of n])
  moreover have "(c + (i + k * n)) mod n = (c + i) mod n" for i
    by (simp add: add.assoc [symmetric])
  ultimately show ?case
    using Suc.IH rotated_mset [of f c n] by (simp add: comp_def add.commute)
qed

lemma map_nth_Inr: "mset (map (\<lambda>i. Inr (pool ! i)) [0..<length pool]) = image_mset Inr (mset pool)"
  by (metis (no_types, lifting) map_nth map_map comp_apply map_cong mset_map)

section \<open>Bindings under every interleaving\<close>

text \<open>What ranging over a non-empty map and stopping at once gives: one of its keys.\<close>

definition picks_element :: "(addr set \<Rightarrow> addr) \<Rightarrow> bool" where
  "picks_element ev \<longleftrightarrow> (\<forall>S. S \<noteq> {} \<longrightarrow> ev S \<in> S)"

lemma picks_elementD: "picks_element ev \<Longrightarrow> S \<noteq> {} \<Longrightarrow> ev S \<in> S"
  by (simp add: picks_element_def)

lemma evict_full_ok:
  assumes "aff_ok t" and "picks_element ev"
  shows "aff_ok (evict_full ev key t)"
    "int (card (dom (binds_of (evict_full ev key t) key))) < max 1 (rt_maxAffinityPerPort t)"
    "rt_maxAffinityPerPort (evict_full ev key t) = rt_maxAffinityPerPort t"
    "rt_maxAffinityTotal (evict_full ev key t) = rt_maxAffinityTotal t"
    "rt_affinityCount (evict_full ev key t) \<le> rt_affinityCount t"
    "dom (binds_of (evict_full ev key t) k) \<subseteq> dom (binds_of t k)"
    "rt_snap (evict_full ev key t) = rt_snap t"
    "same_node t (evict_full ev key t)" "rt_meta (evict_full ev key t) = rt_meta t"
proof -
  let ?full = "max 1 (rt_maxAffinityPerPort t) \<le> int (card (dom (binds_of t key)))"
  have e: "ev (dom (binds_of t key)) \<in> dom (binds_of t key)" if ?full
    using that by (intro picks_elementD [OF assms(2)]) auto
  show "aff_ok (evict_full ev key t)"
    using assms(1) aff_ok_dropBinding(1) [OF assms(1) e] by (auto simp only: evict_full_def split: if_split)
  show "int (card (dom (binds_of (evict_full ev key t) key))) < max 1 (rt_maxAffinityPerPort t)"
  proof (cases ?full)
    case True
    moreover have "0 < card (dom (binds_of t key))" using True by linarith
    ultimately show ?thesis
      using aff_ok_dropBinding(2) [OF assms(1) e [OF True]] aff_okD(5) [OF assms(1), of key]
      by (simp only: evict_full_def if_True)
  next
    case False
    then have "evict_full ev key t = t" by (simp only: evict_full_def if_False)
    then show ?thesis using False by (simp only: not_le)
  qed
qed (auto simp: evict_full_def dropBinding_def binds_of_def same_node_def split: if_splits)

text \<open>The fresh binding keeps the counter exact and the caps.\<close>

lemma sticky_bind_ok:
  assumes "aff_ok t" and "binds_of t key client = None" and "picks_element ev"
  shows "aff_ok (sticky_bind ev s3 key client now st be t)"
proof -
  define t1 where "t1 = evict_full ev key t"
  note e = evict_full_ok [OF assms(1,3), of key, folded t1_def]
  have none: "client \<notin> dom (binds_of t1 key)" using e(6) [of key] assms(2) by blast
  let ?m = "(binds_of t1 key)(client \<mapsto> \<lparr>ab_backend = be, ab_lastSeen = now\<rparr>)"
  have fin: "finite (dom (binds_of t1 key))" using e(1) aff_okD(2) by blast
  have cardm: "card (dom ?m) = card (dom (binds_of t1 key)) + 1"
    using none fin by (simp add: card_insert_if)
  have bind: "aff_ok (t1\<lparr>rt_affinityWarned := w, rt_affinity := (rt_affinity t1)(key \<mapsto> ?m),
      rt_affinityCount := rt_affinityCount t1 + 1\<rparr>)"
    if "\<not> max 1 (rt_maxAffinityTotal t) \<le> rt_affinityCount t1" for w
  proof (rule aff_ok_update [OF e(1), where key = key and x = "Some ?m"])
    have count: "rt_affinityCount t1 + 1 \<le> max 1 (rt_maxAffinityTotal t1)" using that e(4) by linarith
    show "finite (dom m) \<and> int (card (dom m)) \<le> max 1 (rt_maxAffinityPerPort t1)"
      if "Some ?m = Some m" for m
      using that fin cardm e(2,3) by auto
    show "rt_affinityCount (t1\<lparr>rt_affinityWarned := w, rt_affinity := (rt_affinity t1)(key \<mapsto> ?m),
      rt_affinityCount := rt_affinityCount t1 + 1\<rparr>) \<le> max 1 (rt_maxAffinityTotal t1)"
      using count by simp
  qed (use cardm that e(4) in \<open>simp_all add: binding_count_binds\<close>, simp_all add: binding_count_def)
  have frame: "aff_ok (t1\<lparr>rt_affinityWarned := w\<rparr>)" for w
    using e(1) aff_ok_cong [of t1 "t1\<lparr>rt_affinityWarned := w\<rparr>"] by (simp add: same_aff_def)
  have b: "binds_of (t1\<lparr>rt_affinityWarned := w\<rparr>) = binds_of t1" for w
    by (rule ext) (simp add: binds_of_def)
  show ?thesis
    unfolding sticky_bind_def Let_def t1_def [symmetric] using frame bind by (simp add: b)
qed

lemma roundRobin_frame:
  assumes "roundRobin t st pool = (b, t')"
  shows "same_node t t'" "same_aff t t'" "rt_snap t' = rt_snap t" "rt_meta t' = rt_meta t"
    "pool \<noteq> [] \<Longrightarrow> b \<in> set pool"
  using assms by (auto simp: roundRobin_def Let_def same_node_def same_aff_def)

lemma dropBinding_frame:
  "same_node t (dropBinding key c t)" "rt_snap (dropBinding key c t) = rt_snap t"
  "rt_meta (dropBinding key c t) = rt_meta t"
  "binds_of (dropBinding key c t) key c = None"
  "dom (binds_of (dropBinding key c t) k) \<subseteq> dom (binds_of t k)"
  by (auto simp: dropBinding_def same_node_def binds_of_def split: if_splits)

lemma sticky_bind_frame:
  assumes "aff_ok t" and "picks_element ev"
  shows "same_node t (sticky_bind ev s3 key client now st be t)"
    "rt_snap (sticky_bind ev s3 key client now st be t) = rt_snap t"
    "rt_meta (sticky_bind ev s3 key client now st be t) = rt_meta t"
    "dom (binds_of (sticky_bind ev s3 key client now st be t) k) \<subseteq>
       dom (binds_of t k) \<union> (if k = key \<and> map_option ps_ref (sn_states s3 key) = Some (ps_ref st)
                            then {client} else {})"
proof -
  note e = evict_full_ok [OF assms, of key]
  show "same_node t (sticky_bind ev s3 key client now st be t)"
    using e(8) by (simp add: sticky_bind_def Let_def same_node_def)
  show "rt_snap (sticky_bind ev s3 key client now st be t) = rt_snap t"
    by (simp add: sticky_bind_def Let_def e(7))
  show "rt_meta (sticky_bind ev s3 key client now st be t) = rt_meta t"
    by (simp add: sticky_bind_def Let_def e(9))
  define t1 where "t1 = evict_full ev key t"
  have k: "dom (binds_of t1 k) \<subseteq> dom (binds_of t k)" using e(6) [of k] by (simp add: t1_def)
  have b: "binds_of (t1\<lparr>rt_affinityWarned := w\<rparr>) = binds_of t1" for w
    by (rule ext) (simp add: binds_of_def)
  have u: "binds_of (t1\<lparr>rt_affinityWarned := w, rt_affinity := (rt_affinity t1)(key \<mapsto> m),
      rt_affinityCount := c\<rparr>) = (binds_of t1)(key := m)" for w m c
    by (rule ext) (simp add: binds_of_def)
  show "dom (binds_of (sticky_bind ev s3 key client now st be t) k) \<subseteq>
       dom (binds_of t k) \<union> (if k = key \<and> map_option ps_ref (sn_states s3 key) = Some (ps_ref st)
                            then {client} else {})"
    unfolding sticky_bind_def Let_def t1_def [symmetric]
    using k by (auto simp add: b u simp del: fun_upd_apply split: if_split_asm) (auto split: if_split_asm)
qed

text \<open>A sticky pick under the lock, from any snapshots: the bookkeeping stays exact, and a binding is
  added only for the key, and only when the state the pick read is still the stored one.\<close>

definition bound_under :: "routingSnapshot \<Rightarrow> routingSnapshot \<Rightarrow> PortKey \<Rightarrow> bool" where
  "bound_under s2 s3 key \<longleftrightarrow> (\<exists>st st'. sn_states s2 key = Some st \<and> ps_affinityMode st = affinityClientIP
     \<and> sn_states s3 key = Some st' \<and> ps_ref st' = ps_ref st)"

definition aff_frame :: "bool \<Rightarrow> PortKey \<Rightarrow> RoutingTable \<Rightarrow> RoutingTable \<Rightarrow> bool" where
  "aff_frame bound key t t' \<longleftrightarrow> aff_ok t' \<and> same_node t t' \<and> rt_snap t' = rt_snap t \<and> rt_meta t' = rt_meta t
     \<and> (\<forall>k. dom (binds_of t' k) \<subseteq> dom (binds_of t k) \<or> (k = key \<and> bound))"

lemma aff_frame_trans:
  assumes "aff_frame False k0 t u" and "aff_frame bound key u v"
  shows "aff_frame bound key t v"
  using assms by (auto simp: aff_frame_def intro: same_node_trans) blast+

lemma aff_frame_weaken: "aff_frame False key t t' \<Longrightarrow> aff_frame b key t t'"
  by (simp add: aff_frame_def)

lemma aff_frame_same_aff:
  assumes "aff_ok t" and "same_node t t'" "same_aff t t'" "rt_snap t' = rt_snap t" "rt_meta t' = rt_meta t"
  shows "aff_frame b key t t'"
  using assms aff_ok_cong [OF assms(3)] same_aff_binds [OF assms(3)] by (simp add: aff_frame_def)

lemma sticky_bind_aff_frame:
  assumes "aff_ok t" and "binds_of t key client = None" and "picks_element ev"
    and "roundRobin t st pool = (be, t2)"
    and "sn_states s2 key = Some st" and "ps_affinityMode st = affinityClientIP"
  shows "aff_frame (bound_under s2 s3 key) key t (sticky_bind ev s3 key client now st be t2)"
proof -
  note g = roundRobin_frame [OF assms(4)]
  have ok2: "aff_ok t2" using assms(1) aff_ok_cong [OF g(2)] by simp
  have b2: "binds_of t2 k = binds_of t k" for k using same_aff_binds [OF g(2)] .
  note h = sticky_bind_frame [OF ok2 assms(3)]
  have "aff_ok (sticky_bind ev s3 key client now st be t2)"
    by (rule sticky_bind_ok [OF ok2 _ assms(3)]) (simp add: b2 assms(2))
  moreover have "dom (binds_of (sticky_bind ev s3 key client now st be t2) k) \<subseteq> dom (binds_of t k)
      \<or> (k = key \<and> bound_under s2 s3 key)" for k
    using h(4) [of s3 key client now st be k] assms(5,6) b2 [of k]
    by (fastforce simp: bound_under_def split: if_split_asm)
  ultimately show ?thesis
    using h(1-3) g by (auto simp: aff_frame_def intro: same_node_trans)
qed

lemma dropBinding_aff_frame:
  assumes "aff_ok t" and "binds_of t key client = Some b"
  shows "aff_frame False key t (dropBinding key client t)"
  using aff_ok_dropBinding(1) [OF assms(1)] assms(2) dropBinding_frame
  by (auto simp: aff_frame_def)

lemma refresh_aff_frame:
  assumes "aff_ok t" and "binds_of t key client = Some b"
  shows "aff_frame False key t (t\<lparr>rt_affinity := (rt_affinity t)(key \<mapsto> (binds_of t key)(client \<mapsto> b'))\<rparr>)"
    (is "aff_frame False key t ?t'")
proof -
  let ?m = "(binds_of t key)(client \<mapsto> b')"
  have d: "dom ?m = dom (binds_of t key)" using assms(2) by auto
  have cnt: "binding_count (Some ?m) = binding_count (rt_affinity t key)"
    using d binding_count_binds [of t key] by (simp add: binding_count_def [of "Some ?m"])
  have "aff_ok ?t'"
  proof (rule aff_ok_update [OF assms(1), where key = key and x = "Some ?m"])
    fix m assume "Some ?m = Some m"
    then have "dom m = dom (binds_of t key)" using d by auto
    then show "finite (dom m) \<and> int (card (dom m)) \<le> max 1 (rt_maxAffinityPerPort t)"
      using aff_okD(2,5) [OF assms(1), of key] by simp
  qed (use cnt aff_okD(4) [OF assms(1)] in simp_all)
  moreover have "dom (binds_of ?t' k) = dom (binds_of t k)" for k
    using d by (simp add: binds_of_def)
  ultimately show ?thesis by (simp add: aff_frame_def same_node_def)
qed

lemma sticky_locked_ok:
  assumes "aff_ok t" and "picks_element ev"
    and locked: "sticky_locked ev s2 s3 key client now external t = (r, t')"
  shows "aff_frame (bound_under s2 s3 key) key t t'"
proof -
  obtain x t1 where s: "scoped t s2 key external = (x, t1)" by (cases "scoped t s2 key external")
  have f: "aff_frame False key t t1" using aff_frame_same_aff [OF assms(1)] scoped_frame [OF s] by simp
  then have ok1: "aff_ok t1" by (simp add: aff_frame_def)
  have "aff_frame (bound_under s2 s3 key) key t1 t'"
  proof (cases x)
    case (Inl e)
    then have "t' = t1" using locked by (simp add: sticky_locked_def s)
    then show ?thesis using ok1 by (simp add: aff_frame_def)
  next
    case (Inr y)
    obtain st pool aset where y: "y = (st, pool, aset)" by (cases y)
    have st: "sn_states s2 key = Some st" using scoped_Inr(1) s Inr y by blast
    obtain be t2 where rr: "roundRobin t1 st pool = (be, t2)" by (cases "roundRobin t1 st pool")
    obtain be' t3 where rr': "roundRobin (dropBinding key client t1) st pool = (be', t3)"
      by (cases "roundRobin (dropBinding key client t1) st pool")
    note L = locked [unfolded sticky_locked_def s Inr y]
    consider (plain) "ps_affinityMode st \<noteq> affinityClientIP"
      | (bnd) b where "ps_affinityMode st = affinityClientIP" "binds_of t1 key client = Some b"
      | (new) "ps_affinityMode st = affinityClientIP" "binds_of t1 key client = None"
      by (cases "binds_of t1 key client") auto
    then show ?thesis
    proof cases
      case plain
      then have "t' = t2" using L by (simp add: rr)
      then show ?thesis using aff_frame_same_aff [OF ok1] roundRobin_frame [OF rr] by simp
    next
      case bnd
      have d: "aff_frame False key t1 (dropBinding key client t1)"
        by (rule dropBinding_aff_frame [OF ok1 bnd(2)])
      then have "aff_ok (dropBinding key client t1)" by (simp add: aff_frame_def)
      from sticky_bind_aff_frame [OF this dropBinding_frame(4) assms(2) rr' st bnd(1)]
      have "aff_frame (bound_under s2 s3 key) key t1 (sticky_bind ev s3 key client now st be' t3)"
        by (rule aff_frame_trans [OF d])
      then show ?thesis
        using L bnd aff_frame_weaken [OF refresh_aff_frame [OF ok1 bnd(2)]]
        by (simp add: rr' split: if_split_asm) blast
    next
      case new
      then show ?thesis using L sticky_bind_aff_frame [OF ok1 new(2) assms(2) rr st new(1)] by (simp add: rr) blast
    qed
  qed
  with f show ?thesis by (rule aff_frame_trans)
qed

lemma pickStickyScoped_ok:
  assumes "aff_ok t" and "picks_element ev"
    and "pickStickyScoped ev s1 s2 s3 key client now external t = (r, t')"
  shows "aff_frame (bound_under s2 s3 key) key t t'"
proof -
  obtain x t1 where s: "scoped t s1 key external = (x, t1)" by (cases "scoped t s1 key external")
  have f: "aff_frame False key t t1" using aff_frame_same_aff [OF assms(1)] scoped_frame [OF s] by simp
  then have ok1: "aff_ok t1" by (simp add: aff_frame_def)
  have "aff_frame (bound_under s2 s3 key) key t1 t'"
  proof (cases x)
    case (Inl e)
    then have "t' = t1" using assms(3) by (simp add: pickStickyScoped_def s)
    then show ?thesis using ok1 by (simp add: aff_frame_def)
  next
    case (Inr y)
    obtain st pool aset where y: "y = (st, pool, aset)" by (cases y)
    obtain be t2 where rr: "roundRobin t1 st pool = (be, t2)" by (cases "roundRobin t1 st pool")
    have "aff_frame (bound_under s2 s3 key) key t1 t2"
      using aff_frame_same_aff [OF ok1] roundRobin_frame [OF rr] by simp
    then show ?thesis
      using assms(3) sticky_locked_ok [OF ok1 assms(2)] Inr y
      by (simp add: pickStickyScoped_def s rr split: if_split_asm)
  qed
  with f show ?thesis by (rule aff_frame_trans)
qed

lemma Pick_aff_frame:
  assumes "aff_ok t" and "Pick t key = (r, t')"
  shows "aff_frame False key t t'"
proof -
  obtain x t1 where s: "scoped t (rt_snap t) key False = (x, t1)"
    by (cases "scoped t (rt_snap t) key False")
  have f: "aff_frame False key t t1" using aff_frame_same_aff [OF assms(1)] scoped_frame [OF s] by simp
  then have ok1: "aff_ok t1" by (simp add: aff_frame_def)
  have "aff_frame False key t1 t'"
  proof (cases x)
    case (Inl e)
    then show ?thesis using assms(2) ok1 by (simp add: Pick_def s aff_frame_def)
  next
    case (Inr y)
    obtain st pool aset where y: "y = (st, pool, aset)" by (cases y)
    obtain be t2 where rr: "roundRobin t1 st pool = (be, t2)" by (cases "roundRobin t1 st pool")
    then have "t' = t2" using assms(2) by (simp add: Pick_def s Inr y)
    then show ?thesis using aff_frame_same_aff [OF ok1] roundRobin_frame [OF rr] by simp
  qed
  with f show ?thesis by (rule aff_frame_trans)
qed

lemma dropAffinity_aff_frame: "aff_ok t \<Longrightarrow> aff_frame False k0 t (dropAffinity key t)"
  using aff_ok_dropAffinity [of t key]
  by (auto simp: aff_frame_def dropAffinity_def same_node_def binds_of_def split: if_split_asm)

lemma sweep_key_aff_frame:
  assumes "aff_ok t"
  shows "aff_frame False k0 t (sweep_key s now key t)"
proof (cases "sn_states s key")
  case None
  then show ?thesis using dropAffinity_aff_frame [OF assms] by (simp add: sweep_key_def)
next
  case (Some st)
  define expired where "expired =
    {c \<in> dom (binds_of t key). ps_affinityTimeout st \<le> now - ab_lastSeen (the (binds_of t key c))}"
  let ?kept = "binds_of t key |` (- expired)"
  let ?t' = "t\<lparr>rt_affinity := (rt_affinity t)(key \<mapsto> ?kept),
      rt_affinityCount := rt_affinityCount t - int (card expired)\<rparr>"
  have sub: "expired \<subseteq> dom (binds_of t key)" by (auto simp: expired_def)
  have fin: "finite (dom (binds_of t key))" by (rule aff_okD(2) [OF assms])
  have d: "dom ?kept = dom (binds_of t key) - expired" by auto
  have c: "card (dom ?kept) = card (dom (binds_of t key)) - card expired"
    unfolding d by (rule card_Diff_subset [OF finite_subset [OF sub fin] sub])
  have le: "card expired \<le> card (dom (binds_of t key))" by (rule card_mono [OF fin sub])
  have "aff_ok ?t'"
  proof (rule aff_ok_update [OF assms, where key = key and x = "Some ?kept"])
    fix m assume "Some ?kept = Some m"
    then have m: "m = ?kept" by simp
    show "finite (dom m) \<and> int (card (dom m)) \<le> max 1 (rt_maxAffinityPerPort t)"
      using fin c le aff_okD(5) [OF assms, of key] unfolding m d by (intro conjI) (simp, linarith)
  next
    show "rt_affinityCount ?t' = rt_affinityCount t - binding_count (rt_affinity t key) + binding_count (Some ?kept)"
      using c le binding_count_binds [of t key] by (simp add: binding_count_def [of "Some ?kept"])
  qed (use aff_okD(4) [OF assms] in simp_all)
  then have f: "aff_frame False k0 t ?t'"
    by (auto simp: aff_frame_def same_node_def binds_of_def split: if_split_asm)
  moreover have "aff_frame False k0 t (dropAffinity key ?t')"
    using aff_frame_trans [OF f dropAffinity_aff_frame] f by (simp add: aff_frame_def [of False k0 t ?t'])
  ultimately show ?thesis
    unfolding sweep_key_def Let_def Some option.case expired_def [symmetric] by (auto simp only: split: if_split)
qed

lemma sweep_from_aff_frame:
  "aff_ok t \<Longrightarrow> aff_frame False k0 t (sweep_from s order now t)"
proof (induction order arbitrary: t)
  case Nil
  then show ?case by (simp add: sweep_from_def aff_frame_def)
next
  case (Cons key order)
  have f: "aff_frame False k0 t (sweep_key s now key t)" by (rule sweep_key_aff_frame [OF Cons.prems])
  then have "aff_ok (sweep_key s now key t)" by (simp add: aff_frame_def)
  from aff_frame_trans [OF f Cons.IH [OF this]] show ?case by (simp add: sweep_from_def)
qed

section \<open>The table as a system\<close>

text \<open>
  The table with the purges that are still to run and every snapshot that was ever current: a pick or
  a sweep may still hold an older one. An install or a delete is two steps, the store and the purge.
\<close>

record rt_system =
  sys_tab :: RoutingTable
  sys_pend :: "PortKey multiset"
  sys_hist :: "routingSnapshot set"

definition sys_store :: "rt_system \<Rightarrow> RoutingTable \<Rightarrow> PortKey multiset \<Rightarrow> rt_system" where
  "sys_store c t pend = \<lparr>sys_tab = t, sys_pend = pend, sys_hist = insert (rt_snap t) (sys_hist c)\<rparr>"

text \<open>The table as \<^verbatim>\<open>proxy.New\<close> sets it up, with the node's address and the cluster prefix.\<close>

definition proxy_table :: "prefix \<Rightarrow> addr \<Rightarrow> prefix \<Rightarrow> RoutingTable" where
  "proxy_table podCIDR node cluster =
     (NewRoutingTable podCIDR)\<lparr>rt_nodeAddr := node, rt_clusterCIDR := cluster\<rparr>"

definition sys_init :: "RoutingTable \<Rightarrow> rt_system" where
  "sys_init t0 = \<lparr>sys_tab = t0, sys_pend = {#}, sys_hist = {rt_snap t0}\<rparr>"

inductive rt_reach :: "(Endpoint \<Rightarrow> bool) \<Rightarrow> (addr set \<Rightarrow> addr) \<Rightarrow> RoutingTable \<Rightarrow> rt_system \<Rightarrow> bool"
  for vl ev t0 where
  rt_init: "rt_reach vl ev t0 (sys_init t0)"
| rt_install: "rt_reach vl ev t0 c \<Longrightarrow>
    install_store vl key svc eps policy aff (sys_tab c) = (n, pu, t') \<Longrightarrow>
    rt_reach vl ev t0 (sys_store c t' (if pu then add_mset key (sys_pend c) else sys_pend c))"
| rt_delete: "rt_reach vl ev t0 c \<Longrightarrow>
    rt_reach vl ev t0 (sys_store c (delete_store key (sys_tab c)) (add_mset key (sys_pend c)))"
| rt_purge: "rt_reach vl ev t0 c \<Longrightarrow> key \<in># sys_pend c \<Longrightarrow>
    rt_reach vl ev t0 (c\<lparr>sys_tab := purgeAffinity key (sys_tab c), sys_pend := sys_pend c - {#key#}\<rparr>)"
| rt_forget: "rt_reach vl ev t0 c \<Longrightarrow>
    rt_reach vl ev t0 (c\<lparr>sys_tab := (sys_tab c)\<lparr>rt_meta := (rt_meta (sys_tab c))(key := None)\<rparr>\<rparr>)"
| rt_override: "rt_reach vl ev t0 c \<Longrightarrow>
    rt_reach vl ev t0 (sys_store c (SetTransportOverrides es (sys_tab c)) (sys_pend c))"
| rt_pick: "rt_reach vl ev t0 c \<Longrightarrow> Pick (sys_tab c) key = (r, t') \<Longrightarrow>
    rt_reach vl ev t0 (c\<lparr>sys_tab := t'\<rparr>)"
| rt_sticky: "rt_reach vl ev t0 c \<Longrightarrow> s1 \<in> sys_hist c \<Longrightarrow> s2 \<in> sys_hist c \<Longrightarrow>
    pickStickyScoped ev s1 s2 (rt_snap (sys_tab c)) key client now external (sys_tab c) = (r, t') \<Longrightarrow>
    rt_reach vl ev t0 (c\<lparr>sys_tab := t'\<rparr>)"
| rt_sweep: "rt_reach vl ev t0 c \<Longrightarrow> s \<in> sys_hist c \<Longrightarrow>
    rt_reach vl ev t0 (c\<lparr>sys_tab := sweep_from s order now (sys_tab c)\<rparr>)"
| rt_warn: "rt_reach vl ev t0 c \<Longrightarrow> warnDrop (sys_tab c) key now = (ok, t') \<Longrightarrow>
    rt_reach vl ev t0 (c\<lparr>sys_tab := t'\<rparr>)"

definition hist_ok :: "routingSnapshot set \<Rightarrow> nat \<Rightarrow> bool" where
  "hist_ok H nr \<longleftrightarrow> (\<forall>s \<in> H. \<forall>s' \<in> H. \<forall>k k' st st'. sn_states s k = Some st \<and> sn_states s' k' = Some st'
       \<longrightarrow> ps_ref st < nr \<and> (ps_ref st = ps_ref st' \<longrightarrow> st = st'))"

definition no_orphans :: "RoutingTable \<Rightarrow> PortKey multiset \<Rightarrow> bool" where
  "no_orphans t pend \<longleftrightarrow> (\<forall>key. dom (binds_of t key) \<noteq> {} \<longrightarrow> key \<in># pend \<or>
     (\<exists>st. sn_states (rt_snap t) key = Some st \<and> ps_affinityMode st = affinityClientIP))"

definition sys_ok :: "RoutingTable \<Rightarrow> rt_system \<Rightarrow> bool" where
  "sys_ok t0 c \<longleftrightarrow> same_node t0 (sys_tab c) \<and> table_ok (sys_tab c) \<and> aff_ok (sys_tab c) \<and> rt_snap (sys_tab c) \<in> sys_hist c
     \<and> hist_ok (sys_hist c) (rt_nextRef (sys_tab c)) \<and> no_orphans (sys_tab c) (sys_pend c)"

lemma hist_ok_mono: "hist_ok H n \<Longrightarrow> n \<le> m \<Longrightarrow> hist_ok H m"
  unfolding hist_ok_def by (meson less_le_trans)

text \<open>A new snapshot changes at most one key, to nothing or to a state of a fresh identity.\<close>

lemma hist_ok_insert:
  assumes "hist_ok H n" and "s0 \<in> H" and "n \<le> m"
    and "sn_states s = (sn_states s0)(key := x)"
    and "\<And>st. x = Some st \<Longrightarrow> n \<le> ps_ref st \<and> ps_ref st < m"
  shows "hist_ok (insert s H) m"
proof -
  have old: "ps_ref st < m \<and> (ps_ref st = ps_ref st' \<longrightarrow> st = st') \<and> ps_ref st < n"
    if "s1 \<in> H" "s2 \<in> H" "sn_states s1 k = Some st" "sn_states s2 k' = Some st'" for s1 s2 k k' st st'
    using assms(1,3) that unfolding hist_ok_def by (meson less_le_trans)
  have new: "x = Some st \<or> (\<exists>s1 \<in> H. sn_states s1 k = Some st)"
    if "s1 \<in> insert s H" "sn_states s1 k = Some st" for s1 k st
    using that assms(2,4) by (auto split: if_split_asm)
  show ?thesis
    unfolding hist_ok_def
  proof (intro ballI allI impI, elim conjE)
    fix s1 s2 k k' st st'
    assume a: "s1 \<in> insert s H" "s2 \<in> insert s H" "sn_states s1 k = Some st" "sn_states s2 k' = Some st'"
    from new [OF a(1,3)] new [OF a(2,4)]
    show "ps_ref st < m \<and> (ps_ref st = ps_ref st' \<longrightarrow> st = st')"
      using assms(5) old by (metis not_le option.inject)
  qed
qed

lemma install_store_fresh:
  assumes "install_store vl key svc eps policy aff t = (n, pu, t')"
    and "sn_states (rt_snap t') key = Some st"
  shows "rt_nextRef t \<le> ps_ref st" "ps_ref st < rt_nextRef t'"
proof -
  define ready where "ready = sort_key be_key (ready_backends vl t eps)"
  define locals where "locals = filter (\<lambda>b. nodeLocal (be_locality b)) ready"
  obtain m t1 where a: "advanceMeta t key svc ready locals policy = (m, t1)" by fastforce
  have "rt_nextRef t \<le> rt_nextRef t1" using advanceMeta_frame(1) [OF a] by (simp add: same_node_def)
  then show "rt_nextRef t \<le> ps_ref st" "ps_ref st < rt_nextRef t'"
    using assms unfolding install_store_def Let_def ready_def [symmetric] locals_def [symmetric] a prod.case
    by (auto simp: rt_store_def withState_def split: if_split_asm)
qed

lemma aff_frame_sys_ok:
  assumes "sys_ok t0 c" and "aff_frame b key (sys_tab c) t'"
    and "b \<Longrightarrow> \<exists>st. sn_states (rt_snap (sys_tab c)) key = Some st \<and> ps_affinityMode st = affinityClientIP"
  shows "sys_ok t0 (c\<lparr>sys_tab := t'\<rparr>)"
proof -
  note f = assms(2) [unfolded aff_frame_def]
  have "table_ok t'" using assms(1) f by (auto simp: sys_ok_def elim!: table_ok_frame)
  moreover have "hist_ok (sys_hist c) (rt_nextRef t')"
    using assms(1) f hist_ok_mono by (auto simp: sys_ok_def same_node_def)
  moreover have "no_orphans t' (sys_pend c)"
    unfolding no_orphans_def
  proof (intro allI impI)
    fix k assume k: "dom (binds_of t' k) \<noteq> {}"
    show "k \<in># sys_pend c \<or> (\<exists>st. sn_states (rt_snap t') k = Some st \<and> ps_affinityMode st = affinityClientIP)"
    proof (cases "k = key \<and> b")
      case True
      then show ?thesis using assms(3) f by simp
    next
      case False
      then have "dom (binds_of (sys_tab c) k) \<noteq> {}" using f k by blast
      then show ?thesis using assms(1) f by (simp add: sys_ok_def no_orphans_def)
    qed
  qed
  moreover have "same_node t0 t'" using assms(1) f same_node_trans by (simp add: sys_ok_def) blast
  ultimately show ?thesis using assms(1) f by (simp add: sys_ok_def)
qed

lemma sys_store_ok:
  assumes "sys_ok t0 c" and "table_ok t'" and "same_aff (sys_tab c) t'" and "same_node (sys_tab c) t'"
    and "sn_states (rt_snap t') = (sn_states (rt_snap (sys_tab c)))(key := x)"
    and "\<And>st. x = Some st \<Longrightarrow> rt_nextRef (sys_tab c) \<le> ps_ref st \<and> ps_ref st < rt_nextRef t'"
    and "key \<in># pend \<or> (\<exists>st. x = Some st \<and> ps_affinityMode st = affinityClientIP)"
    and "set_mset (sys_pend c) \<subseteq> set_mset pend"
  shows "sys_ok t0 (sys_store c t' pend)"
proof -
  have b: "binds_of t' k = binds_of (sys_tab c) k" for k using same_aff_binds [OF assms(3)] .
  have "no_orphans t' pend"
    using assms(1,5,7,8) unfolding no_orphans_def b sys_ok_def by (auto split: if_split)
  moreover have "hist_ok (insert (rt_snap t') (sys_hist c)) (rt_nextRef t')"
    using assms(1,4) by (intro hist_ok_insert [OF _ _ _ assms(5,6)]) (auto simp: sys_ok_def same_node_def)
  moreover have "same_node t0 t'" using assms(1,4) same_node_trans by (simp add: sys_ok_def) blast
  ultimately show ?thesis
    using assms(1,2) aff_ok_cong [OF assms(3)] by (simp add: sys_ok_def sys_store_def)
qed

lemma sys_ok_init: "sys_ok (proxy_table p n cl) (sys_init (proxy_table p n cl))"
proof -
  have "0 \<le> max 1 maxAffinityBindingsTotal" "0 \<le> max 1 maxAffinityBindingsPerPort" by linarith+
  then show ?thesis
    by (simp add: sys_ok_def table_ok_def aff_ok_def hist_ok_def no_orphans_def NewRoutingTable_def
      binds_of_def total_bindings_def proxy_table_def sys_init_def)
qed

lemma sys_ok_purge:
  assumes "sys_ok t0 c"
  shows "sys_ok t0 (c\<lparr>sys_tab := purgeAffinity key (sys_tab c), sys_pend := sys_pend c - {#key#}\<rparr>)"
proof -
  have f: "aff_frame False key (sys_tab c) (purgeAffinity key (sys_tab c))"
    using dropAffinity_aff_frame assms by (simp add: purgeAffinity_def sys_ok_def)
  have g: "sys_ok t0 (c\<lparr>sys_tab := purgeAffinity key (sys_tab c)\<rparr>)"
    using aff_frame_sys_ok [OF assms f] by simp
  have "binds_of (purgeAffinity key (sys_tab c)) key = Map.empty"
    by (simp add: purgeAffinity_def dropAffinity_def binds_of_def)
  then have "k \<noteq> key" if "dom (binds_of (purgeAffinity key (sys_tab c)) k) \<noteq> {}" for k
    using that by auto
  then show ?thesis
    using g unfolding sys_ok_def no_orphans_def by (simp add: in_diff_count)
      (metis count_inI in_diff_count not_less_iff_gr_or_eq count_single zero_less_iff_neq_zero)
qed

lemma rt_reach_ok:
  assumes "rt_reach vl ev t0 c" and "picks_element ev" and "t0 = proxy_table p n cl"
  shows "sys_ok t0 c"
  using assms(1)
proof induction
  case rt_init
  show ?case unfolding assms(3) by (rule sys_ok_init)
next
  case (rt_install c key svc eps policy aff n pu t')
  then have "table_ok (sys_tab c)" by (simp add: sys_ok_def)
  note i = install_store_ok [OF this rt_install(2)]
  show ?case
    by (rule sys_store_ok [OF rt_install(3) i(1) _ i(2,3)])
      (use i install_store_fresh [OF rt_install(2)] in \<open>auto simp: same_aff_def\<close>)
next
  case (rt_delete c key)
  have "table_ok (delete_store key (sys_tab c))"
    using rt_delete table_ok_withState_None by (simp add: sys_ok_def delete_store_def rt_store_def)
  then show ?case
    using rt_delete(2)
    by (intro sys_store_ok [where key = key and x = None])
      (auto simp: delete_store_def rt_store_def withState_def same_aff_def same_node_def)
next
  case (rt_purge c key)
  show ?case by (rule sys_ok_purge [OF rt_purge(3)])
next
  case (rt_forget c key)
  then show ?case
    by (auto simp: sys_ok_def aff_ok_def binds_of_def no_orphans_def same_node_def
        elim!: table_ok_frame split: if_split_asm)
next
  case (rt_override c es)
  have "table_ok (SetTransportOverrides es (sys_tab c))"
    using rt_override
    by (auto simp: sys_ok_def SetTransportOverrides_def rt_store_def withTransport_def same_node_def
        elim!: table_ok_frame)
  moreover have "hist_ok (insert (rt_snap (SetTransportOverrides es (sys_tab c))) (sys_hist c))
      (rt_nextRef (sys_tab c))"
    using rt_override(2) unfolding sys_ok_def hist_ok_def
    by (simp add: SetTransportOverrides_def rt_store_def withTransport_def) blast
  ultimately show ?case
    using rt_override(2) aff_ok_cong [of "sys_tab c" "SetTransportOverrides es (sys_tab c)"]
    by (simp add: sys_ok_def sys_store_def no_orphans_def binds_of_def SetTransportOverrides_def
        rt_store_def withTransport_def same_aff_def same_node_def)
next
  case (rt_pick c key r t')
  then have "aff_frame False key (sys_tab c) t'" by (intro Pick_aff_frame) (simp_all add: sys_ok_def)
  with rt_pick(3) show ?case by (rule aff_frame_sys_ok) simp
next
  case (rt_sticky c s1 s2 key client now external r t')
  have f: "aff_frame (bound_under s2 (rt_snap (sys_tab c)) key) key (sys_tab c) t'"
    using rt_sticky(4,5) assms(2) by (intro pickStickyScoped_ok) (simp_all add: sys_ok_def)
  show ?case
  proof (rule aff_frame_sys_ok [OF rt_sticky(5) f])
    assume "bound_under s2 (rt_snap (sys_tab c)) key"
    then show "\<exists>st. sn_states (rt_snap (sys_tab c)) key = Some st \<and> ps_affinityMode st = affinityClientIP"
      using rt_sticky(3,5) unfolding bound_under_def sys_ok_def hist_ok_def by blast
  qed
next
  case (rt_sweep c s order now)
  then have "aff_frame False k0 (sys_tab c) (sweep_from s order now (sys_tab c))" for k0
    by (intro sweep_from_aff_frame) (simp add: sys_ok_def)
  with rt_sweep(3) show ?case by (rule aff_frame_sys_ok) simp
next
  case (rt_warn c key now ok t')
  then have "\<exists>M. t' = (sys_tab c)\<lparr>rt_metas := M\<rparr>"
    by (auto simp: warnDrop_def Let_def split: option.split_asm prod.split_asm intro: exI [of _ "rt_metas (sys_tab c)"])
  with rt_warn(3) show ?case
    by (auto simp: sys_ok_def aff_ok_def binds_of_def no_orphans_def same_node_def elim!: table_ok_frame)
qed

section \<open>Stickiness\<close>

lemma sticky_bind_binds:
  assumes "aff_ok t" and "picks_element ev" and "rt_affinityCount t < max 1 (rt_maxAffinityTotal t)"
    and "sn_states s3 key = Some st"
  shows "binds_of (sticky_bind ev s3 key client now st be t) key client
    = Some \<lparr>ab_backend = be, ab_lastSeen = now\<rparr>"
proof -
  define t1 where "t1 = evict_full ev key t"
  have "rt_affinityCount t1 \<le> rt_affinityCount t"
    using evict_full_ok(5) [OF assms(1,2)] by (simp add: t1_def)
  then have c: "\<not> max 1 (rt_maxAffinityTotal t) \<le> rt_affinityCount t1" using assms(3) by linarith
  show ?thesis
    unfolding sticky_bind_def Let_def t1_def [symmetric] if_not_P [OF c] assms(4)
    by (simp add: binds_of_def)
qed

text \<open>A pick that reads one snapshot, below the global ceiling, leaves the client bound to its result.\<close>

lemma sticky_locked_bound:
  assumes "aff_ok t" and "picks_element ev" and "rt_affinityCount t < max 1 (rt_maxAffinityTotal t)"
    and locked: "sticky_locked ev s s key client now external t = (Inr b, t')"
    and "sn_states s key = Some st" and "ps_affinityMode st = affinityClientIP" and "state_ok t st"
  shows "\<exists>pool aset. fst (scoped t s key external) = Inr (st, pool, aset) \<and> be_addr b \<in> aset
    \<and> binds_of t' key client = Some \<lparr>ab_backend = b, ab_lastSeen = now\<rparr>"
proof -
  obtain x t1 where sc: "scoped t s key external = (x, t1)" by (cases "scoped t s key external")
  obtain pool aset where x: "x = Inr (st, pool, aset)"
    using locked scoped_Inr(1) [of t s key external] assms(5) sc
    by (cases x) (auto simp: sticky_locked_def)
  note f = scoped_frame [OF sc]
  have ok1: "aff_ok t1" using assms(1) aff_ok_cong [OF f(2)] by simp
  have c1: "rt_affinityCount t1 < max 1 (rt_maxAffinityTotal t1)"
    using f(2) assms(3) by (simp add: same_aff_def)
  have aset: "be_addr a \<in> aset" if "a \<in> set pool" for a
    using scoped_Inr(3) [OF sc [unfolded x]] that assms(7) by (auto simp: state_ok_def split: if_split_asm)
  have fresh: "be_addr be \<in> aset
      \<and> binds_of (sticky_bind ev s key client now st be t3) key client = Some \<lparr>ab_backend = be, ab_lastSeen = now\<rparr>"
    if t2: "aff_ok t2" "rt_affinityCount t2 \<le> rt_affinityCount t1" "rt_maxAffinityTotal t2 = rt_maxAffinityTotal t1"
      and rr: "roundRobin t2 st pool = (be, t3)" for t2 be t3
  proof -
    note g = roundRobin_frame [OF rr]
    have "aff_ok t3" using t2(1) aff_ok_cong [OF g(2)] by simp
    moreover have "rt_affinityCount t3 < max 1 (rt_maxAffinityTotal t3)"
      using g(2) t2 c1 unfolding same_aff_def by (metis le_less_trans)
    ultimately show ?thesis
      using sticky_bind_binds [OF _ assms(2) _ assms(5)] aset g(5) scoped_Inr(2) [OF sc [unfolded x]] by blast
  qed
  obtain be t2 where rr: "roundRobin t1 st pool = (be, t2)" by (cases "roundRobin t1 st pool")
  obtain be' t3 where rr': "roundRobin (dropBinding key client t1) st pool = (be', t3)"
    by (cases "roundRobin (dropBinding key client t1) st pool")
  note L = locked [unfolded sticky_locked_def sc x]
  have "be_addr b \<in> aset \<and> binds_of t' key client = Some \<lparr>ab_backend = b, ab_lastSeen = now\<rparr>"
  proof (cases "binds_of t1 key client")
    case None
    then show ?thesis using L assms(6) fresh [OF ok1 _ _ rr] by (simp add: rr) blast
  next
    case (Some a)
    then have d: "aff_ok (dropBinding key client t1)" using aff_ok_dropBinding(1) [OF ok1] by blast
    have d2: "rt_affinityCount (dropBinding key client t1) \<le> rt_affinityCount t1"
      "rt_maxAffinityTotal (dropBinding key client t1) = rt_maxAffinityTotal t1"
      by (simp_all add: dropBinding_def)
    show ?thesis
    proof (cases "still_bound a aset now st")
      case True
      then show ?thesis using L Some assms(6)
        by (auto simp: still_bound_def binds_of_def split: option.split_asm)
    next
      case False
      then show ?thesis using L Some assms(6) fresh [OF d d2 rr'] by (simp add: rr') blast
    qed
  qed
  then show ?thesis using sc x by simp
qed

lemma sticky_locked_hit:
  assumes "fst (scoped t s key external) = Inr (st, pool, aset)" and "ps_affinityMode st = affinityClientIP"
    and "binds_of t key client = Some a" and "still_bound a aset now st"
  shows "fst (sticky_locked ev s s3 key client now external t) = Inr (ab_backend a)"
proof -
  obtain t1 where sc: "scoped t s key external = (Inr (st, pool, aset), t1)"
    using assms(1) by (cases "scoped t s key external") simp
  then show ?thesis
    using assms same_aff_binds [OF scoped_frame(2) [OF sc]] by (simp add: sticky_locked_def)
qed

lemma pickStickyScoped_locked:
  assumes "sn_states s key = Some st" and "ps_affinityMode st = affinityClientIP"
    and "fst (scoped t s key external) = Inr y"
  shows "\<exists>t1. same_node t t1 \<and> same_aff t t1 \<and> rt_snap t1 = rt_snap t
    \<and> pickStickyScoped ev s s s key client now external t = sticky_locked ev s s key client now external t1"
proof -
  obtain t1 where sc: "scoped t s key external = (Inr y, t1)"
    using assms(3) by (cases "scoped t s key external") simp
  obtain st' pool aset where y: "y = (st', pool, aset)" by (cases y)
  have "st' = st" using scoped_Inr(1) [OF sc [unfolded y]] assms(1) by simp
  then show ?thesis
    using scoped_frame [OF sc] assms(2) by (intro exI [of _ t1]) (simp add: pickStickyScoped_def sc y)
qed

lemma sticky_returns:
  assumes "sn_states s key = Some st" and "ps_affinityMode st = affinityClientIP"
    and "fst (scoped t s key external) = Inr y"
  shows "\<exists>b t'. pickStickyScoped ev s s s key client now external t = (Inr b, t')"
proof -
  obtain t1 where t1: "same_node t t1"
      "pickStickyScoped ev s s s key client now external t = sticky_locked ev s s key client now external t1"
    using pickStickyScoped_locked [OF assms] by blast
  obtain t2 where sc: "scoped t1 s key external = (Inr y, t2)"
    using assms(3) scoped_cong [OF t1(1), of s key external] by (cases "scoped t1 s key external") simp
  show ?thesis
    unfolding t1(2) sticky_locked_def sc
    by (cases y) (auto split: option.split prod.split)
qed

text \<open>Every sticky pick returns an address of the pool the policy allows.\<close>

lemma sticky_locked_in_set:
  assumes "fst (scoped t s key external) = Inr (st, pool, aset)" and "be_addr ` set pool \<subseteq> aset"
  shows "\<exists>b. fst (sticky_locked ev s s3 key client now external t) = Inr b \<and> be_addr b \<in> aset"
proof -
  obtain t1 where sc: "scoped t s key external = (Inr (st, pool, aset), t1)"
    using assms(1) by (cases "scoped t s key external") simp
  have rr: "be_addr (fst (roundRobin u st pool)) \<in> aset" for u
    using roundRobin_frame(5) [of u st pool] scoped_Inr(2) [OF sc] assms(2)
    by (cases "roundRobin u st pool") auto
  show ?thesis
    using rr [of t1] rr [of "dropBinding key client t1"]
    by (auto simp: sticky_locked_def sc still_bound_def split: option.split prod.split)
qed

lemma sticky_in_set:
  assumes "scoped t s key external = (Inr (st, pool, aset), t1)" and "sn_states s key = Some st"
    and "state_ok t st"
  shows "\<exists>b. fst (pickStickyScoped ev s s s3 key client now external t) = Inr b \<and> be_addr b \<in> aset"
proof -
  have sub: "be_addr ` set pool \<subseteq> aset"
    using scoped_Inr(3) [OF assms(1)] assms(3) by (auto simp: state_ok_def split: if_split_asm)
  have "be_addr (fst (roundRobin t1 st pool)) \<in> aset"
    using roundRobin_frame(5) [of t1 st pool] scoped_Inr(2) [OF assms(1)] sub
    by (cases "roundRobin t1 st pool") auto
  moreover have "fst (scoped t1 s key external) = Inr (st, pool, aset)"
    using scoped_cong [OF scoped_frame(1) [OF assms(1)]] assms(1) by simp
  ultimately show ?thesis
    using sticky_locked_in_set [OF _ sub, of t1 s key external st ev s3 client now]
    by (auto simp: pickStickyScoped_def assms(1) split: prod.split)
qed

lemma sticky_repeat:
  assumes "table_ok t" and "aff_ok t" and "picks_element ev"
    and "rt_affinityCount t < max 1 (rt_maxAffinityTotal t)"
    and st: "sn_states (rt_snap t) key = Some st" and mode: "ps_affinityMode st = affinityClientIP"
    and pick: "PickSticky ev key client now t = (Inr b, t')"
    and "now' - now < ps_affinityTimeout st"
  shows "fst (PickSticky ev' key client now' t') = Inr b"
proof -
  have ok: "state_ok t st" by (rule table_okD(1) [OF assms(1) st])
  have "\<exists>y. fst (scoped t (rt_snap t) key False) = Inr y"
    using pick by (cases "scoped t (rt_snap t) key False")
      (auto simp: PickSticky_def pickStickyScoped_def split: sum.split_asm)
  then obtain y where y: "fst (scoped t (rt_snap t) key False) = Inr y" by blast
  obtain t1 where t1: "same_node t t1" "same_aff t t1" "rt_snap t1 = rt_snap t"
      "sticky_locked ev (rt_snap t) (rt_snap t) key client now False t1 = (Inr b, t')"
    using pickStickyScoped_locked [OF st mode y] pick unfolding PickSticky_def by metis
  have aff1: "aff_ok t1" using assms(2) aff_ok_cong [OF t1(2)] by simp
  have "rt_affinityCount t1 < max 1 (rt_maxAffinityTotal t1)"
    using t1(2) assms(4) by (simp add: same_aff_def)
  from sticky_locked_bound [OF aff1 assms(3) this t1(4) st mode state_ok_same_node [OF t1(1) ok]]
  obtain pool aset where p: "fst (scoped t1 (rt_snap t) key False) = Inr (st, pool, aset)"
      "be_addr b \<in> aset" "binds_of t' key client = Some \<lparr>ab_backend = b, ab_lastSeen = now\<rparr>" by blast
  have f: "same_node t1 t'" "rt_snap t' = rt_snap t"
    using sticky_locked_ok [OF aff1 assms(3) t1(4)] t1(3) by (simp_all add: aff_frame_def)
  have s': "fst (scoped t' (rt_snap t) key False) = Inr (st, pool, aset)"
    using p(1) scoped_cong [OF f(1)] by simp
  obtain t2 where t2: "same_node t' t2" "same_aff t' t2"
      "pickStickyScoped ev' (rt_snap t) (rt_snap t) (rt_snap t) key client now' False t'
         = sticky_locked ev' (rt_snap t) (rt_snap t) key client now' False t2"
    using pickStickyScoped_locked [OF st mode s'] by blast
  have "fst (scoped t2 (rt_snap t) key False) = Inr (st, pool, aset)"
    using s' scoped_cong [OF t2(1)] by simp
  moreover have "still_bound \<lparr>ab_backend = b, ab_lastSeen = now\<rparr> aset now' st"
    using p(2) assms(8) by (simp add: still_bound_def)
  ultimately show ?thesis
    using sticky_locked_hit [OF _ mode, of t2 "rt_snap t" key False pool aset client] p(3)
      same_aff_binds [OF t2(2)] t2(3)
    by (simp add: PickSticky_def f(2))
qed

section \<open>A concrete table\<close>

text \<open>A node with pod prefix 10.42.1.0/24 serves a port by two pods, one of them its own.\<close>

definition demo_key :: PortKey where
  "demo_key = \<lparr>pk_ClusterIP = ''10.43.0.9'', pk_Port = 80, pk_Protocol = ''TCP''\<rparr>"

definition demo_eps :: "Endpoint list" where
  "demo_eps = [\<lparr>ep_IP = ''10.42.2.7'', ep_Port = 8080, ep_Ready = True\<rparr>,
     \<lparr>ep_IP = ''10.42.1.5'', ep_Port = 8080, ep_Ready = True\<rparr>]"

definition demo_t0 :: RoutingTable where
  "demo_t0 = proxy_table (pfx4 0x0A2A0100 24) (IPv4 0xC0A8010A) (pfx4 0x0A2A0000 16)"

definition demo_install :: "trafficPolicy \<Rightarrow> affinityConfig \<Rightarrow> nat \<times> bool \<times> RoutingTable" where
  "demo_install policy aff =
     install_store (\<lambda>_. True) demo_key \<lparr>sr_Namespace = ''ns'', sr_Name = ''web''\<rparr> demo_eps policy aff demo_t0"

definition demo_tab :: "trafficPolicy \<Rightarrow> affinityMode \<Rightarrow> RoutingTable" where
  "demo_tab policy mode = snd (snd (demo_install policy \<lparr>ac_mode = mode, ac_timeout = 0\<rparr>))"

definition demo_st :: "trafficPolicy \<Rightarrow> affinityMode \<Rightarrow> portState" where
  "demo_st policy mode = the (sn_states (rt_snap (demo_tab policy mode)) demo_key)"

definition demo_ev :: "addr set \<Rightarrow> addr" where
  "demo_ev S = (SOME a. a \<in> S)"

lemma picks_element_demo: "picks_element demo_ev"
  unfolding picks_element_def demo_ev_def by (metis all_not_in_conv someI_ex)

lemma demo_tab_state: "sn_states (rt_snap (demo_tab policy mode)) demo_key = Some (demo_st policy mode)"
proof -
  have "\<not> Option.is_none (sn_states (rt_snap (demo_tab policy mode)) demo_key)"
    by (cases policy; cases mode) (simp_all only:, code_simp+)
  then show ?thesis by (simp add: demo_st_def Option.is_none_def)
qed

lemma demo_tab_ok: "table_ok (demo_tab policy mode)" "aff_ok (demo_tab policy mode)"
proof -
  have t0: "sys_ok demo_t0 (sys_init demo_t0)" unfolding demo_t0_def by (rule sys_ok_init)
  obtain n pu t' where i: "demo_install policy \<lparr>ac_mode = mode, ac_timeout = 0\<rparr> = (n, pu, t')"
    by (cases "demo_install policy \<lparr>ac_mode = mode, ac_timeout = 0\<rparr>")
  then have d: "demo_tab policy mode = t'" by (simp add: demo_tab_def)
  have "table_ok demo_t0" "aff_ok demo_t0" using t0 by (simp_all add: sys_ok_def sys_init_def)
  note s = install_store_ok [OF this(1) i [unfolded demo_install_def]]
  show "table_ok (demo_tab policy mode)" using s(1) by (simp add: d)
  show "aff_ok (demo_tab policy mode)"
    using \<open>aff_ok demo_t0\<close> aff_ok_cong [of demo_t0 t'] s(4-7) by (simp add: d same_aff_def)
qed

lemma demo_tab_reach: "\<exists>c. rt_reach (\<lambda>_. True) demo_ev demo_t0 c \<and> sys_tab c = demo_tab policy mode"
proof -
  obtain n pu t' where i: "demo_install policy \<lparr>ac_mode = mode, ac_timeout = 0\<rparr> = (n, pu, t')"
    by (cases "demo_install policy \<lparr>ac_mode = mode, ac_timeout = 0\<rparr>")
  have "install_store (\<lambda>_. True) demo_key \<lparr>sr_Namespace = ''ns'', sr_Name = ''web''\<rparr> demo_eps policy
      \<lparr>ac_mode = mode, ac_timeout = 0\<rparr> (sys_tab (sys_init demo_t0)) = (n, pu, t')"
    using i by (simp add: demo_install_def sys_init_def)
  from rt_install [OF rt_init this] show ?thesis
    using i by (intro exI) (auto simp: sys_store_def demo_tab_def)
qed

section \<open>Properties\<close>

text \<open>C12. Affinity bookkeeping: however picks, installs, deletes, purges and sweeps interleave, the
  global counter is the exact number of bindings, it stays within the relay-wide ceiling, no port
  holds more than its own cap, and a key with bindings has a ClientIP state installed unless a purge
  of the key is still to run.\<close>

theorem affinity_bookkeeping:
  assumes "rt_reach vl ev (proxy_table podCIDR node cluster) c" and "picks_element ev"
  shows "rt_affinityCount (sys_tab c) = total_bindings (rt_affinity (sys_tab c))
    \<and> rt_affinityCount (sys_tab c) \<le> maxAffinityBindingsTotal
    \<and> int (card (dom (binds_of (sys_tab c) key))) \<le> maxAffinityBindingsPerPort
    \<and> (dom (binds_of (sys_tab c) key) \<noteq> {} \<longrightarrow> key \<in># sys_pend c \<or>
        (\<exists>st. sn_states (rt_snap (sys_tab c)) key = Some st \<and> ps_affinityMode st = affinityClientIP))"
proof -
  have ok: "sys_ok (proxy_table podCIDR node cluster) c" by (rule rt_reach_ok [OF assms refl])
  then have m: "rt_maxAffinityPerPort (sys_tab c) = maxAffinityBindingsPerPort"
    "rt_maxAffinityTotal (sys_tab c) = maxAffinityBindingsTotal"
    by (simp_all add: sys_ok_def same_node_def proxy_table_def NewRoutingTable_def)
  have "aff_ok (sys_tab c)" using ok by (simp add: sys_ok_def)
  from aff_okD [OF this] m ok show ?thesis
    by (auto simp: sys_ok_def no_orphans_def maxAffinityBindingsPerPort_def maxAffinityBindingsTotal_def)
qed

theorem affinity_bookkeeping_witness:
  "\<exists>c. rt_reach (\<lambda>_. True) demo_ev demo_t0 c \<and> picks_element demo_ev
     \<and> sys_tab c = demo_tab trafficCluster affinityClientIP
     \<and> rt_affinityCount (sys_tab c) = total_bindings (rt_affinity (sys_tab c))"
  using demo_tab_reach [of trafficCluster affinityClientIP] picks_element_demo
    affinity_bookkeeping [of "\<lambda>_. True" demo_ev, folded demo_t0_def] unfolding demo_t0_def by blast

text \<open>C16. Round robin is fair: while the 64-bit cursor does not wrap, any \<open>k\<close> full rounds of picks
  serve every backend of the pool exactly \<open>k\<close> times (as often as the pool lists it).\<close>

theorem pick_fairness:
  assumes "sn_states (rt_snap t) key = Some st" and "pool_of t key = Inr pool"
    and "unat (rt_cursor t (ps_ref st)) + k * length pool \<le> 2 ^ 64"
  shows "mset (fst (pick_n (k * length pool) t key)) = repeat_mset k (image_mset Inr (mset pool))"
  using rounds_mset [of "\<lambda>i. Inr (pool ! i)" "unat (rt_cursor t (ps_ref st))" "length pool" k]
  unfolding pick_n_pool [OF assms] map_nth_Inr .


theorem pick_fairness_witness:
  "pool_of (demo_tab trafficCluster affinityNone) demo_key = Inr (Backends (demo_tab trafficCluster affinityNone) demo_key)
   \<and> length (Backends (demo_tab trafficCluster affinityNone) demo_key) = 2
   \<and> mset (fst (pick_n (3 * 2) (demo_tab trafficCluster affinityNone) demo_key))
      = repeat_mset 3 (image_mset Inr (mset (Backends (demo_tab trafficCluster affinityNone) demo_key)))"
proof -
  let ?t = "demo_tab trafficCluster affinityNone"
  let ?p = "Backends ?t demo_key"
  have p: "pool_of ?t demo_key = Inr ?p" by code_simp
  have l: "length ?p = 2" by code_simp
  have c: "rt_cursor ?t (ps_ref (demo_st trafficCluster affinityNone)) = 0" by code_simp
  have "unat (rt_cursor ?t (ps_ref (demo_st trafficCluster affinityNone))) + 3 * length ?p \<le> 2 ^ 64"
    unfolding c l by simp
  from pick_fairness [OF demo_tab_state p this] p l show ?thesis by simp
qed

text \<open>C18. internalTrafficPolicy Local: on a node that knows its pod prefix a pick, sticky or not, returns
  only node-local addresses, and when it fails none of the port's backends is node-local.\<close>

theorem local_traffic_stays:
  assumes "table_ok t" and "aff_ok t" and "prefix_IsValid (rt_podCIDR t)"
    and "sn_states (rt_snap t) key = Some st" and "ps_policy st = trafficLocal"
    and "r = fst (Pick t key) \<or> r = fst (PickSticky ev key client now t)"
  shows "case r of Inr b \<Rightarrow> nodeLocal (classify t (ap_addr (be_addr b)))
    | Inl e \<Rightarrow> e = ErrNoLocalBackends
        \<and> (\<forall>b \<in> set (Backends t key). \<not> nodeLocal (classify t (ap_addr (be_addr b))))"
proof -
  have ok: "state_ok t st" by (rule table_okD(1) [OF assms(1,4)])
  obtain x t1 where sc: "scoped t (rt_snap t) key False = (x, t1)" by (cases "scoped t (rt_snap t) key False")
  have x: "x = (if ps_locals st = [] then Inl ErrNoLocalBackends else Inr (st, ps_locals st, ps_localSet st))"
    using scoped_state [OF assms(4) ok, of False] assms(3,5) sc by simp
  show ?thesis
  proof (cases "ps_locals st = []")
    case True
    then have "r = Inl ErrNoLocalBackends"
      using assms(6) sc x by (auto simp: Pick_def PickSticky_def pickStickyScoped_def)
    moreover have "\<forall>b \<in> set (Backends t key). \<not> nodeLocal (classify t (ap_addr (be_addr b)))"
      using ok True assms(4) by (simp add: state_ok_def Backends_def) (metis filter_empty_conv)
    ultimately show ?thesis by simp
  next
    case False
    have loc: "nodeLocal (classify t (ap_addr a))" if "a \<in> ps_localSet st" for a
      using ok that by (auto simp: state_ok_def)
    have "\<exists>b. r = Inr b \<and> be_addr b \<in> ps_localSet st"
      using assms(6)
    proof
      assume "r = fst (Pick t key)"
      then show ?thesis
        using sc x False roundRobin_frame(5) [of t1 st "ps_locals st"] ok
        by (cases "roundRobin t1 st (ps_locals st)") (auto simp: Pick_def state_ok_def)
    next
      assume r: "r = fst (PickSticky ev key client now t)"
      show ?thesis
        using sticky_in_set [OF sc [unfolded x if_not_P [OF False]] assms(4) ok, of ev "rt_snap t" client now] r False
        by (simp add: PickSticky_def)
    qed
    then show ?thesis using loc by auto
  qed
qed

theorem local_traffic_stays_witness:
  "case fst (PickSticky demo_ev demo_key (IPv4 7) 5 (demo_tab trafficLocal affinityClientIP)) of
     Inr b \<Rightarrow> nodeLocal (classify (demo_tab trafficLocal affinityClientIP) (ap_addr (be_addr b)))
   | Inl e \<Rightarrow> e = ErrNoLocalBackends
        \<and> (\<forall>b \<in> set (Backends (demo_tab trafficLocal affinityClientIP) demo_key).
              \<not> nodeLocal (classify (demo_tab trafficLocal affinityClientIP) (ap_addr (be_addr b))))"
proof -
  have "prefix_IsValid (rt_podCIDR (demo_tab trafficLocal affinityClientIP))" by code_simp
  moreover have "ps_policy (demo_st trafficLocal affinityClientIP) = trafficLocal" by code_simp
  ultimately show ?thesis
    using local_traffic_stays [OF demo_tab_ok _ demo_tab_state _ disjI2 [OF refl]] by blast
qed

text \<open>C19. Stickiness: below the relay-wide ceiling, a client that a ClientIP port served gets the same
  backend again at every later pick within the affinity timeout, while the table is not changed.\<close>

theorem sticky_same_backend:
  assumes "table_ok t" and "aff_ok t" and "picks_element ev"
    and "rt_affinityCount t < max 1 (rt_maxAffinityTotal t)"
    and "sn_states (rt_snap t) key = Some st" and "ps_affinityMode st = affinityClientIP"
    and "PickSticky ev key client now t = (Inr b, t')"
    and "now' - now < ps_affinityTimeout st"
  shows "fst (PickSticky ev' key client now' t') = Inr b"
  by (rule sticky_repeat [OF assms])

theorem sticky_same_backend_witness:
  "\<exists>b t'. PickSticky demo_ev demo_key (IPv4 7) 5 (demo_tab trafficCluster affinityClientIP) = (Inr b, t')
    \<and> fst (PickSticky demo_ev demo_key (IPv4 7) 900 t') = Inr b"
proof -
  let ?t = "demo_tab trafficCluster affinityClientIP"
  let ?st = "demo_st trafficCluster affinityClientIP"
  have "rt_affinityCount ?t = 0" by code_simp
  then have h: "rt_affinityCount ?t < max 1 (rt_maxAffinityTotal ?t)" by simp
  have m: "ps_affinityMode ?st = affinityClientIP" by code_simp
  have o: "900 - 5 < ps_affinityTimeout ?st" by code_simp
  have y: "fst (scoped ?t (rt_snap ?t) demo_key False) = Inr (?st, ps_all ?st, ps_allSet ?st)"
    unfolding scoped_state [OF demo_tab_state table_okD(1) [OF demo_tab_ok(1) demo_tab_state]] by code_simp
  obtain b t' where p: "PickSticky demo_ev demo_key (IPv4 7) 5 ?t = (Inr b, t')"
    using sticky_returns [OF demo_tab_state m y] unfolding PickSticky_def by blast
  show ?thesis
    using sticky_same_backend [OF demo_tab_ok picks_element_demo h demo_tab_state m p o] p by blast
qed

text \<open>C20. An install replaces the port's backends by the admitted endpoints (ready, valid, parseable), in
  address order, and touches no other port; without endpoints picks fail with ErrNoBackends, and
  unless the port keeps ClientIP affinity its bindings are gone.\<close>

theorem install_backends:
  assumes "table_ok t" and "installEndpoints vl key svc eps policy aff t = (n, t')"
  shows "Backends t' key = sort_key be_key (ready_backends vl t eps) \<and> n = length (Backends t' key)
    \<and> be_addr ` set (Backends t' key) = {ap. \<exists>ep \<in> set eps. admitEndpoint vl ep = Some ap}
    \<and> (\<forall>k. k \<noteq> key \<longrightarrow> Backends t' k = Backends t k)
    \<and> (n = 0 \<longrightarrow> fst (Pick t' key) = Inl ErrNoBackends)
    \<and> (n = 0 \<or> ac_mode aff \<noteq> affinityClientIP \<longrightarrow> binds_of t' key = Map.empty) \<and> table_ok t'"
proof -
  obtain m pu t1 where i: "install_store vl key svc eps policy aff t = (m, pu, t1)"
    by (cases "install_store vl key svc eps policy aff t")
  note s = install_store_ok [OF assms(1) i]
  have nt: "n = m" "t' = (if pu then purgeAffinity key t1 else t1)"
    using assms(2) i by (simp_all add: installEndpoints_def)
  have sn: "rt_snap t' = rt_snap t1" by (simp add: nt purgeAffinity_def dropAffinity_def)
  have len: "m = length (sort_key be_key (ready_backends vl t eps))"
    and pu: "pu \<longleftrightarrow> m = 0 \<or> ac_mode aff \<noteq> affinityClientIP"
    using i by (auto simp: install_store_def Let_def dest: arg_cong [of _ _ length]
        split: prod.split_asm if_split_asm)
  have b: "Backends t' key = sort_key be_key (ready_backends vl t eps)"
    using s(8) by (simp add: Backends_def sn)
  have adm: "be_addr ` set (ready_backends vl t eps) = {ap. \<exists>ep \<in> set eps. admitEndpoint vl ep = Some ap}"
    by (induction eps) (auto split: option.split)
  have other: "Backends t' k = Backends t k" if "k \<noteq> key" for k
    using that s(3) by (simp add: Backends_def sn) (metis fun_upd_apply)
  have "table_ok t'"
    using s(1) by (auto simp: nt purgeAffinity_def dropAffinity_def same_node_def elim!: table_ok_frame)
  moreover have "fst (Pick t' key) = Inl ErrNoBackends" if "n = 0"
    using that b len nt by (auto simp: Pick_def scoped_def Backends_def split: option.split_asm)
  moreover have "binds_of t' key = Map.empty" if "n = 0 \<or> ac_mode aff \<noteq> affinityClientIP"
    using that pu by (simp add: nt purgeAffinity_def dropAffinity_def binds_of_def)
  ultimately show ?thesis using b len nt adm other by simp
qed

theorem install_backends_witness:
  "\<exists>n t'. installEndpoints (\<lambda>_. True) demo_key \<lparr>sr_Namespace = ''ns'', sr_Name = ''web''\<rparr> [] trafficCluster
     \<lparr>ac_mode = affinityClientIP, ac_timeout = 0\<rparr> (demo_tab trafficCluster affinityClientIP) = (n, t')
     \<and> Backends t' demo_key = [] \<and> fst (Pick t' demo_key) = Inl ErrNoBackends"
proof -
  obtain n t' where i: "installEndpoints (\<lambda>_. True) demo_key \<lparr>sr_Namespace = ''ns'', sr_Name = ''web''\<rparr> [] trafficCluster
     \<lparr>ac_mode = affinityClientIP, ac_timeout = 0\<rparr> (demo_tab trafficCluster affinityClientIP) = (n, t')" by fastforce
  from install_backends [OF demo_tab_ok(1) i] i show ?thesis by simp
qed

text \<open>Successive claims on one key, with the generation and the time of each; the accepted ones.\<close>

fun claims :: "keyMeta \<Rightarrow> (u64 \<times> int) list \<Rightarrow> (u64 \<times> int) list" where
  "claims m [] = []"
| "claims m ((gen, now) # cs) =
     (case claimDropWarn m gen now of (ok, m') \<Rightarrow> if ok then (gen, now) # claims m' cs else claims m' cs)"

lemma claims_bounds:
  assumes "\<forall>c \<in> set cs. 0 < snd c" and "(g, n) \<in> set (claims m cs)"
  shows "km_dropWarned m < g \<and> 0 < n \<and> (km_lastDropWarn m \<noteq> 0 \<longrightarrow> km_lastDropWarn m + dropWarnFloor \<le> n)"
  using assms
proof (induction cs arbitrary: m)
  case (Cons c cs)
  obtain gen now where c: "c = (gen, now)" by (cases c)
  obtain ok m' where k: "claimDropWarn m gen now = (ok, m')" by (cases "claimDropWarn m gen now")
  show ?case
  proof (cases ok)
    case True
    then have m': "m' = m\<lparr>km_dropWarned := gen, km_lastDropWarn := now\<rparr>" "km_dropWarned m < gen"
      "km_lastDropWarn m \<noteq> 0 \<longrightarrow> km_lastDropWarn m + dropWarnFloor \<le> now"
      using k by (auto simp: claimDropWarn_def not_le split: if_split_asm)
    have now: "0 < now" using Cons.prems(1) c by simp
    have "(g, n) = (gen, now) \<or> (g, n) \<in> set (claims m' cs)" using Cons.prems(2) c k True by auto
    then show ?thesis
    proof
      assume "(g, n) = (gen, now)"
      then show ?thesis using m' now by simp
    next
      assume "(g, n) \<in> set (claims m' cs)"
      then have "gen < g \<and> 0 < n \<and> now + dropWarnFloor \<le> n"
        using Cons.IH [of m'] Cons.prems(1) m'(1) now by simp
      then show ?thesis using m' by (auto simp: dropWarnFloor_def)
    qed
  next
    case False
    then have "m' = m" using k by (auto simp: claimDropWarn_def split: if_split_asm)
    then show ?thesis using Cons False c k by simp
  qed
qed simp

text \<open>Drop warnings are throttled: of any sequence of claims on a key, the accepted ones have
  strictly increasing generations (at most one per generation) and are at least ten seconds apart.\<close>

theorem drop_warn_throttled:
  assumes "\<forall>c \<in> set cs. 0 < snd c"
  shows "sorted_wrt (\<lambda>a b. fst a < fst b \<and> snd a + dropWarnFloor \<le> snd b) (claims m cs)"
  using assms
proof (induction cs arbitrary: m)
  case (Cons c cs)
  obtain gen now where c: "c = (gen, now)" by (cases c)
  obtain ok m' where k: "claimDropWarn m gen now = (ok, m')" by (cases "claimDropWarn m gen now")
  have "gen < g \<and> now + dropWarnFloor \<le> n" if "(g, n) \<in> set (claims m' cs)" "ok" for g n
    using claims_bounds [OF _ that(1)] Cons.prems c k that(2)
    by (auto simp: claimDropWarn_def split: if_split_asm)
  then show ?case using Cons k c by auto
qed simp

theorem drop_warn_throttled_witness:
  "claims no_meta [(1, 5), (1, 20000000000), (2, 9000000000), (2, 30000000000)] = [(1, 5), (2, 30000000000)]
   \<and> sorted_wrt (\<lambda>a b. fst a < fst b \<and> snd a + dropWarnFloor \<le> snd b)
       (claims no_meta [(1, 5), (1, 20000000000), (2, 9000000000), (2, 30000000000)])"
proof
  show "claims no_meta [(1, 5), (1, 20000000000), (2, 9000000000), (2, 30000000000)] = [(1, 5), (2, 30000000000)]"
    by code_simp
  show "sorted_wrt (\<lambda>a b. fst a < fst b \<and> snd a + dropWarnFloor \<le> snd b)
       (claims no_meta [(1, 5), (1, 20000000000), (2, 9000000000), (2, 30000000000)])"
    by (rule drop_warn_throttled) simp
qed

end
