(* ===== verification/Ingress.thy ===== *)
theory Ingress
  imports Netip "HOL-Library.Product_Lexorder" "HOL-Library.List_Lexorder" "HOL-Library.Char_ord" "HOL-Library.Sublist"
begin

text \<open>
  The ingress (\<^verbatim>\<open>pkg/ingress/route.go\<close>, \<^verbatim>\<open>watch.go\<close>, \<^verbatim>\<open>handler.go\<close>, \<^verbatim>\<open>tls.go\<close>, \<^verbatim>\<open>server.go\<close>): the route
  table and its match, the desired state computed from Ingress and Service objects, the request
  host, the certificate lookup, the throttle of the 502 warning and the validation of the server's
  configuration. The Kubernetes objects are records of the fields the code reads; the informer's
  store is the list of its objects. \<open>ul\<close> is the Unicode part of \<^verbatim>\<open>strings.ToLower\<close>.
\<close>

section \<open>The route table\<close>

datatype PathType = PathTypeExact | PathTypePrefix | PathTypeOther string

record IngressBackend =
  ib_VIP :: addr
  ib_Port :: u16

record Rule =
  ru_Host :: string
  ru_Path :: string
  ru_PathType :: PathType
  ru_Backend :: IngressBackend

record RouteTable =
  rs_rules :: "Rule list"
  rs_default :: "IngressBackend option"

definition NewRouteTable :: RouteTable where
  "NewRouteTable = \<lparr>rs_rules = [], rs_default = None\<rparr>"

definition route_Update ::
  "(string \<Rightarrow> string) \<Rightarrow> Rule list \<Rightarrow> IngressBackend option \<Rightarrow> RouteTable \<Rightarrow> RouteTable" where
  "route_Update ul rules def t =
     \<lparr>rs_rules = map (\<lambda>r. r\<lparr>ru_Host := ToLower ul (ru_Host r)\<rparr>) rules, rs_default = def\<rparr>"

definition pathSegments :: "string \<Rightarrow> string list" where
  "pathSegments p = filter (\<lambda>s. s \<noteq> []) (Split CHR ''/'' p)"

fun segments_agree :: "string list \<Rightarrow> string list \<Rightarrow> bool" where
  "segments_agree [] ps = True"
| "segments_agree (r # rs) [] = False"
| "segments_agree (r # rs) (p # ps) = (r = p \<and> segments_agree rs ps)"

definition segmentPrefixMatch :: "string \<Rightarrow> string \<Rightarrow> bool" where
  "segmentPrefixMatch rulePath reqPath =
     (let rs = pathSegments rulePath; ps = pathSegments reqPath in
      if length ps < length rs then False else segments_agree rs ps)"

definition ruleMatches :: "Rule \<Rightarrow> string \<Rightarrow> bool" where
  "ruleMatches r path =
     (case ru_PathType r of
        PathTypeExact \<Rightarrow> path = ru_Path r
      | PathTypePrefix \<Rightarrow> segmentPrefixMatch (ru_Path r) path
      | PathTypeOther _ \<Rightarrow> False)"

text \<open>The loop of \<^verbatim>\<open>bestMatch\<close>; the state is the best rule so far (\<^verbatim>\<open>bestLen\<close> -1 is None).\<close>

fun best_loop :: "string \<Rightarrow> string \<Rightarrow> Rule list \<Rightarrow> (IngressBackend \<times> nat \<times> PathType) option
     \<Rightarrow> (IngressBackend \<times> nat \<times> PathType) option" where
  "best_loop host path [] best = best"
| "best_loop host path (r # rs) best =
     (if ru_Host r \<noteq> host \<or> \<not> ruleMatches r path then best_loop host path rs best
      else let l = length (ru_Path r);
               better = (case best of
                           None \<Rightarrow> True
                         | Some (_, bestLen, bestType) \<Rightarrow> bestLen < l \<or>
                             (l = bestLen \<and> ru_PathType r = PathTypeExact \<and> bestType \<noteq> PathTypeExact)) in
        best_loop host path rs (if better then Some (ru_Backend r, l, ru_PathType r) else best))"

definition bestMatch :: "Rule list \<Rightarrow> string \<Rightarrow> string \<Rightarrow> IngressBackend option" where
  "bestMatch rules host path = map_option fst (best_loop host path rules None)"

definition route_Match :: "RouteTable \<Rightarrow> string \<Rightarrow> string \<Rightarrow> IngressBackend option" where
  "route_Match t host path =
     (case bestMatch (rs_rules t) host path of
        Some be \<Rightarrow> Some be
      | None \<Rightarrow> (case bestMatch (rs_rules t) [] path of
                   Some be \<Rightarrow> Some be
                 | None \<Rightarrow> rs_default t))"

section \<open>The watcher\<close>

record ServicePort =
  svp_Name :: string
  svp_Port :: int

record Service =
  svc_Namespace :: string
  svc_Name :: string
  svc_ClusterIP :: string
  svc_Ports :: "ServicePort list"

record ServiceBackend =
  sb_Name :: string
  sb_PortName :: string
  sb_PortNumber :: int

record HTTPPath =
  hp_Path :: string
  hp_PathType :: "PathType option"
  hp_Backend :: "ServiceBackend option"

record IngressRule =
  ir_Host :: string
  ir_HTTP :: "HTTPPath list option"

record IngressTLS =
  tls_SecretName :: string
  tls_Hosts :: "string list"

record IngressObj =
  ing_Namespace :: string
  ing_Name :: string
  ing_Class :: "string option"
  ing_Default :: "ServiceBackend option option"
  ing_Rules :: "IngressRule list"
  ing_TLS :: "IngressTLS list"

record SecretRef =
  ref_Namespace :: string
  ref_Name :: string
  ref_Hosts :: "string list"

text \<open>\<^verbatim>\<open>GetByKey\<close> on the store of services.\<close>

definition svc_by_key :: "Service list \<Rightarrow> string \<Rightarrow> Service option" where
  "svc_by_key svcs key = find (\<lambda>s. svc_Namespace s @ ''/'' @ svc_Name s = key) svcs"

definition resolveBackend :: "Service list \<Rightarrow> string \<Rightarrow> ServiceBackend option \<Rightarrow> IngressBackend option" where
  "resolveBackend svcs namespace b =
     (case b of
        None \<Rightarrow> None
      | Some sb \<Rightarrow>
          (case svc_by_key svcs (namespace @ ''/'' @ sb_Name sb) of
             None \<Rightarrow> None
           | Some svc \<Rightarrow>
               (case ParseAddr (svc_ClusterIP svc) of
                  None \<Rightarrow> None
                | Some vip \<Rightarrow>
                    let port = (if sb_PortName sb \<noteq> []
                                then (case find (\<lambda>p. svp_Name p = sb_PortName sb) (svc_Ports svc) of
                                        None \<Rightarrow> 0
                                      | Some p \<Rightarrow> svp_Port p)
                                else sb_PortNumber sb) in
                    if port \<le> 0 \<or> 65535 < port then None
                    else Some \<lparr>ib_VIP = vip, ib_Port = word_of_int port\<rparr>)))"

definition rulesFor :: "(string \<Rightarrow> string) \<Rightarrow> Service list \<Rightarrow> IngressObj \<Rightarrow> IngressRule \<Rightarrow> Rule list" where
  "rulesFor ul svcs ing rule =
     (if CHR ''*'' \<in> set (ir_Host rule) then []
      else case ir_HTTP rule of
        None \<Rightarrow> []
      | Some paths \<Rightarrow>
          List.map_filter (\<lambda>p. map_option (\<lambda>be.
            \<lparr>ru_Host = ToLower ul (ir_Host rule), ru_Path = hp_Path p,
             ru_PathType = (if hp_PathType p = Some PathTypeExact then PathTypeExact else PathTypePrefix),
             ru_Backend = be\<rparr>) (resolveBackend svcs (ing_Namespace ing) (hp_Backend p))) paths)"

definition ingress_default ::
  "Service list \<Rightarrow> IngressObj \<Rightarrow> IngressBackend option \<Rightarrow> IngressBackend option" where
  "ingress_default svcs ing def =
     (case def of
        Some be \<Rightarrow> Some be
      | None \<Rightarrow> (case ing_Default ing of
                   None \<Rightarrow> None
                 | Some b \<Rightarrow> resolveBackend svcs (ing_Namespace ing) b))"

text \<open>\<^verbatim>\<open>refMap\<close> in the order of its insertions.\<close>

fun add_ref :: "string \<Rightarrow> IngressTLS \<Rightarrow> (string \<times> SecretRef) list \<Rightarrow> (string \<times> SecretRef) list" where
  "add_ref ns t [] = [(ns @ ''/'' @ tls_SecretName t,
      \<lparr>ref_Namespace = ns, ref_Name = tls_SecretName t, ref_Hosts = tls_Hosts t\<rparr>)]"
| "add_ref ns t ((k, r) # m) =
     (if k = ns @ ''/'' @ tls_SecretName t then (k, r\<lparr>ref_Hosts := ref_Hosts r @ tls_Hosts t\<rparr>) # m
      else (k, r) # add_ref ns t m)"

definition add_refs :: "IngressObj \<Rightarrow> (string \<times> SecretRef) list \<Rightarrow> (string \<times> SecretRef) list" where
  "add_refs ing m = foldl (\<lambda>m t. if tls_SecretName t = [] then m else add_ref (ing_Namespace ing) t m) m (ing_TLS ing)"

definition dedupSorted :: "string list \<Rightarrow> string list" where
  "dedupSorted s = remdups_adj s"

definition finish_refs :: "(string \<times> SecretRef) list \<Rightarrow> SecretRef list" where
  "finish_refs m = sort_key (\<lambda>r. (ref_Namespace r, ref_Name r))
     (map (\<lambda>(_, r). r\<lparr>ref_Hosts := dedupSorted (sort (ref_Hosts r))\<rparr>) m)"

definition desiredState ::
  "(string \<Rightarrow> string) \<Rightarrow> string \<Rightarrow> IngressObj list \<Rightarrow> Service list
     \<Rightarrow> Rule list \<times> IngressBackend option \<times> SecretRef list" where
  "desiredState ul className items svcs =
     (let ingresses = sort_key (\<lambda>i. (ing_Namespace i, ing_Name i))
                        (filter (\<lambda>i. ing_Class i = Some className) items);
          (rules, def, m) = foldl (\<lambda>(rules, def, m) ing.
             (rules @ concat (map (rulesFor ul svcs ing) (ing_Rules ing)),
              ingress_default svcs ing def, add_refs ing m)) ([], None, []) ingresses in
      (rules, def, finish_refs m))"

definition resync ::
  "(string \<Rightarrow> string) \<Rightarrow> string \<Rightarrow> IngressObj list \<Rightarrow> Service list \<Rightarrow> RouteTable \<Rightarrow> RouteTable \<times> SecretRef list" where
  "resync ul className items svcs t =
     (case desiredState ul className items svcs of
        (rules, def, refs) \<Rightarrow> (route_Update ul rules def t, refs))"

section \<open>Requests\<close>

definition index_of :: "char \<Rightarrow> string \<Rightarrow> nat" where
  "index_of c s = length (takeWhile (\<lambda>x. x \<noteq> c) s)"

definition last_index :: "char \<Rightarrow> string \<Rightarrow> nat" where
  "last_index c s = length s - 1 - index_of c (rev s)"

text \<open>\<^verbatim>\<open>net.SplitHostPort\<close>, None on an error.\<close>

definition SplitHostPort :: "string \<Rightarrow> (string \<times> string) option" where
  "SplitHostPort hp =
     (if CHR '':'' \<notin> set hp then None
      else let i = last_index CHR '':'' hp in
        if hd hp = CHR ''['' then
          (if CHR '']'' \<notin> set hp then None
           else let e = index_of CHR '']'' hp in
             if e + 1 = length hp then None
             else if e + 1 \<noteq> i then None
             else if CHR ''['' \<in> set (drop 1 hp) \<or> CHR '']'' \<in> set (drop (e + 1) hp) then None
             else Some (take (e - 1) (drop 1 hp), drop (i + 1) hp))
        else let host = take i hp in
          if CHR '':'' \<in> set host then None
          else if CHR ''['' \<in> set hp \<or> CHR '']'' \<in> set hp then None
          else Some (host, drop (i + 1) hp))"

definition trim_brackets :: "string \<Rightarrow> string" where
  "trim_brackets s = (let br = (\<lambda>c. c = CHR ''['' \<or> c = CHR '']'') in
     rev (dropWhile br (rev (dropWhile br s))))"

definition requestHost :: "(string \<Rightarrow> string) \<Rightarrow> string \<Rightarrow> string" where
  "requestHost ul hostport =
     (case SplitHostPort hostport of
        Some (host, _) \<Rightarrow> ToLower ul host
      | None \<Rightarrow> ToLower ul (trim_brackets hostport))"

text \<open>The routing of a request; None is the 404.\<close>

definition ServeHTTP :: "(string \<Rightarrow> string) \<Rightarrow> RouteTable \<Rightarrow> string \<Rightarrow> string \<Rightarrow> IngressBackend option" where
  "ServeHTTP ul t host path = route_Match t (requestHost ul host) path"

definition backendWarnInterval :: int where
  "backendWarnInterval = 30 * 1000000000"

definition warn502 :: "(addrport \<Rightarrow> int option) \<Rightarrow> addrport \<Rightarrow> int \<Rightarrow> bool \<times> (addrport \<Rightarrow> int option)" where
  "warn502 warnLast key now =
     (if (case warnLast key of None \<Rightarrow> False | Some lst \<Rightarrow> now - lst < backendWarnInterval)
      then (False, warnLast) else (True, warnLast(key \<mapsto> now)))"

section \<open>Certificates and the server\<close>

text \<open>\<open>certs\<close> lists the entries of the map in the order the loop visits them.\<close>

definition SetCertificates :: "(string \<Rightarrow> string) \<Rightarrow> (string \<times> 'c) list \<Rightarrow> string \<Rightarrow> 'c option" where
  "SetCertificates ul certs = foldl (\<lambda>m (host, c). m(ToLower ul host \<mapsto> c)) Map.empty certs"

definition GetCertificate :: "(string \<Rightarrow> string) \<Rightarrow> (string \<Rightarrow> 'c option) \<Rightarrow> string \<Rightarrow> 'c option" where
  "GetCertificate ul store serverName = store (ToLower ul serverName)"

datatype server_error = ErrNilTable | ErrNoAddr | ErrNoListener | ErrNoCerts

definition NewServer :: "bool \<Rightarrow> addr \<Rightarrow> u16 \<Rightarrow> u16 \<Rightarrow> bool \<Rightarrow> server_error + unit" where
  "NewServer hasTable ad httpPort httpsPort hasCerts =
     (if \<not> hasTable then Inl ErrNilTable
      else if \<not> IsValid ad then Inl ErrNoAddr
      else if httpPort = 0 \<and> httpsPort = 0 then Inl ErrNoListener
      else if httpsPort \<noteq> 0 \<and> \<not> hasCerts then Inl ErrNoCerts
      else Inr ())"

section \<open>Matching\<close>

text \<open>The segments of a rule's path are a prefix of the request's.\<close>

lemma segments_agree_prefix: "segments_agree rs ps \<longleftrightarrow> prefix rs ps"
  by (induction rs ps rule: segments_agree.induct) auto

lemma segmentPrefixMatch_prefix:
  "segmentPrefixMatch rp qp \<longleftrightarrow> prefix (pathSegments rp) (pathSegments qp)"
  by (auto simp: segmentPrefixMatch_def Let_def segments_agree_prefix dest: prefix_length_le)

text \<open>The precedence of a rule: longer paths first, Exact before Prefix at equal length.\<close>

definition rank :: "Rule \<Rightarrow> nat" where
  "rank r = 2 * length (ru_Path r) + (if ru_PathType r = PathTypeExact then 1 else 0)"

definition first_max :: "Rule list \<Rightarrow> Rule option \<Rightarrow> bool" where
  "first_max xs res \<longleftrightarrow> (case res of
     None \<Rightarrow> xs = []
   | Some r \<Rightarrow> (\<exists>pre post. xs = pre @ r # post \<and> (\<forall>x \<in> set pre. rank x < rank r)
                  \<and> (\<forall>x \<in> set post. rank x \<le> rank r)))"

lemma first_maxI:
  "xs = pre @ r # post \<Longrightarrow> \<forall>x \<in> set pre. rank x < rank r \<Longrightarrow> \<forall>x \<in> set post. rank x \<le> rank r
    \<Longrightarrow> first_max xs (Some r)"
  unfolding first_max_def by auto

lemma first_max_better:
  assumes "first_max (r # xs) res" and "rank b < rank r"
  shows "first_max (b # r # xs) res"
proof (cases res)
  case (Some m)
  then obtain pre post where p: "r # xs = pre @ m # post" "\<forall>x \<in> set pre. rank x < rank m"
      "\<forall>x \<in> set post. rank x \<le> rank m"
    using assms(1) by (auto simp: first_max_def)
  then have "rank b < rank m" using assms(2) by (cases pre) auto
  then show ?thesis unfolding Some using p by (intro first_maxI [of _ "b # pre" m post]) simp_all
qed (use assms in \<open>simp add: first_max_def\<close>)

lemma first_max_worse:
  assumes "first_max (b # xs) res" and "rank r \<le> rank b"
  shows "first_max (b # r # xs) res"
proof (cases res)
  case (Some m)
  then obtain pre post where p: "b # xs = pre @ m # post" "\<forall>x \<in> set pre. rank x < rank m"
      "\<forall>x \<in> set post. rank x \<le> rank m"
    using assms(1) by (auto simp: first_max_def)
  show ?thesis
  proof (cases pre)
    case Nil
    then show ?thesis unfolding Some using p assms(2) by (intro first_maxI [of _ "[]" m "r # xs"]) simp_all
  next
    case (Cons c pre')
    then show ?thesis unfolding Some using p assms(2)
      by (intro first_maxI [of _ "b # r # pre'" m post]) auto
  qed
qed (use assms in \<open>simp add: first_max_def\<close>)

definition tagged :: "Rule \<Rightarrow> IngressBackend \<times> nat \<times> PathType" where
  "tagged r = (ru_Backend r, length (ru_Path r), ru_PathType r)"

definition tier :: "Rule list \<Rightarrow> string \<Rightarrow> string \<Rightarrow> Rule list" where
  "tier rules host path = filter (\<lambda>r. ru_Host r = host \<and> ruleMatches r path) rules"

lemma best_loop_first_max:
  "\<exists>res. best_loop host path rs (map_option tagged bo) = map_option tagged res
     \<and> first_max ((case bo of None \<Rightarrow> [] | Some b \<Rightarrow> [b]) @ tier rs host path) res"
proof (induction rs arbitrary: bo)
  case Nil
  show ?case
    by (cases bo) (auto simp: tier_def first_max_def [of _ None] intro!: exI [of _ bo] first_maxI [of _ "[]"])
next
  case (Cons r rs)
  show ?case
  proof (cases "ru_Host r = host \<and> ruleMatches r path")
    case False
    then show ?thesis using Cons [of bo] by (auto simp: tier_def)
  next
    case m: True
    then have t: "tier (r # rs) host path = r # tier rs host path" by (simp add: tier_def)
    show ?thesis
    proof (cases bo)
      case None
      then show ?thesis using Cons [of "Some r"] m by (simp add: t tagged_def [of r])
    next
      case (Some b)
      let ?better = "length (ru_Path b) < length (ru_Path r) \<or> length (ru_Path r) = length (ru_Path b)
          \<and> ru_PathType r = PathTypeExact \<and> ru_PathType b \<noteq> PathTypeExact"
      have br: "?better \<longleftrightarrow> rank b < rank r" by (auto simp: rank_def)
      show ?thesis
      proof (cases ?better)
        case True
        obtain res where "best_loop host path rs (map_option tagged (Some r)) = map_option tagged res"
          "first_max (r # tier rs host path) res" using Cons [of "Some r"] by auto
        then show ?thesis using True br m Some first_max_better
          by (intro exI [of _ res]) (auto simp: t tagged_def [of r] tagged_def [of b] Let_def)
      next
        case False
        obtain res where "best_loop host path rs (map_option tagged (Some b)) = map_option tagged res"
          "first_max (b # tier rs host path) res" using Cons [of "Some b"] by auto
        then show ?thesis using False br m Some first_max_worse
          by (intro exI [of _ res]) (auto simp: t tagged_def [of r] tagged_def [of b] Let_def)
      qed
    qed
  qed
qed

lemma bestMatch_first_max:
  "\<exists>res. bestMatch rules host path = map_option ru_Backend res \<and> first_max (tier rules host path) res"
  using best_loop_first_max [of host path rules None]
  by (auto simp: bestMatch_def option.map_comp comp_def tagged_def)


section \<open>The desired state\<close>

text \<open>A backend the watcher installs: a service of the namespace with an address and a port in range.\<close>

definition resolved_from :: "Service list \<Rightarrow> string \<Rightarrow> IngressBackend \<Rightarrow> bool" where
  "resolved_from svcs ns be \<longleftrightarrow> (\<exists>svc \<in> set svcs. (\<exists>nm. svc_Namespace svc @ ''/'' @ svc_Name svc = ns @ ''/'' @ nm)
     \<and> ParseAddr (svc_ClusterIP svc) = Some (ib_VIP be) \<and> ib_Port be \<noteq> 0)"

lemma resolveBackend_resolved: "resolveBackend svcs ns b = Some be \<Longrightarrow> resolved_from svcs ns be"
proof -
  assume a: "resolveBackend svcs ns b = Some be"
  then obtain sb svc vip where s: "b = Some sb" "svc_by_key svcs (ns @ ''/'' @ sb_Name sb) = Some svc"
      "ParseAddr (svc_ClusterIP svc) = Some vip"
    by (auto simp: resolveBackend_def split: option.split_asm)
  define port where "port = (if sb_PortName sb \<noteq> []
      then (case find (\<lambda>p. svp_Name p = sb_PortName sb) (svc_Ports svc) of None \<Rightarrow> 0 | Some p \<Rightarrow> svp_Port p)
      else sb_PortNumber sb)"
  have r: "resolveBackend svcs ns b = (if port \<le> 0 \<or> 65535 < port then None
      else Some \<lparr>ib_VIP = vip, ib_Port = word_of_int port\<rparr>)"
    unfolding resolveBackend_def s(1) option.case s(2,3) Let_def port_def ..
  have p: "0 < port" "port \<le> 65535" "be = \<lparr>ib_VIP = vip, ib_Port = word_of_int port\<rparr>"
    using a unfolding r by (simp_all split: if_split_asm)
  have "uint (word_of_int port :: u16) = port" using p(1,2) by (simp add: unsigned_of_int take_bit_eq_mod)
  then have "(word_of_int port :: u16) \<noteq> 0" using p(1) by auto
  then show ?thesis
    using s p(3) by (auto simp: resolved_from_def svc_by_key_def find_Some_iff intro!: bexI [of _ svc])
qed

text \<open>The backends a table can return.\<close>

definition table_backends :: "RouteTable \<Rightarrow> IngressBackend set" where
  "table_backends t = ru_Backend ` set (rs_rules t) \<union> set_option (rs_default t)"

lemma route_Match_backends: "route_Match t host path = Some be \<Longrightarrow> be \<in> table_backends t"
proof -
  have b: "\<exists>r \<in> set rules. ru_Backend r = be" if m: "bestMatch rules host path = Some be" for rules host be
  proof -
    obtain res where r: "bestMatch rules host path = map_option ru_Backend res"
      "first_max (tier rules host path) res" using bestMatch_first_max by blast
    then obtain x where x: "res = Some x" "ru_Backend x = be" using m by (cases res) auto
    then have "x \<in> set (tier rules host path)" using r(2) by (auto simp: first_max_def)
    then show ?thesis using x by (auto simp: tier_def)
  qed
  assume "route_Match t host path = Some be"
  then show ?thesis
    by (auto simp: route_Match_def table_backends_def split: option.split_asm dest!: b)
qed

definition ing_ok :: "Service list \<Rightarrow> IngressObj set \<Rightarrow> IngressBackend \<Rightarrow> bool" where
  "ing_ok svcs I be \<longleftrightarrow> (\<exists>ing \<in> I. resolved_from svcs (ing_Namespace ing) be)"

lemma in_map_filter: "y \<in> set (List.map_filter f xs) \<longleftrightarrow> (\<exists>x \<in> set xs. f x = Some y)"
  by (induction xs) (auto simp: List.map_filter_simps split: option.split)

lemma rulesFor_ok: "r \<in> set (rulesFor ul svcs ing rule) \<Longrightarrow> ing \<in> I \<Longrightarrow> ing_ok svcs I (ru_Backend r)"
  by (auto simp: rulesFor_def ing_ok_def in_map_filter split: if_split_asm option.split_asm
      dest!: resolveBackend_resolved)

lemma desired_fold_ok:
  assumes "foldl (\<lambda>(rules, def, m) ing.
             (rules @ concat (map (rulesFor ul svcs ing) (ing_Rules ing)),
              ingress_default svcs ing def, add_refs ing m)) (rules0, def0, m0) ings = (rules, def, m)"
    and "set ings \<subseteq> I" and "\<forall>r \<in> set rules0. ing_ok svcs I (ru_Backend r)"
    and "\<forall>b. def0 = Some b \<longrightarrow> ing_ok svcs I b"
  shows "(\<forall>r \<in> set rules. ing_ok svcs I (ru_Backend r)) \<and> (\<forall>b. def = Some b \<longrightarrow> ing_ok svcs I b)"
  using assms
proof (induction ings arbitrary: rules0 def0 m0)
  case (Cons i ings)
  have "\<forall>b. ingress_default svcs i def0 = Some b \<longrightarrow> ing_ok svcs I b"
    using Cons.prems(2,4)
    by (auto simp: ingress_default_def ing_ok_def split: option.split_asm dest!: resolveBackend_resolved)
  moreover have "\<forall>r \<in> set (rules0 @ concat (map (rulesFor ul svcs i) (ing_Rules i))). ing_ok svcs I (ru_Backend r)"
    using Cons.prems(2,3) rulesFor_ok [of _ ul svcs i] by auto
  ultimately show ?case using Cons.IH [of "rules0 @ concat (map (rulesFor ul svcs i) (ing_Rules i))"
      "ingress_default svcs i def0" "add_refs i m0"] Cons.prems(1,2) by simp
qed simp

lemma desiredState_ok:
  assumes "desiredState ul cls items svcs = (rules, def, refs)"
  shows "(\<forall>r \<in> set rules. ing_ok svcs {i \<in> set items. ing_Class i = Some cls} (ru_Backend r))
    \<and> (\<forall>b. def = Some b \<longrightarrow> ing_ok svcs {i \<in> set items. ing_Class i = Some cls} b)"
proof -
  let ?ings = "sort_key (\<lambda>i. (ing_Namespace i, ing_Name i)) (filter (\<lambda>i. ing_Class i = Some cls) items)"
  obtain m where "foldl (\<lambda>(rules, def, m) ing.
             (rules @ concat (map (rulesFor ul svcs ing) (ing_Rules ing)),
              ingress_default svcs ing def, add_refs ing m)) ([], None, []) ?ings = (rules, def, m)"
    using assms by (auto simp: desiredState_def Let_def split: prod.split_asm)
  from desired_fold_ok [OF this] show ?thesis by auto
qed

section \<open>A concrete table\<close>

definition demo_be :: "u16 \<Rightarrow> IngressBackend" where
  "demo_be p = \<lparr>ib_VIP = IPv4 0x0A2B0001, ib_Port = p\<rparr>"

definition demo_table :: RouteTable where
  "demo_table = route_Update (\<lambda>s. s)
     [\<lparr>ru_Host = ''Shop.example'', ru_Path = ''/'', ru_PathType = PathTypePrefix, ru_Backend = demo_be 1\<rparr>,
      \<lparr>ru_Host = ''shop.example'', ru_Path = ''/api'', ru_PathType = PathTypePrefix, ru_Backend = demo_be 2\<rparr>,
      \<lparr>ru_Host = ''shop.example'', ru_Path = ''/api'', ru_PathType = PathTypeExact, ru_Backend = demo_be 3\<rparr>,
      \<lparr>ru_Host = [], ru_Path = ''/'', ru_PathType = PathTypePrefix, ru_Backend = demo_be 4\<rparr>]
     None NewRouteTable"

definition demo_items :: "IngressObj list" where
  "demo_items = [\<lparr>ing_Namespace = ''ns'', ing_Name = ''a'', ing_Class = Some ''k3sm'', ing_Default = None,
     ing_Rules = [\<lparr>ir_Host = ''h'', ir_HTTP = Some [\<lparr>hp_Path = ''/'', hp_PathType = None,
        hp_Backend = Some \<lparr>sb_Name = ''web'', sb_PortName = [], sb_PortNumber = 80\<rparr>\<rparr>]\<rparr>], ing_TLS = []\<rparr>]"

definition demo_svcs :: "Service list" where
  "demo_svcs = [\<lparr>svc_Namespace = ''ns'', svc_Name = ''web'', svc_ClusterIP = ''10.43.0.1'', svc_Ports = []\<rparr>]"

section \<open>Properties\<close>

text \<open>C24. Match picks the first tier (the host's rules, then the hostless ones) that has a matching rule
  and in it the first rule of the longest path, Exact before Prefix at equal length; without a
  matching rule it falls to the default backend.\<close>

theorem route_match_best:
  fixes t host path
  defines "rules \<equiv> (if tier (rs_rules t) host path \<noteq> [] then tier (rs_rules t) host path
                    else tier (rs_rules t) [] path)"
  shows "if rules = [] then route_Match t host path = rs_default t
    else (\<exists>pre r post. rules = pre @ r # post \<and> route_Match t host path = Some (ru_Backend r)
      \<and> (\<forall>x \<in> set pre. rank x < rank r) \<and> (\<forall>x \<in> set post. rank x \<le> rank r))"
proof -
  obtain m1 where m1: "bestMatch (rs_rules t) host path = map_option ru_Backend m1"
    "first_max (tier (rs_rules t) host path) m1" using bestMatch_first_max by blast
  obtain m2 where m2: "bestMatch (rs_rules t) [] path = map_option ru_Backend m2"
    "first_max (tier (rs_rules t) [] path) m2" using bestMatch_first_max by blast
  show ?thesis
    using m1 m2 by (cases m1; cases m2) (auto simp: rules_def route_Match_def first_max_def)
qed

theorem route_match_best_witness:
  "route_Match demo_table ''shop.example'' ''/api'' = Some (demo_be 3)
   \<and> route_Match demo_table ''shop.example'' ''/api/v1'' = Some (demo_be 2)
   \<and> (\<exists>r :: Rule. route_Match demo_table ''shop.example'' ''/api'' = Some (ru_Backend r))"
proof -
  have t: "tier (rs_rules demo_table) ''shop.example'' ''/api'' \<noteq> []" by code_simp
  have "\<exists>r :: Rule. route_Match demo_table ''shop.example'' ''/api'' = Some (ru_Backend r)"
    using route_match_best [of demo_table "''shop.example''" "''/api''"] t by (simp split: if_split_asm) blast
  moreover have "route_Match demo_table ''shop.example'' ''/api'' = Some (demo_be 3)" by code_simp
  moreover have "route_Match demo_table ''shop.example'' ''/api/v1'' = Some (demo_be 2)" by code_simp
  ultimately show ?thesis by simp
qed

text \<open>C25. After a resync every backend a request can be routed to comes from an Ingress object of the
  configured class, through a service of that object's namespace with a parsed cluster address and
  a nonzero port.\<close>

theorem ingress_routes_resolved:
  assumes "resync ul cls items svcs t = (t', refs)" and "ServeHTTP ul t' host path = Some be"
  shows "\<exists>ing \<in> set items. ing_Class ing = Some cls \<and> resolved_from svcs (ing_Namespace ing) be"
proof -
  obtain rules def where d: "desiredState ul cls items svcs = (rules, def, refs)"
      "t' = route_Update ul rules def t"
    using assms(1) by (auto simp: resync_def split: prod.split_asm)
  have "be \<in> table_backends t'" using assms(2) route_Match_backends by (simp add: ServeHTTP_def)
  then have "(\<exists>r \<in> set rules. be = ru_Backend r) \<or> def = Some be"
    by (auto simp: table_backends_def d(2) route_Update_def)
  then show ?thesis using desiredState_ok [OF d(1)] by (auto simp: ing_ok_def)
qed

theorem ingress_routes_resolved_witness:
  "\<exists>be. ServeHTTP (\<lambda>s. s) (fst (resync (\<lambda>s. s) ''k3sm'' demo_items demo_svcs NewRouteTable)) ''h:80'' ''/x'' = Some be
    \<and> (\<exists>ing \<in> set demo_items. resolved_from demo_svcs (ing_Namespace ing) be)"
proof -
  let ?r = "resync (\<lambda>s. s) ''k3sm'' demo_items demo_svcs NewRouteTable"
  have "\<not> Option.is_none (ServeHTTP (\<lambda>s. s) (fst ?r) ''h:80'' ''/x'')" by code_simp
  then obtain be where b: "ServeHTTP (\<lambda>s. s) (fst ?r) ''h:80'' ''/x'' = Some be" by (auto simp: Option.is_none_def)
  obtain t' refs where r: "?r = (t', refs)" by (cases ?r)
  from ingress_routes_resolved [OF r, of "''h:80''" "''/x''" be] b r show ?thesis by auto
qed

end
