(* ===== verification/Releases.thy ===== *)
theory Releases
  imports GoStrings "HOL-Library.Product_Lexorder" "HOL-Library.List_Lexorder" "HOL-Library.Char_ord"
begin

text \<open>
  Release versions and paths of the updater (\<^verbatim>\<open>pkg/netd/update.go\<close>): the grammars of release tags, the
  precedence of releases, the version the installed binary reports, the downgrade check, the place of
  the installed binary in its tree and the tail of the install log. Regular expressions are written
  as recognisers; \<^verbatim>\<open>path.Clean\<close> and its relatives are modelled on path elements.
\<close>

section \<open>Paths\<close>

text \<open>\<^verbatim>\<open>path.Clean\<close> (and \<^verbatim>\<open>filepath.Clean\<close> on darwin): empty and \<^verbatim>\<open>.\<close> elements vanish, \<^verbatim>\<open>..\<close> removes the
  element before it; the stack is kept reversed.\<close>

fun clean_loop :: "bool \<Rightarrow> string list \<Rightarrow> string list \<Rightarrow> string list" where
  "clean_loop rooted [] stack = rev stack"
| "clean_loop rooted (e # es) stack =
     (if e = [] \<or> e = ''.'' then clean_loop rooted es stack
      else if e = ''..'' then
        (case stack of
           [] \<Rightarrow> clean_loop rooted es (if rooted then [] else [''..''])
         | tp # rest \<Rightarrow> clean_loop rooted es (if tp = ''..'' then ''..'' # stack else rest))
      else clean_loop rooted es (e # stack))"

definition path_Clean :: "string \<Rightarrow> string" where
  "path_Clean p =
     (if p = [] then ''.''
      else let rooted = (hd p = CHR ''/''); body = Join (clean_loop rooted (Split CHR ''/'' p) []) ''/'' in
        if rooted then CHR ''/'' # body else if body = [] then ''.'' else body)"

definition path_IsAbs :: "string \<Rightarrow> bool" where
  "path_IsAbs p \<longleftrightarrow> HasPrefix p ''/''"

text \<open>\<^verbatim>\<open>filepath.Dir\<close>: everything up to the last slash, cleaned.\<close>

definition path_Dir :: "string \<Rightarrow> string" where
  "path_Dir p = path_Clean (rev (dropWhile (\<lambda>c. c \<noteq> CHR ''/'') (rev p)))"

definition path_Base :: "string \<Rightarrow> string" where
  "path_Base p =
     (if p = [] then ''.''
      else let q = rev (dropWhile (\<lambda>c. c = CHR ''/'') (rev p)) in
        if q = [] then ''/'' else rev (takeWhile (\<lambda>c. c \<noteq> CHR ''/'') (rev q)))"

definition path_Join :: "string list \<Rightarrow> string" where
  "path_Join es = (let ne = filter (\<lambda>e. e \<noteq> []) es in if ne = [] then [] else path_Clean (Join ne ''/''))"

section \<open>Grammars\<close>

definition is_alnum :: "char \<Rightarrow> bool" where
  "is_alnum c \<longleftrightarrow> is_digit c \<or> is_lower c \<or> is_upper c"

definition is_hex :: "char \<Rightarrow> bool" where
  "is_hex c \<longleftrightarrow> is_digit c \<or> c \<in> set ''abcdef''"

definition digits :: "string \<Rightarrow> bool" where
  "digits s \<longleftrightarrow> s \<noteq> [] \<and> list_all is_digit s"

text \<open>\<^verbatim>\<open>0|[1-9]\d*\<close>\<close>

definition numeric_ident :: "string \<Rightarrow> bool" where
  "numeric_ident s \<longleftrightarrow> digits s \<and> (s = ''0'' \<or> hd s \<noteq> CHR ''0'')"

text \<open>\<^verbatim>\<open>[0-9A-Za-z-]+(?:\.[0-9A-Za-z-]+)*\<close>\<close>

definition dotted_idents :: "string \<Rightarrow> bool" where
  "dotted_idents s \<longleftrightarrow>
     list_all (\<lambda>e. e \<noteq> [] \<and> list_all (\<lambda>c. is_alnum c \<or> c = CHR ''-'') e) (Split CHR ''.'' s)"

definition cut_at :: "char \<Rightarrow> string \<Rightarrow> string \<times> string option" where
  "cut_at c s = (case Cut c s of None \<Rightarrow> (s, None) | Some (a, b) \<Rightarrow> (a, Some b))"

text \<open>\<^verbatim>\<open>releaseTagGrammar\<close>\<close>

definition releaseTagGrammar :: "string \<Rightarrow> bool" where
  "releaseTagGrammar s =
     (case s of
        [] \<Rightarrow> False
      | c # rest \<Rightarrow> c = CHR ''v'' \<and>
          (case cut_at CHR ''-'' rest of
             (core, pre) \<Rightarrow> (case Split CHR ''.'' core of
                 [a, b, d] \<Rightarrow> digits a \<and> digits b \<and> digits d
               | _ \<Rightarrow> False)
               \<and> (case pre of None \<Rightarrow> True
                  | Some p \<Rightarrow> p \<noteq> [] \<and> list_all (\<lambda>c. is_alnum c \<or> c = CHR ''.'' \<or> c = CHR ''-'') p)))"

text \<open>The groups of \<^verbatim>\<open>releaseSemver\<close>: the three core numbers and the prerelease (empty when absent).
  \<open>build_ok\<close> is the grammar of the build metadata.\<close>

definition semver_groups :: "(string \<Rightarrow> bool) \<Rightarrow> string \<Rightarrow> (string list \<times> string) option" where
  "semver_groups build_ok s =
     (let s1 = TrimPrefix s ''v''; (body, build) = cut_at CHR ''+'' s1; (core, pre) = cut_at CHR ''-'' body in
      if (case build of None \<Rightarrow> True | Some b \<Rightarrow> build_ok b)
        \<and> (case pre of None \<Rightarrow> True | Some p \<Rightarrow> dotted_idents p)
        \<and> length (Split CHR ''.'' core) = 3 \<and> list_all numeric_ident (Split CHR ''.'' core)
      then Some (Split CHR ''.'' core, case pre of None \<Rightarrow> [] | Some p \<Rightarrow> p) else None)"

definition releaseSemver :: "string \<Rightarrow> (string list \<times> string) option" where
  "releaseSemver = semver_groups (\<lambda>b. b \<noteq> [] \<and>
     list_all (\<lambda>c. is_alnum c \<or> c = CHR ''.'' \<or> c = CHR ''-'') b)"

text \<open>\<^verbatim>\<open>(^|\.)\d{14}-[0-9a-f]{12}$\<close>\<close>

definition pseudoPrerelease :: "string \<Rightarrow> bool" where
  "pseudoPrerelease p \<longleftrightarrow>
     27 \<le> length p \<and>
     (let t = drop (length p - 27) p in
      list_all is_digit (take 14 t) \<and> t ! 14 = CHR ''-'' \<and> list_all is_hex (drop 15 t)
      \<and> (length p = 27 \<or> p ! (length p - 28) = CHR ''.''))"

definition maxInstalledVersionLen :: nat where
  "maxInstalledVersionLen = 128"

definition validInstalledVersion :: "string \<Rightarrow> bool" where
  "validInstalledVersion name \<longleftrightarrow> 0 < length name \<and> length name \<le> maxInstalledVersionLen \<and>
     (semver_groups dotted_idents name \<noteq> None
      \<or> (case CutPrefix name ''unknown-'' of
           None \<Rightarrow> False
         | Some h \<Rightarrow> length h = 12 \<and> list_all is_hex h))"

section \<open>Precedence\<close>

text \<open>\<^verbatim>\<open>strconv.ParseUint(s, 10, 64)\<close>\<close>

definition ParseUint64 :: "string \<Rightarrow> nat option" where
  "ParseUint64 s =
     (case parse_dec s of None \<Rightarrow> None | Some n \<Rightarrow> if int n < 18446744073709551616 then Some n else None)"

record releaseVersion =
  rel_core :: "nat list"
  rel_pre :: "string list"

definition parseRelease :: "string \<Rightarrow> releaseVersion option" where
  "parseRelease s =
     (case releaseSemver s of
        None \<Rightarrow> None
      | Some (core, pre) \<Rightarrow>
          (case those (map ParseUint64 core) of
             None \<Rightarrow> None
           | Some ns \<Rightarrow>
               if pre \<noteq> [] then
                 if pseudoPrerelease pre then None
                 else Some \<lparr>rel_core = ns, rel_pre = Split CHR ''.'' pre\<rparr>
               else Some \<lparr>rel_core = ns, rel_pre = []\<rparr>))"

text \<open>\<^verbatim>\<open>strings.Compare\<close>, and the comparison it is an instance of.\<close>

definition Compare :: "'a :: linorder \<Rightarrow> 'a \<Rightarrow> int" where
  "Compare a b = (if a = b then 0 else if a < b then -1 else 1)"

definition comparePreIdent :: "string \<Rightarrow> string \<Rightarrow> int" where
  "comparePreIdent a b =
     (case (ParseUint64 a, ParseUint64 b) of
        (Some na, Some nb) \<Rightarrow> if na < nb then -1 else if nb < na then 1 else 0
      | (Some _, None) \<Rightarrow> -1
      | (None, Some _) \<Rightarrow> 1
      | (None, None) \<Rightarrow> Compare a b)"

fun pre_loop :: "string list \<Rightarrow> string list \<Rightarrow> int" where
  "pre_loop [] [] = 0"
| "pre_loop [] (_ # _) = -1"
| "pre_loop (_ # _) [] = 1"
| "pre_loop (a # as) (b # bs) = (let c = comparePreIdent a b in if c \<noteq> 0 then c else pre_loop as bs)"

definition comparePrerelease :: "string list \<Rightarrow> string list \<Rightarrow> int" where
  "comparePrerelease a b =
     (if a = [] \<and> b = [] then 0 else if a = [] then 1 else if b = [] then -1 else pre_loop a b)"

fun core_loop :: "nat list \<Rightarrow> nat list \<Rightarrow> int" where
  "core_loop (a # as) (b # bs) = (if a \<noteq> b then if a < b then -1 else 1 else core_loop as bs)"
| "core_loop _ _ = 0"

definition compareReleases :: "string \<Rightarrow> string \<Rightarrow> int option" where
  "compareReleases a b =
     (case (parseRelease a, parseRelease b) of
        (Some va, Some vb) \<Rightarrow>
          let c = core_loop (rel_core va) (rel_core vb) in
          Some (if c \<noteq> 0 then c else comparePrerelease (rel_pre va) (rel_pre vb))
      | _ \<Rightarrow> None)"

text \<open>\<open>installed\<close> is the version the installed binary reports, None when it cannot be read.\<close>

datatype downgrade = VersionUnreadable | Unordered | Below | NotBelow string

definition checkNotDowngrade :: "string option \<Rightarrow> string \<Rightarrow> downgrade" where
  "checkNotDowngrade installed version =
     (case installed of
        None \<Rightarrow> VersionUnreadable
      | Some v \<Rightarrow>
          (case compareReleases version v of
             None \<Rightarrow> Unordered
           | Some c \<Rightarrow> if c < 0 then Below else NotBelow v))"

definition parseVersionOutput :: "string \<Rightarrow> string option" where
  "parseVersionOutput out =
     (let first = fst (cut_at (CHR 0x0A) out) in
      case Cut CHR '' '' (TrimSpace first) of
        None \<Rightarrow> None
      | Some (name, tag) \<Rightarrow>
          if name \<noteq> ''k3sm'' \<or> tag = [] \<or> CHR '' '' \<in> set tag \<or> CHR 0x09 \<in> set tag then None else Some tag)"

section \<open>The installed tree and the log\<close>

definition installedWithinRoot :: "string \<Rightarrow> string \<Rightarrow> string \<Rightarrow> bool" where
  "installedWithinRoot target0 root base =
     (let target = path_Clean target0 in
      if target = path_Join [root, base] then True
      else let dir = path_Dir target in
        \<not> (path_Base target \<noteq> base \<or> path_Dir dir \<noteq> path_Join [root, ''versions'']
           \<or> \<not> validInstalledVersion (path_Base dir)))"

definition updateLogTailLines :: nat where
  "updateLogTailLines = 40"

definition updateLogTailBytes :: nat where
  "updateLogTailBytes = 8192"

text \<open>The text \<^verbatim>\<open>logTail\<close> makes of the content of the log.\<close>

definition logTail :: "string \<Rightarrow> string" where
  "logTail content =
     (let off = length content - updateLogTailBytes;
          buf = drop off content;
          lines = Split (CHR 0x0A) (rev (dropWhile (\<lambda>c. c = CHR 0x0A) (rev buf)));
          lines1 = (if 0 < off \<and> 1 < length lines then drop 1 lines else lines);
          lines2 = (if updateLogTailLines < length lines1
                    then drop (length lines1 - updateLogTailLines) lines1 else lines1) in
      Join lines2 [CHR 0x0A])"

section \<open>The order of releases\<close>

text \<open>The comparison is the order of keys: an identifier that is a 64-bit number sorts before every
  other one and by value, the others by their bytes; a release sorts after its prereleases.\<close>

definition ident_key :: "string \<Rightarrow> nat \<times> nat \<times> string" where
  "ident_key s = (case ParseUint64 s of Some n \<Rightarrow> (0, n, []) | None \<Rightarrow> (1, 0, s))"

definition release_key :: "releaseVersion \<Rightarrow> nat list \<times> nat \<times> (nat \<times> nat \<times> string) list" where
  "release_key v = (rel_core v, if rel_pre v = [] then 1 else 0, map ident_key (rel_pre v))"

lemma comparePreIdent_key: "comparePreIdent a b = Compare (ident_key a) (ident_key b)"
  by (auto simp: comparePreIdent_def ident_key_def Compare_def split: option.split)

lemma Compare_Cons:
  "Compare (x # xs) (y # ys) = (let c = Compare x y in if c \<noteq> 0 then c else Compare xs ys)"
  by (auto simp: Compare_def)

lemma pre_loop_key: "pre_loop a b = Compare (map ident_key a) (map ident_key b)"
  by (induction a b rule: pre_loop.induct)
    (simp_all add: comparePreIdent_key Compare_Cons, simp_all add: Compare_def)

lemma core_loop_key: "length a = length b \<Longrightarrow> core_loop a b = Compare a b"
  by (induction a b rule: core_loop.induct) (auto simp: Compare_Cons Compare_def)

lemma Compare_pair:
  "Compare (a, b) (c, d) = (if Compare a c \<noteq> 0 then Compare a c else Compare b d)"
  by (auto simp: Compare_def)

lemma parseRelease_core: "parseRelease s = Some v \<Longrightarrow> length (rel_core v) = 3"
proof -
  have those_length: "those xs = Some ys \<Longrightarrow> length ys = length xs" for xs :: "nat option list" and ys
    by (induction xs arbitrary: ys) (auto split: option.split_asm)
  assume "parseRelease s = Some v"
  then show ?thesis
    by (auto simp: parseRelease_def releaseSemver_def semver_groups_def Let_def
        split: option.split_asm prod.split_asm if_split_asm dest!: those_length)
qed

lemma compareReleases_key:
  assumes "parseRelease a = Some va" and "parseRelease b = Some vb"
  shows "compareReleases a b = Some (Compare (release_key va) (release_key vb))"
proof -
  have "length (rel_core va) = length (rel_core vb)"
    using parseRelease_core [OF assms(1)] parseRelease_core [OF assms(2)] by simp
  note c = core_loop_key [OF this]
  have p: "comparePrerelease (rel_pre va) (rel_pre vb)
      = Compare (if rel_pre va = [] then 1 else 0 :: nat, map ident_key (rel_pre va))
          (if rel_pre vb = [] then 1 else 0, map ident_key (rel_pre vb))"
    by (simp add: comparePrerelease_def pre_loop_key Compare_pair) (simp add: Compare_def)
  show ?thesis
    by (simp add: compareReleases_def assms Let_def c p release_key_def Compare_pair)
qed



end
