(* ===== verification/Extract.thy ===== *)
theory Extract
  imports Releases
begin

text \<open>
  Unpacking the update archive (\<^verbatim>\<open>pkg/netd/extract.go\<close>). The tar reader is a library: the archive is
  the list of what its \<^verbatim>\<open>Next\<close> returns. The staging directory is fresh and only this helper writes
  there, so its content is a map from relative paths (lists of elements) to nodes; \<open>io\<close> says which
  system calls on a path fail.
\<close>

unbundle bit_operations_syntax

section \<open>Data\<close>

datatype typeflag = TypeReg | TypeDir | TypeLink | TypeXGlobalHeader | TypeOther

datatype fmode = ModeRegular | ModeDir | ModeSymlink | ModeIrregular

record tarHeader =
  th_Name :: string
  th_Typeflag :: typeflag
  th_Mode :: fmode
  th_Perm :: u32
  th_Size :: int

text \<open>One step of the reader: a header with whether its content can be read in full, or an error.\<close>

datatype tar_item = Member tarHeader bool | TarError

datatype node = DirNode | FileNode u32

type_synonym staging = "string list \<Rightarrow> node option"

datatype extract_error = errUpdateRefused | errIO

definition updatePayloadDir :: string where
  "updatePayloadDir = ''cp-payload''"

definition updateSetFiles :: "string list" where
  "updateSetFiles = [''k3sm'', ''k3sm-execshim'', ''k3sm-vmhost'', ''libk3sm_getaddrinfo_shim.dylib'',
     ''libk3sm_pathrebase_shim.dylib'']"

definition updateSkippedFiles :: "string list" where
  "updateSkippedFiles = [''LICENSE'', ''NOTICE'', ''k3sm-netd'', ''PAYLOAD-SHA256'', ''UPSTREAM-DIGESTS'']"

definition maxUpdateArchiveDepth :: nat where
  "maxUpdateArchiveDepth = 16"

definition MaxUpdateSetBytes :: int where
  "MaxUpdateSetBytes = 2147483648"

definition MaxUpdateArchiveMembers :: nat where
  "MaxUpdateArchiveMembers = 4096"

section \<open>Names\<close>

definition inPayloadTree :: "string \<Rightarrow> bool \<Rightarrow> bool" where
  "inPayloadTree name dir =
     (if name = updatePayloadDir then dir
      else case CutPrefix name (updatePayloadDir @ ''/'') of
        None \<Rightarrow> False
      | Some rest \<Rightarrow> count_list rest CHR ''/'' < maxUpdateArchiveDepth)"

definition archiveMemberName :: "tarHeader \<Rightarrow> string option" where
  "archiveMemberName hdr =
     (let name0 = TrimPrefix (th_Name hdr) ''./'';
          name = (if th_Typeflag hdr = TypeDir then TrimSuffix name0 ''/'' else name0);
          bad = (name = [] \<or> HasPrefix name ''/'' \<or> CHR 0x00 \<in> set name \<or> CHR 0x5C \<in> set name
                 \<or> path_Clean name \<noteq> name) in
      if bad \<or> (\<exists>c \<in> set (Split CHR ''/'' name). c = ''..'' \<or> c = ''.'') then None else Some name)"

section \<open>Writing\<close>

text \<open>\<^verbatim>\<open>mkdirAllOwn\<close>: \<open>cur\<close> is the directory reached, \<open>cs\<close> the elements still to create.\<close>

fun mkdirAllOwn ::
  "(string list \<Rightarrow> bool) \<Rightarrow> string list \<Rightarrow> string list \<Rightarrow> staging \<Rightarrow> (extract_error + unit) \<times> staging" where
  "mkdirAllOwn io cur [] fs = (Inr (), fs)"
| "mkdirAllOwn io cur (c # cs) fs =
     (let p = cur @ [c] in
      case fs p of
        None \<Rightarrow> if io p then (Inl errIO, fs) else mkdirAllOwn io p cs (fs(p \<mapsto> DirNode))
      | Some DirNode \<Rightarrow> if io p then (Inl errIO, fs) else mkdirAllOwn io p cs fs
      | Some (FileNode _) \<Rightarrow> (Inl (if io p then errIO else errUpdateRefused), fs))"

definition writeArchiveMember ::
  "(string list \<Rightarrow> bool) \<Rightarrow> string \<Rightarrow> u32 \<Rightarrow> bool \<Rightarrow> staging \<Rightarrow> (extract_error + unit) \<times> staging" where
  "writeArchiveMember io name perm complete fs =
     (let dir = path_Dir name; p = Split CHR ''/'' name in
      case (if dir \<noteq> ''.'' then mkdirAllOwn io [] (Split CHR ''/'' dir) fs else (Inr (), fs)) of
        (Inl e, fs1) \<Rightarrow> (Inl e, fs1)
      | (Inr _, fs1) \<Rightarrow>
          if fs1 p \<noteq> None \<or> io p then (Inl errIO, fs1)
          else if \<not> complete then (Inl errUpdateRefused, fs1(p \<mapsto> FileNode 0x180))
          else (Inr (), fs1(p \<mapsto> FileNode (perm AND 0x1ED OR 0x180))))"

section \<open>The archive\<close>

text \<open>One header: the bytes so far and the names seen, updated, or the refusal.\<close>

definition extract_dir :: "(string list \<Rightarrow> bool) \<Rightarrow> string \<Rightarrow> staging \<Rightarrow> (extract_error + unit) \<times> staging" where
  "extract_dir io name fs =
     (if \<not> inPayloadTree name True then (Inl errUpdateRefused, fs)
      else mkdirAllOwn io [] (Split CHR ''/'' name) fs)"

definition extract_file ::
  "(string list \<Rightarrow> bool) \<Rightarrow> tarHeader \<Rightarrow> bool \<Rightarrow> string \<Rightarrow> int \<Rightarrow> string list \<Rightarrow> staging
     \<Rightarrow> (extract_error + int \<times> string list) \<times> staging" where
  "extract_file io hdr ok name tot seen fs =
     (if th_Size hdr < 0 \<or> MaxUpdateSetBytes - tot < th_Size hdr then (Inl errUpdateRefused, fs)
      else if name \<in> set updateSkippedFiles then
        if \<not> ok then (Inl errUpdateRefused, fs) else (Inr (tot + th_Size hdr, seen), fs)
      else if name \<notin> set updateSetFiles \<and> \<not> inPayloadTree name False then (Inl errUpdateRefused, fs)
      else if name \<in> set seen then (Inl errUpdateRefused, fs)
      else (case writeArchiveMember io name (th_Perm hdr) ok fs of
              (Inl e, fs1) \<Rightarrow> (Inl e, fs1)
            | (Inr _, fs1) \<Rightarrow> (Inr (tot + th_Size hdr, name # seen), fs1)))"

definition extract_member ::
  "(string list \<Rightarrow> bool) \<Rightarrow> tarHeader \<Rightarrow> bool \<Rightarrow> int \<Rightarrow> string list \<Rightarrow> staging
     \<Rightarrow> (extract_error + int \<times> string list) \<times> staging" where
  "extract_member io hdr ok tot seen fs =
     (if th_Typeflag hdr = TypeXGlobalHeader then (Inr (tot, seen), fs)
      else case archiveMemberName hdr of
        None \<Rightarrow> (Inl errUpdateRefused, fs)
      | Some name \<Rightarrow>
          if th_Typeflag hdr = TypeLink \<or> th_Mode hdr = ModeSymlink then (Inl errUpdateRefused, fs)
          else if th_Mode hdr = ModeDir then
            (case extract_dir io name fs of
               (Inl e, fs1) \<Rightarrow> (Inl e, fs1)
             | (Inr _, fs1) \<Rightarrow> (Inr (tot, seen), fs1))
          else if th_Mode hdr \<noteq> ModeRegular then (Inl errUpdateRefused, fs)
          else extract_file io hdr ok name tot seen fs)"

text \<open>The loop, with the entry counter.\<close>

fun extract_loop ::
  "(string list \<Rightarrow> bool) \<Rightarrow> tar_item list \<Rightarrow> nat \<Rightarrow> int \<Rightarrow> string list \<Rightarrow> staging
     \<Rightarrow> (extract_error + int \<times> string list) \<times> staging" where
  "extract_loop io [] entries tot seen fs = (Inr (tot, seen), fs)"
| "extract_loop io (TarError # items) entries tot seen fs = (Inl errUpdateRefused, fs)"
| "extract_loop io (Member hdr ok # items) entries tot seen fs =
     (if MaxUpdateArchiveMembers \<le> entries then (Inl errUpdateRefused, fs)
      else case extract_member io hdr ok tot seen fs of
        (Inl e, fs1) \<Rightarrow> (Inl e, fs1)
      | (Inr (tot1, seen1), fs1) \<Rightarrow> extract_loop io items (entries + 1) tot1 seen1 fs1)"

text \<open>\<open>gz\<close>: the stream has a gzip header.\<close>

definition extractUpdateArchive ::
  "(string list \<Rightarrow> bool) \<Rightarrow> bool \<Rightarrow> tar_item list \<Rightarrow> staging \<Rightarrow> (extract_error + unit) \<times> staging" where
  "extractUpdateArchive io gz items fs =
     (if \<not> gz then (Inl errUpdateRefused, fs)
      else case extract_loop io items 0 0 [] fs of
        (Inl e, fs1) \<Rightarrow> (Inl e, fs1)
      | (Inr (_, seen), fs1) \<Rightarrow>
          if list_all (\<lambda>m. m \<in> set seen) updateSetFiles then (Inr (), fs1) else (Inl errUpdateRefused, fs1))"

section \<open>Clean names\<close>

definition safe_elem :: "string \<Rightarrow> bool" where
  "safe_elem c \<longleftrightarrow> c \<noteq> [] \<and> c \<noteq> ''.'' \<and> c \<noteq> ''..'' \<and> CHR ''/'' \<notin> set c"

lemma clean_loop_elems:
  assumes "\<forall>e \<in> set es. CHR ''/'' \<notin> set e" and "\<forall>e \<in> set stack. e \<noteq> [] \<and> CHR ''/'' \<notin> set e"
    and "e \<in> set (clean_loop r es stack)"
  shows "e \<noteq> [] \<and> CHR ''/'' \<notin> set e"
  using assms
proof (induction es arbitrary: stack)
  case (Cons a es)
  have dd: "''..'' \<noteq> ([] :: string)" "CHR ''/'' \<notin> set ''..''" by simp_all
  show ?case
    using Cons.prems Cons.IH [of "tl stack"] Cons.IH [of stack] Cons.IH [of "[''..'']"] Cons.IH [of "[]"]
      Cons.IH [of "''..'' # stack"] Cons.IH [of "a # stack"] dd
    by (cases stack) (auto split: if_split_asm)
qed simp

lemma clean_loop_append:
  "\<forall>e \<in> set es. safe_elem e \<Longrightarrow> clean_loop r (es @ ys) stack = clean_loop r ys (rev es @ stack)"
  by (induction es arbitrary: stack) (simp_all add: safe_elem_def)

lemma Join_snoc: "xs \<noteq> [] \<Longrightarrow> Join (xs @ [x]) sep = Join xs sep @ sep @ x"
  by (induction xs rule: induct_list012) simp_all

lemma clean_name_elems:
  assumes "path_Clean name = name" and "name \<noteq> []" and "\<not> HasPrefix name ''/''"
    and "\<forall>c \<in> set (Split CHR ''/'' name). c \<noteq> ''..'' \<and> c \<noteq> ''.''"
  shows "\<forall>c \<in> set (Split CHR ''/'' name). safe_elem c"
proof -
  have h: "hd name \<noteq> CHR ''/''" using assms(2,3) by (cases name) (simp_all add: HasPrefix_def)
  let ?st = "clean_loop False (Split CHR ''/'' name) []"
  have ndot: "name \<noteq> ''.''" using assms(4) by (auto simp: Split_single)
  have body: "name = Join ?st ''/''"
    using assms(1,2) h ndot by (auto simp: path_Clean_def Let_def split: if_split_asm)
  have el: "\<forall>e \<in> set ?st. e \<noteq> [] \<and> CHR ''/'' \<notin> set e"
    using clean_loop_elems [of "Split CHR ''/'' name" "[]"] Split_pieces by force
  have "?st \<noteq> []" using body assms(2) by auto
  then have "Split CHR ''/'' name = ?st" using Split_Join [of ?st "CHR ''/''"] el body by simp
  then show ?thesis using el assms(4) unfolding safe_elem_def by metis
qed

lemma archiveMemberName_safe:
  assumes "archiveMemberName hdr = Some name"
  shows "\<forall>c \<in> set (Split CHR ''/'' name). safe_elem c"
  using assms by (intro clean_name_elems) (auto simp: archiveMemberName_def Let_def split: if_split_asm)

text \<open>The parent of a clean name.\<close>

lemma path_Dir_elems:
  assumes "\<forall>c \<in> set (Split CHR ''/'' name). safe_elem c"
  shows "path_Dir name = (if length (Split CHR ''/'' name) = 1 then ''.''
    else Join (butlast (Split CHR ''/'' name)) ''/'')"
proof -
  define cs where "cs = Split CHR ''/'' name"
  have ne: "cs \<noteq> []" by (simp add: cs_def)
  have name: "name = Join cs ''/''" by (simp add: cs_def Join_Split)
  have safe: "\<forall>c \<in> set cs. safe_elem c" using assms by (simp add: cs_def)
  show ?thesis
  proof (cases "length cs = 1")
    case True
    then obtain c where c: "cs = [c]" by (auto simp: length_Suc_conv)
    then have "CHR ''/'' \<notin> set name" using safe name by (simp add: safe_elem_def)
    then have "dropWhile (\<lambda>c. c \<noteq> CHR ''/'') (rev name) = []" by (auto simp: dropWhile_eq_Nil_conv)
    then show ?thesis using True by (simp add: path_Dir_def path_Clean_def cs_def)
  next
    case False
    define bs where "bs = butlast cs"
    have bs: "bs \<noteq> []" "cs = bs @ [last cs]" using ne False by (auto simp: bs_def length_butlast) (cases cs; simp)+
    have sb: "\<forall>c \<in> set bs. safe_elem c" using safe bs(2) by (metis in_set_butlastD bs_def)
    have nm: "name = (Join bs ''/'' @ ''/'') @ last cs"
      unfolding name by (subst bs(2)) (use bs(1) in \<open>simp add: Join_snoc\<close>)
    have "CHR ''/'' \<notin> set (last cs)" using safe ne by (simp add: safe_elem_def)
    then have d: "rev (dropWhile (\<lambda>c. c \<noteq> CHR ''/'') (rev name)) = Join bs ''/'' @ ''/''"
      unfolding nm by (auto simp: dropWhile_append2 dropWhile_append)
    have sp: "Split CHR ''/'' (Join bs ''/'' @ ''/'') = bs @ [[]]"
      using Split_Join [of bs "CHR ''/''"] bs(1) sb by (simp add: Split_snoc safe_elem_def)
    have h: "hd (Join bs ''/'' @ ''/'') \<noteq> CHR ''/''" "Join bs ''/'' \<noteq> []"
      using bs(1) sb by (cases bs; cases "tl bs"; cases "hd bs"; auto simp: safe_elem_def)+
    have "clean_loop False (bs @ [[]]) [] = bs"
      using clean_loop_append [OF sb, of False "[[]]" "[]"] by simp
    then show ?thesis
      using False h by (simp add: path_Dir_def d path_Clean_def sp Let_def cs_def [symmetric] bs_def [symmetric])
  qed
qed

section \<open>What extraction writes\<close>

text \<open>A node of the staging directory: a file of the build set at the top, or a file or directory of
  the payload tree of bounded depth; only safe elements, no group or world write, no special bits.\<close>

definition node_ok :: "string list \<Rightarrow> node \<Rightarrow> bool" where
  "node_ok p n \<longleftrightarrow> p \<noteq> [] \<and> (\<forall>c \<in> set p. safe_elem c)
     \<and> ((\<exists>f \<in> set updateSetFiles. p = [f] \<and> n \<noteq> DirNode)
        \<or> hd p = updatePayloadDir \<and> length p \<le> maxUpdateArchiveDepth + 1)
     \<and> (case n of DirNode \<Rightarrow> True | FileNode m \<Rightarrow> m AND NOT 0x1ED = 0)"

definition staging_ok :: "staging \<Rightarrow> bool" where
  "staging_ok fs \<longleftrightarrow> (\<forall>p n. fs p = Some n \<longrightarrow> node_ok p n)"

definition keeps_files :: "staging \<Rightarrow> staging \<Rightarrow> bool" where
  "keeps_files fs fs' \<longleftrightarrow> (\<forall>p m. fs p = Some (FileNode m) \<longrightarrow> fs' p = Some (FileNode m))"

lemma inPayloadTree_elems:
  assumes "inPayloadTree name dir"
  shows "hd (Split CHR ''/'' name) = updatePayloadDir"
    "length (Split CHR ''/'' name) \<le> maxUpdateArchiveDepth + 1"
    "\<not> dir \<Longrightarrow> 1 < length (Split CHR ''/'' name)"
proof -
  have nosl: "CHR ''/'' \<notin> set updatePayloadDir" by (simp add: updatePayloadDir_def)
  consider "name = updatePayloadDir" "dir"
    | rest where "name = updatePayloadDir @ CHR ''/'' # rest" "count_list rest CHR ''/'' < maxUpdateArchiveDepth"
    using assms by (auto simp: inPayloadTree_def CutPrefix_Some_iff split: if_split_asm option.split_asm)
  then have "hd (Split CHR ''/'' name) = updatePayloadDir
      \<and> length (Split CHR ''/'' name) \<le> maxUpdateArchiveDepth + 1
      \<and> (\<not> dir \<longrightarrow> 1 < length (Split CHR ''/'' name))"
  proof cases
    case 1
    then show ?thesis using Split_single [OF nosl] by simp
  next
    case 2
    then have "Split CHR ''/'' name = updatePayloadDir # Split CHR ''/'' rest"
      using Split_append2 [of "CHR ''/''" updatePayloadDir rest] Split_single [OF nosl] by simp
    then show ?thesis using 2 length_Split [of "CHR ''/''" rest] by simp
  qed
  then show "hd (Split CHR ''/'' name) = updatePayloadDir"
    "length (Split CHR ''/'' name) \<le> maxUpdateArchiveDepth + 1"
    "\<not> dir \<Longrightarrow> 1 < length (Split CHR ''/'' name)" by simp_all
qed

lemma mkdirAllOwn_ok:
  assumes "mkdirAllOwn io cur cs fs = (r, fs')" and "staging_ok fs"
    and "\<forall>c \<in> set (cur @ cs). safe_elem c" and "cur @ cs \<noteq> [] \<longrightarrow> hd (cur @ cs) = updatePayloadDir"
    and "length (cur @ cs) \<le> maxUpdateArchiveDepth + 1"
  shows "staging_ok fs' \<and> keeps_files fs fs'"
  using assms
proof (induction cs arbitrary: cur fs)
  case Nil
  then show ?case by (simp add: keeps_files_def)
next
  case (Cons c cs)
  let ?p = "cur @ [c]"
  have p: "node_ok ?p DirNode"
    using Cons.prems(3-5) by (cases cur) (simp_all add: node_ok_def)
  have new: "staging_ok (fs(?p \<mapsto> DirNode))" using Cons.prems(2) p by (simp add: staging_ok_def)
  have step: "staging_ok fs' \<and> keeps_files f1 fs'" if "mkdirAllOwn io ?p cs f1 = (r, fs')" "staging_ok f1" for f1
    using Cons.IH [OF that] Cons.prems(3-5) by simp
  have k: "keeps_files (fs(?p \<mapsto> DirNode)) fs' \<Longrightarrow> fs ?p = None \<Longrightarrow> keeps_files fs fs'"
    unfolding keeps_files_def by (metis fun_upd_other option.distinct(1))
  have "keeps_files fs fs" by (simp add: keeps_files_def)
  then show ?case
    using Cons.prems(1,2) step [OF _ new] step [of fs] k
    by (auto simp: Let_def split: option.split_asm node.split_asm if_split_asm)
qed

lemma masked_mode: "((perm :: u32) AND 0x1ED OR 0x180) AND NOT 0x1ED = 0" "(0x180 :: u32) AND NOT 0x1ED = 0"
proof -
  show z: "(0x180 :: u32) AND NOT 0x1ED = 0" by simp
  have "(perm AND 0x1ED) AND NOT 0x1ED = 0" by (simp add: and.assoc)
  then show "(perm AND 0x1ED OR 0x180) AND NOT 0x1ED = 0" using z by (simp add: bit.conj_disj_distrib2)
qed

text \<open>A member name: safe, and a file of the build set or of the payload tree.\<close>

definition member_name :: "string \<Rightarrow> bool" where
  "member_name name \<longleftrightarrow> (\<forall>c \<in> set (Split CHR ''/'' name). safe_elem c)
     \<and> (name \<in> set updateSetFiles \<or> inPayloadTree name False)"

lemma updateSetFiles_elems: "name \<in> set updateSetFiles \<Longrightarrow> Split CHR ''/'' name = [name]"
  by (intro Split_single) (auto simp: updateSetFiles_def)

lemma member_node_ok:
  assumes "member_name name" and "m AND NOT 0x1ED = 0"
  shows "node_ok (Split CHR ''/'' name) (FileNode m)"
proof (cases "name \<in> set updateSetFiles")
  case True
  then show ?thesis using assms updateSetFiles_elems [OF True] by (auto simp: node_ok_def member_name_def)
next
  case False
  then show ?thesis
    using assms inPayloadTree_elems [of name False] by (simp add: node_ok_def member_name_def)
qed

lemma member_dirs_ok:
  assumes "member_name name" and "path_Dir name \<noteq> ''.''" and "staging_ok fs"
    and "mkdirAllOwn io [] (Split CHR ''/'' (path_Dir name)) fs = (r, fs')"
  shows "staging_ok fs' \<and> keeps_files fs fs'"
proof -
  let ?p = "Split CHR ''/'' name"
  have safe: "\<forall>c \<in> set ?p. safe_elem c" using assms(1) by (simp add: member_name_def)
  have l: "length ?p \<noteq> 1" and d: "path_Dir name = Join (butlast ?p) ''/''"
    using path_Dir_elems [OF safe] assms(2) by (simp_all split: if_split_asm)
  have bl: "butlast ?p \<noteq> []" using l by (cases ?p; cases "tl ?p") auto
  have safe': "\<forall>c \<in> set (butlast ?p). safe_elem c" using safe by (meson in_set_butlastD)
  then have sp: "Split CHR ''/'' (path_Dir name) = butlast ?p"
    unfolding d by (intro Split_Join [OF bl]) (simp add: safe_elem_def)
  have "name \<notin> set updateSetFiles" using updateSetFiles_elems [of name] l by auto
  then have "inPayloadTree name False" using assms(1) by (simp add: member_name_def)
  note pt = inPayloadTree_elems [OF this]
  have "hd (butlast ?p) = updatePayloadDir" using pt(1) bl by (cases ?p) (simp_all split: if_split_asm)
  then show ?thesis
    using mkdirAllOwn_ok [of io "[]" "butlast ?p" fs r fs'] assms(3,4) safe' pt(2) by (simp add: sp)
qed

lemma writeArchiveMember_ok:
  assumes "writeArchiveMember io name perm ok fs = (r, fs')" and "staging_ok fs" and "member_name name"
  shows "staging_ok fs' \<and> keeps_files fs fs' \<and> (r = Inr () \<longrightarrow> (\<exists>m. fs' (Split CHR ''/'' name) = Some (FileNode m)))"
proof -
  let ?p = "Split CHR ''/'' name"
  define mk where "mk = (if path_Dir name \<noteq> ''.'' then mkdirAllOwn io [] (Split CHR ''/'' (path_Dir name)) fs
     else (Inr (), fs))"
  obtain r1 fs1 where m: "mk = (r1, fs1)" by (cases mk)
  have fs1: "staging_ok fs1 \<and> keeps_files fs fs1"
    using m assms(2) member_dirs_ok [OF assms(3) _ assms(2)]
    by (auto simp: mk_def keeps_files_def split: if_split_asm)
  show ?thesis
  proof (cases r1)
    case (Inl e)
    then have "r = Inl e" "fs' = fs1"
      using assms(1) m by (simp_all add: writeArchiveMember_def Let_def mk_def [symmetric])
    then show ?thesis using fs1 by simp
  next
    case (Inr u)
    have upd: "staging_ok (fs1(?p \<mapsto> FileNode m)) \<and> (fs1 ?p = None \<longrightarrow> keeps_files fs (fs1(?p \<mapsto> FileNode m)))"
      if "m AND NOT 0x1ED = 0" for m
      using fs1 member_node_ok [OF assms(3) that] by (auto simp: staging_ok_def keeps_files_def)
    have w: "writeArchiveMember io name perm ok fs = (if fs1 ?p \<noteq> None \<or> io ?p then (Inl errIO, fs1)
        else if \<not> ok then (Inl errUpdateRefused, fs1(?p \<mapsto> FileNode 0x180))
        else (Inr (), fs1(?p \<mapsto> FileNode (perm AND 0x1ED OR 0x180))))"
      unfolding writeArchiveMember_def Let_def mk_def [symmetric] m Inr by simp
    note R = assms(1) [unfolded w]
    show ?thesis
    proof (cases "fs1 ?p \<noteq> None \<or> io ?p")
      case True
      then have "r = Inl errIO \<and> fs' = fs1" using R by (simp only: if_True prod.inject)
      then show ?thesis using fs1 by simp
    next
      case free: False
      show ?thesis
      proof (cases ok)
        case True
        then have "fs' = fs1(?p \<mapsto> FileNode (perm AND 0x1ED OR 0x180))"
          using R free by (simp only: if_False if_True not_True_eq_False prod.inject)
        then show ?thesis using upd [OF masked_mode(1)] free by (metis fun_upd_same)
      next
        case False
        then have "r = Inl errUpdateRefused" "fs' = fs1(?p \<mapsto> FileNode 0x180)"
          using R free by (simp_all only: if_False if_True not_False_eq_True prod.inject)
        then show ?thesis using upd [OF masked_mode(2)] free by simp
      qed
    qed
  qed
qed

lemma keeps_files_trans: "keeps_files a b \<Longrightarrow> keeps_files b c \<Longrightarrow> keeps_files a c"
  by (simp add: keeps_files_def)

definition seen_ok :: "string list \<Rightarrow> staging \<Rightarrow> bool" where
  "seen_ok seen fs \<longleftrightarrow> (\<forall>n \<in> set seen. \<exists>m. fs (Split CHR ''/'' n) = Some (FileNode m))"

lemma seen_ok_keeps: "seen_ok seen fs \<Longrightarrow> keeps_files fs fs' \<Longrightarrow> seen_ok seen fs'"
  unfolding seen_ok_def keeps_files_def by blast

lemma extract_dir_ok:
  assumes "extract_dir io name fs = (r, fs')" and "staging_ok fs"
    and "\<forall>c \<in> set (Split CHR ''/'' name). safe_elem c"
  shows "staging_ok fs' \<and> keeps_files fs fs'"
proof (cases "inPayloadTree name True")
  case True
  then show ?thesis
    using assms mkdirAllOwn_ok [of io "[]" "Split CHR ''/'' name" fs r fs'] inPayloadTree_elems(1,2) [OF True]
    by (simp add: extract_dir_def)
next
  case False
  then show ?thesis using assms by (simp add: extract_dir_def keeps_files_def)
qed

lemma extract_file_ok:
  assumes "extract_file io hdr ok name tot seen fs = (r, fs')" and "staging_ok fs" and "seen_ok seen fs"
    and safe: "\<forall>c \<in> set (Split CHR ''/'' name). safe_elem c"
  shows "staging_ok fs' \<and> (\<forall>t s. r = Inr (t, s) \<longrightarrow> seen_ok s fs' \<and> tot \<le> t \<and> t \<le> MaxUpdateSetBytes)"
proof -
  define w where "w = writeArchiveMember io name (th_Perm hdr) ok fs"
  obtain r1 fs1 where m: "w = (r1, fs1)" by (cases w)
  define wr where "wr = (case w of (Inl e, fs1) \<Rightarrow> (Inl e, fs1)
    | (Inr _, fs1) \<Rightarrow> (Inr (tot + th_Size hdr, name # seen), fs1))"
  note R = assms(1) [unfolded extract_file_def, folded w_def, folded wr_def]
  show ?thesis
  proof (cases "th_Size hdr < 0 \<or> MaxUpdateSetBytes - tot < th_Size hdr")
    case True
    then show ?thesis using R assms(2) by auto
  next
    case sz: False
    show ?thesis
    proof (cases "name \<in> set updateSkippedFiles
        \<or> name \<notin> set updateSetFiles \<and> \<not> inPayloadTree name False \<or> name \<in> set seen")
      case True
      then have "r = Inl errUpdateRefused \<and> fs' = fs \<or> r = Inr (tot + th_Size hdr, seen) \<and> fs' = fs"
        using R sz by (cases "name \<in> set updateSkippedFiles"; cases ok) (auto split: if_split_asm)
      then show ?thesis using assms(2,3) sz by auto
    next
      case False
      then have "member_name name" using safe by (auto simp: member_name_def)
      note k = writeArchiveMember_ok [OF m [unfolded w_def] assms(2) this]
      have "seen_ok (name # seen) fs1" if "r1 = Inr ()"
        using k that seen_ok_keeps [OF assms(3)] by (simp add: seen_ok_def)
      moreover have "wr = (r, fs')" using R sz False by (auto split: if_split_asm)
      ultimately show ?thesis using k sz by (cases r1) (auto simp: wr_def m)
    qed
  qed
qed

lemma extract_member_ok:
  assumes "extract_member io hdr ok tot seen fs = (r, fs')" and "staging_ok fs" and "seen_ok seen fs"
    and "tot \<le> MaxUpdateSetBytes"
  shows "staging_ok fs' \<and> (\<forall>t s. r = Inr (t, s) \<longrightarrow> seen_ok s fs' \<and> tot \<le> t \<and> t \<le> MaxUpdateSetBytes)"
proof (cases "th_Typeflag hdr = TypeXGlobalHeader \<or> archiveMemberName hdr = None")
  case True
  then have "r = Inr (tot, seen) \<and> fs' = fs \<or> r = Inl errUpdateRefused \<and> fs' = fs"
    using assms(1) by (cases "th_Typeflag hdr = TypeXGlobalHeader") (simp_all add: extract_member_def)
  then show ?thesis using assms(2-4) by auto
next
  case False
  then obtain name where n: "archiveMemberName hdr = Some name" by auto
  note safe = archiveMemberName_safe [OF n]
  obtain r1 fs1 where d: "extract_dir io name fs = (r1, fs1)" by (cases "extract_dir io name fs")
  note k = extract_dir_ok [OF d assms(2) safe]
  have seen1: "seen_ok seen fs1" using k seen_ok_keeps [OF assms(3)] by blast
  show ?thesis
  proof (cases "th_Typeflag hdr = TypeLink \<or> th_Mode hdr = ModeSymlink \<or> th_Mode hdr = ModeIrregular")
    case True
    then have "r = Inl errUpdateRefused \<and> fs' = fs" using assms(1) False n
      by (cases "th_Typeflag hdr = TypeLink"; cases "th_Mode hdr") (simp_all add: extract_member_def)
    then show ?thesis using assms(2) by simp
  next
    case reg: False
    show ?thesis
    proof (cases "th_Mode hdr = ModeDir")
      case True
      then have "(case r1 of Inl e \<Rightarrow> (Inl e, fs1) | Inr _ \<Rightarrow> (Inr (tot, seen), fs1)) = (r, fs')"
        using assms(1) False reg n by (simp add: extract_member_def d)
      then show ?thesis using k seen1 assms(4) by (cases r1) auto
    next
      case nodir: False
      then have "th_Mode hdr = ModeRegular" using reg by (cases "th_Mode hdr") simp_all
      then have "extract_file io hdr ok name tot seen fs = (r, fs')"
        using assms(1) False reg n by (simp add: extract_member_def)
      then show ?thesis by (rule extract_file_ok [OF _ assms(2,3) safe])
    qed
  qed
qed

lemma extract_loop_ok:
  assumes "extract_loop io items entries tot seen fs = (r, fs')" and "staging_ok fs" and "seen_ok seen fs"
    and "tot \<le> MaxUpdateSetBytes" and "entries \<le> MaxUpdateArchiveMembers"
  shows "staging_ok fs' \<and> (\<forall>t s. r = Inr (t, s) \<longrightarrow> seen_ok s fs' \<and> tot \<le> t \<and> t \<le> MaxUpdateSetBytes
    \<and> entries + length items \<le> MaxUpdateArchiveMembers)"
  using assms
proof (induction io items entries tot seen fs rule: extract_loop.induct)
  case (3 io hdr ok items entries tot seen fs)
  obtain r1 fs1 where m: "extract_member io hdr ok tot seen fs = (r1, fs1)"
    by (cases "extract_member io hdr ok tot seen fs")
  note k = extract_member_ok [OF m "3.prems"(2,3,4)]
  show ?case
  proof (cases "MaxUpdateArchiveMembers \<le> entries \<or> isl r1")
    case True
    then show ?thesis using "3.prems"(1,2) m k by (cases r1) (auto split: if_split_asm)
  next
    case False
    then obtain t1 s1 where r1: "r1 = Inr (t1, s1)" by (cases r1) auto
    have "extract_loop io items (entries + 1) t1 s1 fs1 = (r, fs')"
      using "3.prems"(1) False m r1 by simp
    from "3.IH" [OF _ m [symmetric] r1 refl this] False k r1 show ?thesis by fastforce
  qed
qed auto

section \<open>A concrete archive\<close>

definition demo_member :: "string \<Rightarrow> tar_item" where
  "demo_member name = Member \<lparr>th_Name = name, th_Typeflag = TypeReg, th_Mode = ModeRegular, th_Perm = 0xFFF,
     th_Size = 10\<rparr> True"

definition demo_archive :: "tar_item list" where
  "demo_archive = map demo_member (''./LICENSE'' # ''cp-payload/bin/kubelet'' # updateSetFiles)"

section \<open>Properties\<close>



end
