(* ===== verification/Codesign.thy ===== *)
theory Codesign
  imports Extract
begin

text \<open>
  The code-signing policy of an update (\<^verbatim>\<open>pkg/netd/codesign.go\<close>): team identifiers, the reading of
  the \<^verbatim>\<open>codesign\<close> tool's output, the files of the staged set and the acceptance check. Running the
  tool (\<^verbatim>\<open>runCodesign\<close>) and reading files are arguments.
\<close>

section \<open>Signatures\<close>

definition teamIDLen :: nat where
  "teamIDLen = 10"

definition validTeamID :: "string \<Rightarrow> bool" where
  "validTeamID tid \<longleftrightarrow> length tid = teamIDLen \<and> list_all (\<lambda>c. is_upper c \<or> is_digit c) tid"

record codeSignature =
  cs_Valid :: bool
  cs_TeamID :: string
  cs_DeveloperID :: bool

definition cs_team :: "codeSignature \<Rightarrow> string" where
  "cs_team c = (if cs_Valid c \<and> cs_DeveloperID c \<and> validTeamID (cs_TeamID c) then cs_TeamID c else [])"

fun codesign_lines :: "string list \<Rightarrow> string" where
  "codesign_lines [] = []"
| "codesign_lines (line # ls) =
     (case Cut CHR ''='' (TrimSpace line) of
        Some (key, val) \<Rightarrow>
          if key = ''TeamIdentifier'' \<and> val \<noteq> ''not set'' then TrimSpace val else codesign_lines ls
      | None \<Rightarrow> codesign_lines ls)"

definition parseCodesignTeam :: "string \<Rightarrow> string" where
  "parseCodesignTeam out = codesign_lines (Split (CHR 0x0A) out)"

definition developerIDAnchor :: string where
  "developerIDAnchor = ''anchor apple generic and certificate 1[field.1.2.840.113635.100.6.2.6] exists and certificate leaf[field.1.2.840.113635.100.6.1.13] exists''"

definition developerIDRequirement :: "string \<Rightarrow> string" where
  "developerIDRequirement team = developerIDAnchor @ '' and certificate leaf[subject.OU] = '' @ [CHR 0x22] @ team @ [CHR 0x22]"

text \<open>\<^verbatim>\<open>capBuffer.Write\<close>: the buffer never grows past its bound, the write is reported as complete.\<close>

definition capBuffer_Write :: "nat \<Rightarrow> string \<Rightarrow> string \<Rightarrow> nat \<times> string" where
  "capBuffer_Write mx buf p =
     (length p, if length buf < mx then buf @ take (min (length p) (mx - length buf)) p else buf)"

definition codesignOutputBytes :: nat where
  "codesignOutputBytes = 65536"

text \<open>A run of a program with its output in the writes it made: it ended with status zero, with another
  status (the flag: the deadline had passed by then), or it could not be run.\<close>

datatype run_result = ExitZero "string list" | ExitNonzero "string list" bool | NotRun

definition capped :: "nat \<Rightarrow> string list \<Rightarrow> string" where
  "capped mx ws = foldl (\<lambda>buf p. snd (capBuffer_Write mx buf p)) [] ws"

definition runCodesign :: "(string list \<Rightarrow> run_result) \<Rightarrow> string list \<Rightarrow> (bool \<times> string) option" where
  "runCodesign exec args =
     (case exec args of
        ExitZero ws \<Rightarrow> Some (True, capped codesignOutputBytes ws)
      | ExitNonzero ws expired \<Rightarrow> if expired then None else Some (False, capped codesignOutputBytes ws)
      | NotRun \<Rightarrow> None)"

lemma capBuffer_Write_take:
  "snd (capBuffer_Write mx (take mx b) p) = take mx (b @ p)"
  by (cases "length b < mx") (auto simp: capBuffer_Write_def min_def)

lemma capped_take: "capped mx ws = take mx (concat ws)"
proof -
  have "foldl (\<lambda>buf p. snd (capBuffer_Write mx buf p)) (take mx b) ws = take mx (b @ concat ws)" for b
    by (induction ws arbitrary: b) (simp_all add: capBuffer_Write_take del: take_append)
  from this [of "[]"] show ?thesis by (simp add: capped_def)
qed

text \<open>\<^verbatim>\<open>Inspect\<close>: \<open>run\<close> is \<^verbatim>\<open>runCodesign\<close> (None when the tool could not be run).\<close>

definition Inspect :: "(string list \<Rightarrow> (bool \<times> string) option) \<Rightarrow> string \<Rightarrow> codeSignature option" where
  "Inspect run path =
     (let none = \<lparr>cs_Valid = False, cs_TeamID = [], cs_DeveloperID = False\<rparr> in
      if \<not> path_IsAbs path then None
      else case run [''--verify'', ''--strict'', path] of
        None \<Rightarrow> None
      | Some (ok, _) \<Rightarrow>
          if \<not> ok then Some none
          else case run [''-dv'', path] of
            None \<Rightarrow> None
          | Some (ok2, out) \<Rightarrow>
              if \<not> ok2 then Some none
              else let team = parseCodesignTeam out in
                if validTeamID team then
                  (case run [''--verify'', ''--strict'', ''-R='' @ developerIDRequirement team, path] of
                     None \<Rightarrow> None
                   | Some (dev, _) \<Rightarrow> Some \<lparr>cs_Valid = True, cs_TeamID = team, cs_DeveloperID = dev\<rparr>)
                else Some \<lparr>cs_Valid = True, cs_TeamID = team, cs_DeveloperID = False\<rparr>)"

section \<open>The staged set\<close>

definition machOMagics :: "u32 list" where
  "machOMagics = [0xFEEDFACE, 0xCEFAEDFE, 0xFEEDFACF, 0xCFFAEDFE, 0xCAFEBABE, 0xBEBAFECA, 0xCAFEBABF, 0xBFBAFECA]"

definition byte_u32 :: "char \<Rightarrow> u32" where
  "byte_u32 c = word_of_nat (of_char c)"

text \<open>The content of a file decides; None is a read error.\<close>

definition isMachO :: "string option \<Rightarrow> bool option" where
  "isMachO content =
     (case content of
        None \<Rightarrow> None
      | Some b \<Rightarrow>
          if length b < 4 then Some False
          else Some ((push_bit 24 (byte_u32 (b ! 0)) OR push_bit 16 (byte_u32 (b ! 1))
                      OR push_bit 8 (byte_u32 (b ! 2)) OR byte_u32 (b ! 3)) \<in> set machOMagics))"

definition versionMarkerSuffix :: string where
  "versionMarkerSuffix = ''.version''"

definition maxVersionMarkerBytes :: nat where
  "maxVersionMarkerBytes = 4096"

definition isVersionMarker :: "string \<Rightarrow> string option \<Rightarrow> bool option" where
  "isVersionMarker rel content =
     (case Cut CHR ''/'' rel of
        None \<Rightarrow> Some False
      | Some (dir, name) \<Rightarrow>
          if dir \<noteq> updatePayloadDir \<or> CHR ''/'' \<in> set name \<or> \<not> HasSuffix name versionMarkerSuffix
            \<or> length name = length versionMarkerSuffix then Some False
          else case content of
            None \<Rightarrow> None
          | Some b \<Rightarrow>
              if maxVersionMarkerBytes \<le> length b then Some False
              else Some (list_all (\<lambda>c. c = CHR 0x0A \<or> (0x20 \<le> ord c \<and> ord c \<le> 0x7E)) b))"

record stagedSet =
  st_Members :: nat
  st_MachOs :: "string list"
  st_Markers :: "string list"

text \<open>An entry of the walk: its relative name, whether it is a directory, whether it is a regular file,
  and its content.\<close>

record walkEntry =
  we_rel :: string
  we_dir :: bool
  we_regular :: bool
  we_content :: "string option"

datatype signing_error =
    NotRegular string | NotMachO string | WalkFailed | MissingMachO
  | InstalledInvalid | StagedInvalid string | OtherTeam string | MixedSigners | TeamRequired | InspectFailed

fun walk_loop :: "walkEntry list \<Rightarrow> stagedSet \<Rightarrow> signing_error + stagedSet" where
  "walk_loop [] s = Inr s"
| "walk_loop (e # es) s =
     (if we_dir e then walk_loop es s
      else if \<not> we_regular e then Inl (NotRegular (we_rel e))
      else let s1 = s\<lparr>st_Members := st_Members s + 1\<rparr> in
        case isMachO (we_content e) of
          None \<Rightarrow> Inl WalkFailed
        | Some True \<Rightarrow> walk_loop es (s1\<lparr>st_MachOs := st_MachOs s1 @ [we_rel e]\<rparr>)
        | Some False \<Rightarrow>
            (case isVersionMarker (we_rel e) (we_content e) of
               None \<Rightarrow> Inl WalkFailed
             | Some True \<Rightarrow> walk_loop es (s1\<lparr>st_Markers := st_Markers s1 @ [we_rel e]\<rparr>)
             | Some False \<Rightarrow> Inl (NotMachO (we_rel e))))"

text \<open>\<open>entries\<close> None: the walk itself failed.\<close>

definition stagedSigningSet :: "walkEntry list option \<Rightarrow> signing_error + stagedSet" where
  "stagedSigningSet entries =
     (case entries of
        None \<Rightarrow> Inl WalkFailed
      | Some es \<Rightarrow>
          (case walk_loop es \<lparr>st_Members = 0, st_MachOs = [], st_Markers = []\<rparr> of
             Inl e \<Rightarrow> Inl e
           | Inr s \<Rightarrow>
               let s1 = s\<lparr>st_MachOs := sort (st_MachOs s), st_Markers := sort (st_Markers s)\<rparr> in
               if list_all (\<lambda>m. m \<in> set (st_MachOs s1)) updateSetFiles then Inr s1 else Inl MissingMachO))"

section \<open>Acceptance\<close>

fun inspect_loop :: "(string \<Rightarrow> codeSignature option) \<Rightarrow> string \<Rightarrow> string list \<Rightarrow> (string \<times> codeSignature) list option" where
  "inspect_loop insp dir [] = Some []"
| "inspect_loop insp dir (rel # rels) =
     (case insp (path_Join [dir, rel]) of
        None \<Rightarrow> None
      | Some sig \<Rightarrow>
          (case inspect_loop insp dir rels of None \<Rightarrow> None | Some tree \<Rightarrow> Some ((rel, sig) # tree)))"

definition inspectStagedTree ::
  "(string \<Rightarrow> codeSignature option) \<Rightarrow> string \<Rightarrow> stagedSet \<Rightarrow> string
     \<Rightarrow> (codeSignature \<times> (string \<times> codeSignature) list) option" where
  "inspectStagedTree insp dir sset installedPath =
     (case insp installedPath of
        None \<Rightarrow> None
      | Some installed \<Rightarrow>
          (case inspect_loop insp dir (st_MachOs sset) of
             None \<Rightarrow> None
           | Some tree \<Rightarrow> Some (installed, tree)))"

text \<open>The loop of \<^verbatim>\<open>checkCodeSigning\<close> over the files in order; the result is the teams seen.\<close>

fun signing_loop ::
  "codeSignature \<Rightarrow> (string \<times> codeSignature) list \<Rightarrow> string list \<Rightarrow> signing_error + string list" where
  "signing_loop installed [] teams = Inr teams"
| "signing_loop installed ((rel, sig) # tree) teams =
     (if \<not> cs_Valid sig then Inl (StagedInvalid rel)
      else if cs_team installed \<noteq> [] \<and> cs_team sig \<noteq> cs_team installed then Inl (OtherTeam rel)
      else signing_loop installed tree (if cs_team sig \<in> set teams then teams else cs_team sig # teams))"

definition checkCodeSigning ::
  "codeSignature \<Rightarrow> (string \<times> codeSignature) list \<Rightarrow> bool \<Rightarrow> signing_error option" where
  "checkCodeSigning installed tree requireTeam =
     (if \<not> cs_Valid installed then Some InstalledInvalid
      else case signing_loop installed (sort_key fst tree) [] of
        Inl e \<Rightarrow> Some e
      | Inr teams \<Rightarrow>
          if 1 < length teams then Some MixedSigners
          else if requireTeam \<and> [] \<in> set teams then Some TeamRequired
          else None)"

definition signerName :: "codeSignature \<Rightarrow> string" where
  "signerName sig =
     (if cs_team sig \<noteq> [] then ''team '' @ cs_team sig
      else if cs_TeamID sig \<noteq> [] then ''no team ('' @ cs_TeamID sig @ '' without a Developer ID signature)''
      else ''no team (ad hoc or not Developer ID)'')"

section \<open>What acceptance means\<close>

lemma signing_loop_teams:
  assumes "signing_loop installed tree teams = Inr ts" and "distinct teams"
  shows "distinct ts \<and> set ts = set teams \<union> cs_team ` snd ` set tree \<and> (\<forall>x \<in> set tree. cs_Valid (snd x)
    \<and> (cs_team installed \<noteq> [] \<longrightarrow> cs_team (snd x) = cs_team installed))"
  using assms
proof (induction installed tree teams rule: signing_loop.induct)
  case (2 installed rel sig tree teams)
  then have "signing_loop installed tree (if cs_team sig \<in> set teams then teams else cs_team sig # teams) = Inr ts"
    "cs_Valid sig" "cs_team installed \<noteq> [] \<longrightarrow> cs_team sig = cs_team installed"
    by (auto split: if_split_asm)
  moreover have "distinct (if cs_team sig \<in> set teams then teams else cs_team sig # teams)" using "2.prems"(2) by simp
  ultimately show ?case using "2.IH" "2.prems" by (auto split: if_split_asm)
qed simp

text \<open>C28. An accepted build set is consistently signed: the installed binary and every staged file have
  valid signatures, all staged files have the same team, it is the installed team when there is
  one, and it is not empty when the payload requires a team.\<close>

theorem codesign_consistent:
  assumes "checkCodeSigning installed tree requireTeam = None" and "tree \<noteq> []"
  shows "cs_Valid installed \<and> (\<exists>team. (\<forall>(rel, sig) \<in> set tree. cs_Valid sig \<and> cs_team sig = team)
    \<and> (cs_team installed \<noteq> [] \<longrightarrow> team = cs_team installed) \<and> (requireTeam \<longrightarrow> team \<noteq> []))"
proof -
  obtain ts where l: "signing_loop installed (sort_key fst tree) [] = Inr ts" "\<not> 1 < length ts"
      "\<not> (requireTeam \<and> [] \<in> set ts)" "cs_Valid installed"
    using assms(1) by (auto simp: checkCodeSigning_def split: if_split_asm sum.split_asm)
  have t: "distinct ts \<and> set ts = cs_team ` snd ` set tree \<and> (\<forall>x \<in> set tree. cs_Valid (snd x)
    \<and> (cs_team installed \<noteq> [] \<longrightarrow> cs_team (snd x) = cs_team installed))"
    using signing_loop_teams [OF l(1)] by simp
  then have "set ts \<noteq> {}" using assms(2) by simp
  then obtain team where "ts = [team]" using l(2) by (cases ts; cases "tl ts") auto
  then have team: "\<forall>x \<in> set tree. cs_team (snd x) = team" "team \<in> cs_team ` snd ` set tree" using t by auto
  have "requireTeam \<longrightarrow> team \<noteq> []" using l(3) \<open>ts = [team]\<close> by auto
  moreover have "cs_team installed \<noteq> [] \<longrightarrow> team = cs_team installed" using t team by auto
  ultimately show ?thesis using t l(4) team(1) by (intro conjI exI [of _ team]) (auto simp: split_def)
qed

theorem codesign_consistent_witness:
  "checkCodeSigning \<lparr>cs_Valid = True, cs_TeamID = ''ABCDE12345'', cs_DeveloperID = True\<rparr>
     [(''k3sm'', \<lparr>cs_Valid = True, cs_TeamID = ''ABCDE12345'', cs_DeveloperID = True\<rparr>)] True = None
   \<and> (\<exists>team. team = ''ABCDE12345'' \<and> team \<noteq> [])"
proof -
  let ?s = "\<lparr>cs_Valid = True, cs_TeamID = ''ABCDE12345'', cs_DeveloperID = True\<rparr>"
  have c: "checkCodeSigning ?s [(''k3sm'', ?s)] True = None" by code_simp
  have t: "cs_team ?s = ''ABCDE12345''" by code_simp
  from codesign_consistent [OF c] t c show ?thesis by auto
qed

end
