(* ===== verification/Wire.thy ===== *)
theory Wire
  imports Netip
begin

text \<open>
  The protocol between the node and its privileged helper (\<^verbatim>\<open>pkg/netd/wire\<close>): frames, versions, the
  table of named refusals, and the client's exchanges. A connection is what it will still deliver
  and how it ends, the outcomes of its writes, and what was written; JSON coding is an argument.
\<close>

section \<open>Frames\<close>

text \<open>\<^verbatim>\<open>binary.BigEndian\<close>\<close>

definition PutUint32 :: "u32 \<Rightarrow> string" where
  "PutUint32 w = map (\<lambda>k. char_of (unat (drop_bit k w))) [24, 16, 8, 0]"

fun Uint32 :: "string \<Rightarrow> u32" where
  "Uint32 (a # b # c # d # _) = word_of_nat (((ord a * 256 + ord b) * 256 + ord c) * 256 + ord d)"
| "Uint32 _ = 0"

definition Frame :: "string \<Rightarrow> string" where
  "Frame payload = PutUint32 (word_of_nat (length payload)) @ payload"

datatype read_error = EOF | ErrUnexpectedEOF | ReadFailed | ErrEmptyFrame | ErrFrameTooLarge | SlicePanic

text \<open>What a connection still delivers: its bytes, then the end of the stream or a read error.\<close>

record reader =
  rd_bytes :: string
  rd_eof :: bool

definition ReadFull :: "nat \<Rightarrow> reader \<Rightarrow> (read_error + string) \<times> reader" where
  "ReadFull n r =
     (if n \<le> length (rd_bytes r) then (Inr (take n (rd_bytes r)), r\<lparr>rd_bytes := drop n (rd_bytes r)\<rparr>)
      else (Inl (if \<not> rd_eof r then ReadFailed else if rd_bytes r = [] then EOF else ErrUnexpectedEOF),
            r\<lparr>rd_bytes := []\<rparr>))"

definition ReadFrame :: "reader \<Rightarrow> int \<Rightarrow> (read_error + string) \<times> reader" where
  "ReadFrame r mx =
     (case ReadFull 4 r of
        (Inl e, r1) \<Rightarrow> (Inl e, r1)
      | (Inr hdr, r1) \<Rightarrow>
          let n = Uint32 hdr in
          if n = 0 then (Inl ErrEmptyFrame, r1)
          else if mx < uint n then (Inl ErrFrameTooLarge, r1)
          else ReadFull (unat n) r1)"

text \<open>The bound of the slice, \<^verbatim>\<open>4+n\<close>, is computed in 32 bits; a bound below 4 panics.\<close>

definition ParseFrame :: "string \<Rightarrow> read_error + string" where
  "ParseFrame b =
     (if length b < 4 then Inl ErrEmptyFrame
      else let n = Uint32 (take 4 b) in
        if n = 0 then Inl ErrEmptyFrame
        else if length b - 4 < unat n then Inl ErrUnexpectedEOF
        else let hi = 4 + n in
          if unat hi < 4 then Inl SlicePanic
          else Inr (drop 4 (take (unat hi) b)))"

lemma Uint32_PutUint32: "Uint32 (PutUint32 w @ xs) = w"
proof -
  have b: "unat (drop_bit k w) = unat w div 2 ^ k" for k
    unfolding unat_drop_bit_eq by (rule drop_bit_eq_div)
  have n: "unat w < 4294967296" using unsigned_less [of w, where ?'a = nat] by simp
  have d: "x div 65536 = x div 256 div 256" "x div 16777216 = x div 256 div 256 div 256" for x :: nat
    by (simp_all flip: div_mult2_eq)
  have "unat w div 256 div 256 div 256 < 256" using n by (simp flip: div_mult2_eq add: less_mult_imp_div_less)
  then have e: "((unat w div 16777216 mod 256 * 256 + unat w div 65536 mod 256) * 256 + unat w div 256 mod 256) * 256
      + unat w mod 256 = unat w"
    unfolding d by (simp only: mod_less div_mult_mod_eq)
  have "Uint32 (PutUint32 w @ xs) = word_of_nat (((unat w div 16777216 mod 256 * 256 + unat w div 65536 mod 256) * 256
      + unat w div 256 mod 256) * 256 + unat w mod 256)"
    by (simp only: PutUint32_def list.map append.simps Uint32.simps of_char_of b) simp
  then show ?thesis unfolding e by simp
qed

lemma length_PutUint32 [simp]: "length (PutUint32 w) = 4"
  by (simp add: PutUint32_def)

section \<open>Versions and named refusals\<close>

record Version =
  v_Major :: int
  v_Minor :: int

definition ProtocolVersionMajor :: int where
  "ProtocolVersionMajor = 1"

definition ProtocolVersionMinor :: int where
  "ProtocolVersionMinor = 5"

definition MinorInterconnect :: int where
  "MinorInterconnect = 2"

definition MinorApplyUpdate :: int where
  "MinorApplyUpdate = 4"

definition MinorMeshPeerStats :: int where
  "MinorMeshPeerStats = 5"

definition CurrentVersion :: Version where
  "CurrentVersion = \<lparr>v_Major = ProtocolVersionMajor, v_Minor = ProtocolVersionMinor\<rparr>"

definition SupportsInterconnect :: "Version \<Rightarrow> bool" where
  "SupportsInterconnect v \<longleftrightarrow> v_Major v = ProtocolVersionMajor \<and> MinorInterconnect \<le> v_Minor v"

definition SupportsApplyUpdate :: "Version \<Rightarrow> bool" where
  "SupportsApplyUpdate v \<longleftrightarrow> v_Major v = ProtocolVersionMajor \<and> MinorApplyUpdate \<le> v_Minor v"

definition SupportsMeshPeerStats :: "Version \<Rightarrow> bool" where
  "SupportsMeshPeerStats v \<longleftrightarrow> v_Major v = ProtocolVersionMajor \<and> MinorMeshPeerStats \<le> v_Minor v"

definition Compatible :: "Version \<Rightarrow> bool" where
  "Compatible v \<longleftrightarrow> v_Major v = ProtocolVersionMajor"

datatype sentinel =
    ErrInterconnectSlotOutOfRange | ErrInterconnectIndexOutOfRange | ErrInterconnectIdentityUnadopted
  | ErrInterconnectNoBridge | ErrInterconnectTeardownOrder

definition reasons :: "(string \<times> sentinel) list" where
  "reasons =
     [(''InterconnectSlotOutOfRange'', ErrInterconnectSlotOutOfRange),
      (''InterconnectIndexOutOfRange'', ErrInterconnectIndexOutOfRange),
      (''InterconnectIdentityUnadopted'', ErrInterconnectIdentityUnadopted),
      (''InterconnectNoBridge'', ErrInterconnectNoBridge),
      (''InterconnectTeardownOrder'', ErrInterconnectTeardownOrder)]"

text \<open>An error is the set of sentinels it wraps.\<close>

definition ReasonOf :: "sentinel set \<Rightarrow> string" where
  "ReasonOf err = (case find (\<lambda>(_, e). e \<in> err) reasons of Some (r, _) \<Rightarrow> r | None \<Rightarrow> [])"

definition errorOfReason :: "string \<Rightarrow> sentinel option" where
  "errorOfReason reason = map_option snd (find (\<lambda>(r, _). r = reason) reasons)"

section \<open>Messages\<close>

record MeshPeerArg =
  mp_PubKey :: string
  mp_Endpoint :: string
  mp_AllowedIPs :: "string list"

record ConfigureMeshArgs =
  cm_LocalPrivKeyRef :: string
  cm_ListenPort :: int
  cm_NodePodCIDR :: string
  cm_Peers :: "MeshPeerArg list"

record BindPortArgs =
  bp_Port :: int
  bp_NodeAddr :: string
  bp_Protocol :: string

record ApplyUpdateArgs =
  aa_ArchivePath :: string
  aa_Payload :: string
  aa_Signature :: string
  aa_SignerCert :: string

text \<open>The optional argument blocks; the alias blocks hold only an address, the interconnect ones a slot.\<close>

record Request =
  rq_Version :: Version
  rq_Verb :: string
  rq_EnsureAlias :: "string option"
  rq_RemoveAlias :: "string option"
  rq_ConfigureMesh :: "ConfigureMeshArgs option"
  rq_BindPort :: "BindPortArgs option"
  rq_EnsureInterconnectAlias :: "int option"
  rq_RemoveInterconnectAlias :: "int option"
  rq_ApplyUpdate :: "ApplyUpdateArgs option"

record MeshPeerStat =
  ms_PubKey :: string
  ms_LastHandshakeUnixNano :: int

record Response =
  rp_Version :: Version
  rp_OK :: bool
  rp_Error :: string
  rp_Reason :: string
  rp_FDPassed :: bool
  rp_BoundAddr :: string
  rp_InterconnectIP :: string
  rp_Phase :: string
  rp_Log :: string
  rp_MeshPeerStats :: "MeshPeerStat list"

definition UpdatePhaseVerifying :: string where
  "UpdatePhaseVerifying = ''Verifying''"

definition UpdatePhaseInstalling :: string where
  "UpdatePhaseInstalling = ''Installing''"

definition UpdatePhaseRestarting :: string where
  "UpdatePhaseRestarting = ''Restarting''"

definition UpdatePhaseDone :: string where
  "UpdatePhaseDone = ''Done''"

definition UpdatePhaseFailed :: string where
  "UpdatePhaseFailed = ''Failed''"

definition Terminal :: "string \<Rightarrow> bool" where
  "Terminal p \<longleftrightarrow> p = UpdatePhaseDone \<or> p = UpdatePhaseFailed"

definition VerbHello :: string where
  "VerbHello = ''Hello''"

definition VerbEnsureInterconnectAlias :: string where
  "VerbEnsureInterconnectAlias = ''EnsureInterconnectAlias''"

definition VerbRemoveInterconnectAlias :: string where
  "VerbRemoveInterconnectAlias = ''RemoveInterconnectAlias''"

definition VerbApplyUpdate :: string where
  "VerbApplyUpdate = ''ApplyUpdate''"

definition VerbMeshPeerStats :: string where
  "VerbMeshPeerStats = ''MeshPeerStats''"

definition DefaultMaxRequestBytes :: int where
  "DefaultMaxRequestBytes = 65536"

definition DefaultMaxPerConn :: nat where
  "DefaultMaxPerConn = 253"

text \<open>The zero values, and a request of this version with a verb and no argument.\<close>

definition zero_version :: Version where
  "zero_version = \<lparr>v_Major = 0, v_Minor = 0\<rparr>"

definition zero_response :: Response where
  "zero_response = \<lparr>rp_Version = zero_version, rp_OK = False, rp_Error = [], rp_Reason = [], rp_FDPassed = False,
     rp_BoundAddr = [], rp_InterconnectIP = [], rp_Phase = [], rp_Log = [], rp_MeshPeerStats = []\<rparr>"

definition request :: "string \<Rightarrow> Request" where
  "request verb = \<lparr>rq_Version = CurrentVersion, rq_Verb = verb, rq_EnsureAlias = None, rq_RemoveAlias = None,
     rq_ConfigureMesh = None, rq_BindPort = None, rq_EnsureInterconnectAlias = None,
     rq_RemoveInterconnectAlias = None, rq_ApplyUpdate = None\<rparr>"

section \<open>The client\<close>

text \<open>A connection: what it delivers, the outcomes of the writes to come, the frames written. The
  client's state is the version the helper was last seen to speak.\<close>

record conn =
  cn_in :: reader
  cn_writes :: "bool list"
  cn_out :: "string list"

datatype client_error =
    DialFailed | EncodeFailed | SendFailed | ReadResponse read_error | DecodeFailed | Rejected "sentinel option"
  | ErrHelperTooOld | NotInterconnectVerb | BadInterconnectIP | TooManyPeers
  | ErrNoFD | SocketInspectFailed | ErrFlushedSocket | CtxErr | UpdateRejected | UpdateFailure

definition WriteFrame :: "conn \<Rightarrow> string \<Rightarrow> bool \<times> conn" where
  "WriteFrame c payload =
     (case cn_writes c of
        True # ws \<Rightarrow> (True, c\<lparr>cn_writes := ws, cn_out := cn_out c @ [Frame payload]\<rparr>)
      | _ # ws \<Rightarrow> (False, c\<lparr>cn_writes := ws\<rparr>)
      | [] \<Rightarrow> (False, c))"

text \<open>\<open>enc\<close> and \<open>dec\<close>: \<^verbatim>\<open>json.Marshal\<close> and \<^verbatim>\<open>json.Unmarshal\<close>. The result is the response, the error and
  the version observed last.\<close>

definition client_exchange ::
  "(Request \<Rightarrow> string option) \<Rightarrow> (string \<Rightarrow> Response option) \<Rightarrow> Request \<Rightarrow> conn \<Rightarrow> Version option
     \<Rightarrow> (Response \<times> client_error option) \<times> conn \<times> Version option" where
  "client_exchange enc dec req c seen =
     (case enc req of
        None \<Rightarrow> ((zero_response, Some EncodeFailed), c, seen)
      | Some payload \<Rightarrow>
          (case WriteFrame c payload of
             (False, c1) \<Rightarrow> ((zero_response, Some SendFailed), c1, seen)
           | (True, c1) \<Rightarrow>
               (case ReadFrame (cn_in c1) DefaultMaxRequestBytes of
                  (Inl e, r) \<Rightarrow> ((zero_response, Some (ReadResponse e)), c1\<lparr>cn_in := r\<rparr>, seen)
                | (Inr raw, r) \<Rightarrow>
                    (case dec raw of
                       None \<Rightarrow> ((zero_response, Some DecodeFailed), c1\<lparr>cn_in := r\<rparr>, seen)
                     | Some resp \<Rightarrow>
                         ((resp, if rp_OK resp then None else Some (Rejected (errorOfReason (rp_Reason resp)))),
                          c1\<lparr>cn_in := r\<rparr>, Some (rp_Version resp))))))"

text \<open>\<open>open\<close> None: the connection could not be made.\<close>

definition roundTrip ::
  "(Request \<Rightarrow> string option) \<Rightarrow> (string \<Rightarrow> Response option) \<Rightarrow> conn option \<Rightarrow> Request \<Rightarrow> Version option
     \<Rightarrow> (Response \<times> client_error option) \<times> Version option" where
  "roundTrip enc dec opened req seen =
     (case opened of
        None \<Rightarrow> ((zero_response, Some DialFailed), seen)
      | Some c \<Rightarrow> (case client_exchange enc dec req c seen of (r, _, seen1) \<Rightarrow> (r, seen1)))"

definition interconnectRoundTrip ::
  "(Request \<Rightarrow> string option) \<Rightarrow> (string \<Rightarrow> Response option) \<Rightarrow> conn option \<Rightarrow> string \<Rightarrow> int \<Rightarrow> Version option
     \<Rightarrow> (client_error + addr) \<times> Version option" where
  "interconnectRoundTrip enc dec opened verb slot seen =
     (case opened of
        None \<Rightarrow> (Inl DialFailed, seen)
      | Some c \<Rightarrow>
          (case client_exchange enc dec (request VerbHello) c seen of
             ((hello, err), c1, seen1) \<Rightarrow>
               if \<not> SupportsInterconnect (rp_Version hello) then
                 (case err of
                    Some e \<Rightarrow> if rp_Version hello = zero_version then (Inl e, seen1) else (Inl ErrHelperTooOld, seen1)
                  | None \<Rightarrow> (Inl ErrHelperTooOld, seen1))
               else case err of
                 Some e \<Rightarrow> (Inl e, seen1)
               | None \<Rightarrow>
                   (let req = request verb;
                        req' = (if verb = VerbEnsureInterconnectAlias then Some (req\<lparr>rq_EnsureInterconnectAlias := Some slot\<rparr>)
                                else if verb = VerbRemoveInterconnectAlias then Some (req\<lparr>rq_RemoveInterconnectAlias := Some slot\<rparr>)
                                else None) in
                    case req' of
                      None \<Rightarrow> (Inl NotInterconnectVerb, seen1)
                    | Some rq \<Rightarrow>
                        (case client_exchange enc dec rq c1 seen1 of
                           ((_, Some e), _, seen2) \<Rightarrow> (Inl e, seen2)
                         | ((resp, None), _, seen2) \<Rightarrow>
                             if rp_InterconnectIP resp = [] then (Inr NoAddr, seen2)
                             else (case ParseAddr (rp_InterconnectIP resp) of
                                     None \<Rightarrow> (Inl BadInterconnectIP, seen2)
                                   | Some a \<Rightarrow> (Inr a, seen2))))))"

definition MeshPeerStats ::
  "(Request \<Rightarrow> string option) \<Rightarrow> (string \<Rightarrow> Response option) \<Rightarrow> conn option \<Rightarrow> Version option
     \<Rightarrow> (client_error + MeshPeerStat list) \<times> Version option" where
  "MeshPeerStats enc dec opened seen =
     (case roundTrip enc dec opened (request VerbMeshPeerStats) seen of
        ((resp, Some e), seen1) \<Rightarrow>
          if rp_Version resp \<noteq> zero_version \<and> \<not> SupportsMeshPeerStats (rp_Version resp)
          then (Inl ErrHelperTooOld, seen1) else (Inl e, seen1)
      | ((resp, None), seen1) \<Rightarrow>
          if DefaultMaxPerConn < length (rp_MeshPeerStats resp) then (Inl TooManyPeers, seen1)
          else (Inr (filter (\<lambda>st. \<not> (ms_PubKey st = [] \<or> ms_LastHandshakeUnixNano st \<le> 0)) (rp_MeshPeerStats resp)), seen1))"

subsection \<open>Socket hand-over\<close>

definition flushedSocketAttempts :: nat where
  "flushedSocketAttempts = 3"

text \<open>\<open>exchangeFD\<close> and \<open>inspect\<close> are the two function fields of the client: the descriptor the attempt got,
  and the receive buffer size of a descriptor. The second component lists the descriptors closed.\<close>

function socket_loop ::
  "(nat \<Rightarrow> client_error + int) \<Rightarrow> (int \<Rightarrow> int option) \<Rightarrow> nat \<Rightarrow> (client_error + int) \<times> int list" where
  "socket_loop exchangeFD inspect attempt =
     (case exchangeFD attempt of
        Inl e \<Rightarrow> (Inl e, [])
      | Inr fd \<Rightarrow>
          (case inspect fd of
             None \<Rightarrow> (Inl SocketInspectFailed, [fd])
           | Some rcvBuf \<Rightarrow>
               if rcvBuf \<noteq> 0 then (Inr fd, [])
               else if flushedSocketAttempts \<le> attempt then (Inl ErrFlushedSocket, [fd])
               else (case socket_loop exchangeFD inspect (attempt + 1) of (r, closed) \<Rightarrow> (r, fd # closed))))"
  by pat_completeness auto
termination by (relation "measure (\<lambda>(_, _, attempt). flushedSocketAttempts - attempt)") auto

declare socket_loop.simps [simp del]

text \<open>The source tests \<^verbatim>\<open>attempt == flushedSocketAttempts\<close> on a counter that starts at 1 and is never
  above it.\<close>

definition roundTripSocket ::
  "(nat \<Rightarrow> client_error + int) \<Rightarrow> (int \<Rightarrow> int option) \<Rightarrow> (client_error + int) \<times> int list" where
  "roundTripSocket exchangeFD inspect = socket_loop exchangeFD inspect 1"

subsection \<open>Updates\<close>

record UpdateResult =
  ur_Phase :: string
  ur_Log :: string

definition ackInstalling :: "(Request \<Rightarrow> string option) \<Rightarrow> conn \<Rightarrow> conn" where
  "ackInstalling enc c = (case enc (request VerbHello) of None \<Rightarrow> c | Some payload \<Rightarrow> snd (WriteFrame c payload))"

lemma cn_in_WriteFrame [simp]: "cn_in (snd (WriteFrame c p)) = cn_in c"
  by (auto simp: WriteFrame_def split: list.split bool.split)

lemma cn_in_ackInstalling [simp]: "cn_in (ackInstalling enc c) = cn_in c"
  by (simp add: ackInstalling_def split: option.split)

lemma ReadFull_Inr: "ReadFull n r = (Inr x, r') \<Longrightarrow>
    rd_bytes r = x @ rd_bytes r' \<and> length x = n \<and> rd_eof r' = rd_eof r"
  by (auto simp: ReadFull_def split: if_split_asm)

lemma ReadFrame_Inr:
  assumes "ReadFrame r mx = (Inr raw, r')"
  shows "\<exists>hdr. length hdr = 4 \<and> rd_bytes r = hdr @ raw @ rd_bytes r' \<and> raw \<noteq> [] \<and> int (length raw) \<le> mx"
proof -
  obtain hdr r1 where h: "ReadFull 4 r = (Inr hdr, r1)" "Uint32 hdr \<noteq> 0" "uint (Uint32 hdr) \<le> mx"
      "ReadFull (unat (Uint32 hdr)) r1 = (Inr raw, r')"
    using assms by (auto simp: ReadFrame_def Let_def not_less split: prod.split_asm sum.split_asm if_split_asm)
  have "unat (Uint32 hdr) \<noteq> 0" using h(2) by (simp add: unat_eq_zero)
  then show ?thesis
    using ReadFull_Inr [OF h(1)] ReadFull_Inr [OF h(4)] h(3) by (intro exI [of _ hdr]) auto
qed

lemma ReadFrame_shorter: "ReadFrame r mx = (Inr raw, r') \<Longrightarrow> length (rd_bytes r') < length (rd_bytes r)"
  using ReadFrame_Inr by fastforce

text \<open>The loop reads the phases; \<open>cx\<close>: the context has ended by the time a failure is looked at. The
  result carries the phases reported to \<^verbatim>\<open>progress\<close>.\<close>

function update_loop ::
  "(Request \<Rightarrow> string option) \<Rightarrow> (string \<Rightarrow> Response option) \<Rightarrow> bool \<Rightarrow> conn \<Rightarrow> Version option \<Rightarrow> string
     \<Rightarrow> (UpdateResult \<times> client_error option) \<times> string list \<times> conn \<times> Version option" where
  "update_loop enc dec cx c seen lst =
     (case ReadFrame (cn_in c) DefaultMaxRequestBytes of
        (Inl e, r) \<Rightarrow>
          let c1 = c\<lparr>cn_in := r\<rparr> in
          if lst = UpdatePhaseInstalling \<and> (e = EOF \<or> e = ErrUnexpectedEOF)
          then ((\<lparr>ur_Phase = UpdatePhaseRestarting, ur_Log = []\<rparr>, None), [UpdatePhaseRestarting], c1, seen)
          else if cx then ((\<lparr>ur_Phase = lst, ur_Log = []\<rparr>, Some CtxErr), [], c1, seen)
          else ((\<lparr>ur_Phase = lst, ur_Log = []\<rparr>, Some (ReadResponse e)), [], c1, seen)
      | (Inr raw, r) \<Rightarrow>
          let c1 = c\<lparr>cn_in := r\<rparr> in
          (case dec raw of
             None \<Rightarrow> ((\<lparr>ur_Phase = lst, ur_Log = []\<rparr>, Some DecodeFailed), [], c1, seen)
           | Some resp \<Rightarrow>
               if rp_Phase resp = []
               then ((\<lparr>ur_Phase = UpdatePhaseFailed, ur_Log = []\<rparr>, Some UpdateRejected), [], c1, Some (rp_Version resp))
               else let c2 = (if rp_Phase resp = UpdatePhaseInstalling then ackInstalling enc c1 else c1) in
                 if \<not> Terminal (rp_Phase resp)
                 then (case update_loop enc dec cx c2 (Some (rp_Version resp)) (rp_Phase resp) of
                         (res, prog, c3, seen3) \<Rightarrow> (res, rp_Phase resp # prog, c3, seen3))
                 else ((\<lparr>ur_Phase = rp_Phase resp, ur_Log = rp_Log resp\<rparr>,
                        if rp_Phase resp = UpdatePhaseFailed \<or> \<not> rp_OK resp then Some UpdateFailure else None),
                       [rp_Phase resp], c2, Some (rp_Version resp))))"
  by pat_completeness auto
termination
  by (relation "measure (\<lambda>(_, _, _, c, _, _). length (rd_bytes (cn_in c)))") (auto dest: ReadFrame_shorter [OF sym])

declare update_loop.simps [simp del]

definition ApplyUpdate ::
  "(Request \<Rightarrow> string option) \<Rightarrow> (string \<Rightarrow> Response option) \<Rightarrow> bool \<Rightarrow> conn option \<Rightarrow> ApplyUpdateArgs
     \<Rightarrow> Version option \<Rightarrow> (UpdateResult \<times> client_error option) \<times> string list \<times> Version option" where
  "ApplyUpdate enc dec cx opened args seen =
     (let none = \<lparr>ur_Phase = [], ur_Log = []\<rparr>; canceled = (\<lambda>e. if cx then CtxErr else e) in
      case opened of
        None \<Rightarrow> ((none, Some DialFailed), [], seen)
      | Some c \<Rightarrow>
          (case client_exchange enc dec (request VerbHello) c seen of
             ((hello, err), c1, seen1) \<Rightarrow>
               if \<not> SupportsApplyUpdate (rp_Version hello) then
                 (case err of
                    Some e \<Rightarrow> if rp_Version hello = zero_version then ((none, Some (canceled e)), [], seen1)
                              else ((none, Some ErrHelperTooOld), [], seen1)
                  | None \<Rightarrow> ((none, Some ErrHelperTooOld), [], seen1))
               else case err of
                 Some e \<Rightarrow> ((none, Some (canceled e)), [], seen1)
               | None \<Rightarrow>
                   (case enc ((request VerbApplyUpdate)\<lparr>rq_ApplyUpdate := Some args\<rparr>) of
                      None \<Rightarrow> ((none, Some EncodeFailed), [], seen1)
                    | Some payload \<Rightarrow>
                        (case WriteFrame c1 payload of
                           (False, _) \<Rightarrow> ((none, Some (canceled SendFailed)), [], seen1)
                         | (True, c2) \<Rightarrow>
                             (case update_loop enc dec cx c2 seen1 [] of
                                (res, prog, _, seen3) \<Rightarrow> (res, prog, seen3))))))"

section \<open>What the client relies on\<close>

lemma ReasonOf_errorOfReason: "errorOfReason (ReasonOf {e}) = Some e"
  by (cases e) (simp_all add: ReasonOf_def errorOfReason_def reasons_def)

lemma ReasonOf_in: "ReasonOf err \<noteq> [] \<Longrightarrow> \<exists>e \<in> err. errorOfReason (ReasonOf err) = Some e"
  by (auto simp: ReasonOf_def errorOfReason_def reasons_def split: if_split_asm)

lemma socket_loop_handover:
  assumes "socket_loop exchangeFD inspect attempt = (r, closed)" and "attempt \<le> flushedSocketAttempts"
  shows "length closed \<le> flushedSocketAttempts + 1 - attempt
    \<and> (\<forall>fd. r = Inr fd \<longrightarrow> (\<exists>b. inspect fd = Some b \<and> b \<noteq> 0)
         \<and> (\<forall>k < length closed. exchangeFD (attempt + k) = Inr (closed ! k) \<and> inspect (closed ! k) = Some 0)
         \<and> exchangeFD (attempt + length closed) = Inr fd)"
  using assms
proof (induction exchangeFD inspect attempt arbitrary: closed rule: socket_loop.induct)
  case (1 exchangeFD inspect attempt)
  show ?case
  proof (cases "exchangeFD attempt")
    case (Inl e)
    then show ?thesis using "1.prems" by (subst (asm) socket_loop.simps) auto
  next
    case fd: (Inr fd)
    show ?thesis
    proof (cases "inspect fd = Some 0 \<and> attempt < flushedSocketAttempts")
      case True
      then obtain closed' where c: "socket_loop exchangeFD inspect (attempt + 1) = (r, closed')" "closed = fd # closed'"
        using "1.prems"(1) fd by (subst (asm) socket_loop.simps) (auto split: prod.split_asm)
      have "length closed' \<le> flushedSocketAttempts + 1 - (attempt + 1)
        \<and> (\<forall>fd. r = Inr fd \<longrightarrow> (\<exists>b. inspect fd = Some b \<and> b \<noteq> 0)
           \<and> (\<forall>k < length closed'. exchangeFD (attempt + 1 + k) = Inr (closed' ! k) \<and> inspect (closed' ! k) = Some 0)
           \<and> exchangeFD (attempt + 1 + length closed') = Inr fd)"
        using "1.IH" [OF fd _ _ _ c(1)] True by auto
      then show ?thesis using True fd unfolding c(2) by (auto simp: nth_Cons' less_Suc_eq_0_disj)
    next
      case False
      then show ?thesis
        using "1.prems" fd by (subst (asm) socket_loop.simps) (auto split: option.split_asm if_split_asm)
    qed
  qed
qed

lemma update_loop_outcome:
  assumes "update_loop enc dec cx c seen lst = ((res, None), prog, c', seen')"
  shows "prog \<noteq> [] \<and> last prog = ur_Phase res \<and> (\<forall>p \<in> set (butlast prog). \<not> Terminal p)
    \<and> (ur_Phase res = UpdatePhaseDone
       \<or> ur_Phase res = UpdatePhaseRestarting \<and> last (lst # butlast prog) = UpdatePhaseInstalling)"
  using assms
proof (induction enc dec cx c seen lst arbitrary: prog rule: update_loop.induct)
  case (1 enc dec cx c seen lst)
  obtain rr r where f: "ReadFrame (cn_in c) DefaultMaxRequestBytes = (rr, r)"
    by (cases "ReadFrame (cn_in c) DefaultMaxRequestBytes")
  show ?case
  proof (cases rr)
    case (Inl e)
    then show ?thesis using "1.prems" f by (subst (asm) update_loop.simps) (auto simp: Let_def split: if_split_asm)
  next
    case (Inr raw)
    then obtain resp where resp: "dec raw = Some resp" "rp_Phase resp \<noteq> []"
      using "1.prems" f
      by (subst (asm) update_loop.simps) (auto simp: Let_def split: option.split_asm if_split_asm)
    define c2 where "c2 = (if rp_Phase resp = UpdatePhaseInstalling then ackInstalling enc (c\<lparr>cn_in := r\<rparr>) else c\<lparr>cn_in := r\<rparr>)"
    show ?thesis
    proof (cases "Terminal (rp_Phase resp)")
      case True
      then show ?thesis
        using "1.prems" f Inr resp
        by (subst (asm) update_loop.simps) (auto simp: Let_def Terminal_def split: if_split_asm)
    next
      case False
      then obtain prog' where p: "update_loop enc dec cx c2 (Some (rp_Version resp)) (rp_Phase resp) = ((res, None), prog', c', seen')"
          "prog = rp_Phase resp # prog'"
        using "1.prems" f Inr resp
        by (subst (asm) update_loop.simps) (auto simp: Let_def c2_def split: prod.split_asm if_split_asm)
      from "1.IH" [OF f [symmetric] Inr refl resp(1) resp(2) c2_def False p(1)] False p(2)
      show ?thesis by auto
    qed
  qed
qed

lemma ReadFrame_Frame:
  assumes "length payload < 2 ^ 32"
  shows "ReadFrame \<lparr>rd_bytes = Frame payload @ rest, rd_eof = b\<rparr> mx =
      (if payload = [] then (Inl ErrEmptyFrame, \<lparr>rd_bytes = rest, rd_eof = b\<rparr>)
       else if mx < int (length payload) then (Inl ErrFrameTooLarge, \<lparr>rd_bytes = payload @ rest, rd_eof = b\<rparr>)
       else (Inr payload, \<lparr>rd_bytes = rest, rd_eof = b\<rparr>))"
proof -
  let ?n = "word_of_nat (length payload) :: u32"
  have u: "unat ?n = length payload" using assms by (simp add: unsigned_of_nat take_bit_nat_eq_self_iff)
  then have i: "uint ?n = int (length payload)" unfolding uint_nat by simp
  have z: "?n = 0 \<longleftrightarrow> payload = []" using u by (metis length_0_conv unat_eq_zero)
  have h: "ReadFull 4 \<lparr>rd_bytes = Frame payload @ rest, rd_eof = b\<rparr>
      = (Inr (PutUint32 ?n), \<lparr>rd_bytes = payload @ rest, rd_eof = b\<rparr>)"
    by (simp add: ReadFull_def Frame_def)
  have w: "Uint32 (PutUint32 ?n) = ?n" using Uint32_PutUint32 [of ?n "[]"] by simp
  have "ReadFrame \<lparr>rd_bytes = Frame payload @ rest, rd_eof = b\<rparr> mx =
      (if payload = [] then (Inl ErrEmptyFrame, \<lparr>rd_bytes = payload @ rest, rd_eof = b\<rparr>)
       else if mx < int (length payload) then (Inl ErrFrameTooLarge, \<lparr>rd_bytes = payload @ rest, rd_eof = b\<rparr>)
       else ReadFull (length payload) \<lparr>rd_bytes = payload @ rest, rd_eof = b\<rparr>)"
    unfolding ReadFrame_def h Let_def prod.case sum.case w z i u ..
  moreover have "ReadFull (length payload) \<lparr>rd_bytes = payload @ rest, rd_eof = b\<rparr>
      = (Inr payload, \<lparr>rd_bytes = rest, rd_eof = b\<rparr>)"
    by (simp add: ReadFull_def)
  ultimately show ?thesis by (cases "payload = []") simp_all
qed

lemma ParseFrame_Frame:
  assumes "payload \<noteq> []" and "length payload < 2 ^ 32 - 4"
  shows "ParseFrame (Frame payload @ rest) = Inr payload"
proof -
  let ?n = "word_of_nat (length payload) :: u32"
  have u: "unat ?n = length payload" using assms by (simp add: unsigned_of_nat take_bit_nat_eq_self_iff)
  moreover have "?n \<noteq> 0" using u assms(1) by (metis length_0_conv unat_eq_zero)
  moreover have "Uint32 (PutUint32 ?n) = ?n" using Uint32_PutUint32 [of ?n "[]"] by simp
  moreover have "unat (4 + ?n) = 4 + length payload" using assms(2) u by (simp add: unat_plus_if')
  ultimately show ?thesis by (simp add: ParseFrame_def Frame_def Let_def)
qed

section \<open>Properties\<close>

text \<open>C31. Framing round trip: whatever follows on the stream, reading a frame gives back its payload and
  leaves the rest, for every payload that is not empty, within the reader's bound and below 4 GiB;
  the one-message parser agrees (up to its 32-bit slice bound); an empty or too large payload is
  refused.\<close>

theorem frame_roundtrip:
  assumes "length payload < 2 ^ 32"
  shows "ReadFrame \<lparr>rd_bytes = Frame payload @ rest, rd_eof = b\<rparr> mx =
      (if payload = [] then (Inl ErrEmptyFrame, \<lparr>rd_bytes = rest, rd_eof = b\<rparr>)
       else if mx < int (length payload) then (Inl ErrFrameTooLarge, \<lparr>rd_bytes = payload @ rest, rd_eof = b\<rparr>)
       else (Inr payload, \<lparr>rd_bytes = rest, rd_eof = b\<rparr>))
    \<and> (payload \<noteq> [] \<and> length payload < 2 ^ 32 - 4 \<longrightarrow> ParseFrame (Frame payload @ rest) = Inr payload)"
  using ReadFrame_Frame [OF assms] ParseFrame_Frame by blast

theorem frame_roundtrip_witness:
  "ReadFrame \<lparr>rd_bytes = Frame ''abc'' @ ''de'', rd_eof = True\<rparr> 10 = (Inr ''abc'', \<lparr>rd_bytes = ''de'', rd_eof = True\<rparr>)
   \<and> ParseFrame (Frame ''abc'' @ ''de'') = Inr ''abc''"
  using frame_roundtrip [of "''abc''" "''de''" True 10] by simp

text \<open>C40. An update the client reports as successful ended in one of two ways: the last phase is Done,
  or it is Restarting and the connection ended right after the phase Installing; no earlier phase
  was terminal and the result is the last phase reported.\<close>

theorem client_update_outcome:
  assumes "ApplyUpdate enc dec cx opened args seen = ((res, None), prog, seen')"
  shows "prog \<noteq> [] \<and> last prog = ur_Phase res \<and> (\<forall>p \<in> set (butlast prog). \<not> Terminal p)
    \<and> (ur_Phase res = UpdatePhaseDone
       \<or> ur_Phase res = UpdatePhaseRestarting \<and> butlast prog \<noteq> [] \<and> last (butlast prog) = UpdatePhaseInstalling)"
proof -
  obtain c2 seen1 c3 where "update_loop enc dec cx c2 seen1 [] = ((res, None), prog, c3, seen')"
    using assms by (auto simp: ApplyUpdate_def Let_def
        split: option.split_asm prod.split_asm if_split_asm bool.split_asm)
  from update_loop_outcome [OF this] show ?thesis
    by (cases "butlast prog") (auto simp: UpdatePhaseInstalling_def)
qed

text \<open>A helper that answers Hello, then Installing, and closes the connection.\<close>

definition demo_dec :: "string \<Rightarrow> Response option" where
  "demo_dec raw = Some (zero_response\<lparr>rp_OK := True, rp_Version := CurrentVersion,
     rp_Phase := (if raw = ''h'' then [] else UpdatePhaseInstalling)\<rparr>)"

definition demo_conn :: conn where
  "demo_conn = \<lparr>cn_in = \<lparr>rd_bytes = Frame ''h'' @ Frame ''i'', rd_eof = True\<rparr>, cn_writes = [True, True, True], cn_out = []\<rparr>"

theorem client_update_outcome_witness:
  "\<exists>res prog seen. ApplyUpdate (\<lambda>_. Some ''q'') demo_dec False (Some demo_conn)
      \<lparr>aa_ArchivePath = [], aa_Payload = [], aa_Signature = [], aa_SignerCert = []\<rparr> None = ((res, None), prog, seen)
    \<and> last prog = ur_Phase res \<and> ur_Phase res = UpdatePhaseRestarting"
proof -
  let ?r = "ApplyUpdate (\<lambda>_. Some ''q'') demo_dec False (Some demo_conn)
      \<lparr>aa_ArchivePath = [], aa_Payload = [], aa_Signature = [], aa_SignerCert = []\<rparr> None"
  have e: "snd (fst ?r) = None" and p: "ur_Phase (fst (fst ?r)) = UpdatePhaseRestarting" by code_simp+
  obtain res prog seen where r: "?r = ((res, None), prog, seen)"
    using e by (metis prod.collapse)
  from client_update_outcome [OF r] r p show ?thesis by auto
qed

end
