(* ===== verification/GoEncoding.thy ===== *)
theory GoEncoding
  imports Netip
begin

text \<open>
  Texts of the Go standard library: \<^verbatim>\<open>encoding/hex\<close>, \<^verbatim>\<open>encoding/base64\<close> (the standard alphabet with
  padding; the decoder skips line ends and does not check the unused trailing bits), and the printing
  of \<^verbatim>\<open>netip\<close> values.
\<close>

section \<open>Hexadecimal\<close>

definition hexval :: "char \<Rightarrow> nat option" where
  "hexval c =
     (if is_digit c then Some (ord c - 48)
      else if 97 \<le> ord c \<and> ord c \<le> 102 then Some (ord c - 87)
      else if 65 \<le> ord c \<and> ord c \<le> 70 then Some (ord c - 55)
      else None)"

definition hexchar :: "nat \<Rightarrow> char" where
  "hexchar n = (if n < 10 then char_of (48 + n) else char_of (87 + n))"

fun hex_decode :: "string \<Rightarrow> string option" where
  "hex_decode [] = Some []"
| "hex_decode [c] = None"
| "hex_decode (a # b # s) =
     (case (hexval a, hexval b, hex_decode s) of
        (Some x, Some y, Some t) \<Rightarrow> Some (char_of (16 * x + y) # t)
      | _ \<Rightarrow> None)"

definition hex_encode :: "string \<Rightarrow> string" where
  "hex_encode s = concat (map (\<lambda>c. [hexchar (ord c div 16), hexchar (ord c mod 16)]) s)"

lemma hexval_hexchar: "n < 16 \<Longrightarrow> hexval (hexchar n) = Some n"
  by (auto simp: hexval_def hexchar_def is_digit_def)

lemma hex_decode_encode [simp]: "hex_decode (hex_encode s) = Some s"
proof (induction s)
  case (Cons c s)
  have "ord c div 16 < 16" using ord_less_256 [of c] by linarith
  then have v: "hexval (hexchar (ord c div 16)) = Some (ord c div 16)" "hexval (hexchar (ord c mod 16)) = Some (ord c mod 16)"
    by (simp_all add: hexval_hexchar)
  have "char_of (16 * (ord c div 16) + ord c mod 16) = c" by simp
  then show ?case using Cons by (simp add: hex_encode_def v)
qed (simp add: hex_encode_def)

lemma length_hex_encode [simp]: "length (hex_encode s) = 2 * length s"
  by (induction s) (simp_all add: hex_encode_def)

lemma hex_encode_inj: "hex_encode s = hex_encode t \<Longrightarrow> s = t"
  by (metis hex_decode_encode option.inject)

section \<open>Base64\<close>

definition b64char :: "nat \<Rightarrow> char" where
  "b64char n =
     (if n < 26 then char_of (65 + n) else if n < 52 then char_of (71 + n) else if n < 62 then char_of (n - 4)
      else if n = 62 then CHR ''+'' else CHR ''/'')"

definition b64val :: "char \<Rightarrow> nat option" where
  "b64val c =
     (if is_upper c then Some (ord c - 65) else if is_lower c then Some (ord c - 71)
      else if is_digit c then Some (ord c + 4)
      else if c = CHR ''+'' then Some 62 else if c = CHR ''/'' then Some 63 else None)"

fun b64_quads :: "string \<Rightarrow> string option" where
  "b64_quads [] = Some []"
| "b64_quads (a # b # c # d # s) =
     (case (b64val a, b64val b) of
        (Some x, Some y) \<Rightarrow>
          if d = CHR ''='' then
            (if s \<noteq> [] then None
             else if c = CHR ''='' then Some [char_of (4 * x + y div 16)]
             else map_option (\<lambda>z. [char_of (4 * x + y div 16), char_of (16 * y + z div 4)]) (b64val c))
          else (case (b64val c, b64val d, b64_quads s) of
                  (Some z, Some w, Some t) \<Rightarrow>
                    Some (char_of (4 * x + y div 16) # char_of (16 * y + z div 4) # char_of (64 * z + w) # t)
                | _ \<Rightarrow> None)
      | _ \<Rightarrow> None)"
| "b64_quads _ = None"

definition b64_decode :: "string \<Rightarrow> string option" where
  "b64_decode s = b64_quads (filter (\<lambda>c. c \<noteq> CHR 0x0A \<and> c \<noteq> CHR 0x0D) s)"

fun b64_encode :: "string \<Rightarrow> string" where
  "b64_encode [] = []"
| "b64_encode [a] = [b64char (ord a div 4), b64char (ord a mod 4 * 16), CHR ''='', CHR ''='']"
| "b64_encode [a, b] =
     [b64char (ord a div 4), b64char (ord a mod 4 * 16 + ord b div 16), b64char (ord b mod 16 * 4), CHR ''='']"
| "b64_encode (a # b # c # s) =
     b64char (ord a div 4) # b64char (ord a mod 4 * 16 + ord b div 16)
     # b64char (ord b mod 16 * 4 + ord c div 64) # b64char (ord c mod 64) # b64_encode s"

lemma b64val_b64char: "n < 64 \<Longrightarrow> b64val (b64char n) = Some n"
  by (auto simp: b64val_def b64char_def is_upper_def is_lower_def is_digit_def)

lemma b64char_plain: "n < 64 \<Longrightarrow> b64char n \<noteq> CHR ''='' \<and> b64char n \<noteq> CHR 0x0A \<and> b64char n \<noteq> CHR 0x0D"
proof -
  assume "n < 64"
  then have "b64val (b64char n) = Some n" by (rule b64val_b64char)
  moreover have "b64val CHR ''='' = None" "b64val (CHR 0x0A) = None" "b64val (CHR 0x0D) = None" by code_simp+
  ultimately show ?thesis by (metis option.distinct(1))
qed

lemma byte_parts:
  fixes a b c :: char
  shows "ord a div 4 < 64" "ord a mod 4 * 16 + ord b div 16 < 64" "ord b mod 16 * 4 + ord c div 64 < 64"
    "ord a mod 4 * 16 < 64" "ord b mod 16 * 4 < 64" "ord c mod 64 < 64"
  using ord_less_256 [of a] ord_less_256 [of b] ord_less_256 [of c] by (simp_all, linarith+)

lemma char_of_shift: "char_of (256 * k + ord b) = b"
proof -
  have "ord (char_of (256 * k + ord b)) = ord b" unfolding of_char_of by simp
  then show ?thesis by (simp only: of_char_eq_iff)
qed

lemma byte_joins:
  fixes a b c :: char
  shows "char_of (4 * (ord a div 4) + (ord a mod 4 * 16 + ord b div 16) div 16) = a"
    "char_of (16 * (ord a mod 4 * 16 + ord b div 16) + (ord b mod 16 * 4 + ord c div 64) div 4) = b"
    "char_of (64 * (ord b mod 16 * 4 + ord c div 64) + ord c mod 64) = c"
proof -
  have d: "ord b div 16 < 16" "ord c div 64 < 4" using ord_less_256 [of b] ord_less_256 [of c] by linarith+
  have "4 * (ord a div 4) + (ord a mod 4 * 16 + ord b div 16) div 16 = ord a" using d(1) by simp
  then show "char_of (4 * (ord a div 4) + (ord a mod 4 * 16 + ord b div 16) div 16) = a" by simp
  have "16 * (ord a mod 4 * 16 + ord b div 16) + (ord b mod 16 * 4 + ord c div 64) div 4 = 256 * (ord a mod 4) + ord b"
    using d(2) by simp
  then show "char_of (16 * (ord a mod 4 * 16 + ord b div 16) + (ord b mod 16 * 4 + ord c div 64) div 4) = b"
    by (simp only: char_of_shift)
  have "64 * (ord b mod 16 * 4 + ord c div 64) + ord c mod 64 = 256 * (ord b mod 16) + ord c" by simp
  then show "char_of (64 * (ord b mod 16 * 4 + ord c div 64) + ord c mod 64) = c" by (simp only: char_of_shift)
qed

lemma b64_quads_encode: "b64_quads (b64_encode s) = Some s"
proof (induction s rule: b64_encode.induct)
  case (2 a)
  show ?case using byte_joins(1) [of a "CHR 0x00"] by (simp add: b64val_b64char byte_parts)
next
  case (3 a b)
  show ?case
    using byte_joins(1) [of a b] byte_joins(2) [of a b "CHR 0x00"] b64char_plain [of "ord b mod 16 * 4"]
    by (simp add: b64val_b64char byte_parts)
next
  case (4 a b c s)
  have "b64char (ord c mod 64) \<noteq> CHR ''=''" by (simp add: b64char_plain)
  then show ?case
    by (simp only: b64_encode.simps b64_quads.simps b64val_b64char byte_parts byte_joins "4.IH" prod.case option.case if_False)
qed simp

lemma b64_decode_encode [simp]: "b64_decode (b64_encode s) = Some s"
proof -
  have "filter (\<lambda>c. c \<noteq> CHR 0x0A \<and> c \<noteq> CHR 0x0D) (b64_encode s) = b64_encode s"
    by (induction s rule: b64_encode.induct) (simp_all add: b64char_plain byte_parts)
  then show ?thesis by (simp add: b64_decode_def b64_quads_encode)
qed

section \<open>Printing addresses and prefixes\<close>

text \<open>\<^verbatim>\<open>appendHex\<close>: at most four digits, no leading zero.\<close>

definition hex16 :: "nat \<Rightarrow> string" where
  "hex16 n =
     (if 0x1000 \<le> n then [hexchar (n div 0x1000)] else [])
     @ (if 0x100 \<le> n then [hexchar (n div 0x100 mod 16)] else [])
     @ (if 0x10 \<le> n then [hexchar (n div 0x10 mod 16)] else [])
     @ [hexchar (n mod 16)]"

definition groups6 :: "128 word \<Rightarrow> nat list" where
  "groups6 w = map (\<lambda>k. unat (take_bit 16 (drop_bit (16 * k) w))) [7, 6, 5, 4, 3, 2, 1, 0]"

definition zero_run :: "nat list \<Rightarrow> nat \<times> nat" where
  "zero_run gs =
     foldl (\<lambda>(s, e) i. let l = length (takeWhile (\<lambda>g. g = 0) (drop i gs)) in
              if 2 \<le> l \<and> e - s < l then (i, i + l) else (s, e)) (255, 255) [0, 1, 2, 3, 4, 5, 6, 7]"

definition string6 :: "128 word \<Rightarrow> string" where
  "string6 w =
     (let gs = map hex16 (groups6 w) in
      case zero_run (groups6 w) of
        (s, e) \<Rightarrow> if s = 255 then Join gs '':'' else Join (take s gs) '':'' @ ''::'' @ Join (drop e gs) '':'')"

fun addr_String :: "addr \<Rightarrow> string" where
  "addr_String NoAddr = ''invalid IP''"
| "addr_String (IPv4 w) = string4 w"
| "addr_String (IPv6 w z) =
     (if Is4In6 (IPv6 w z) then ''::ffff:'' @ string4 (ucast w) else string6 w)
     @ (if z = [] then [] else ''%'' @ z)"

definition prefix_String :: "prefix \<Rightarrow> string" where
  "prefix_String p =
     (if \<not> prefix_IsValid p then ''invalid Prefix''
      else addr_String (p_ip p) @ ''/'' @ Itoa (nat (Bits p)))"

definition addrport_String :: "addrport \<Rightarrow> string" where
  "addrport_String ap =
     (case ap_addr ap of
        NoAddr \<Rightarrow> ''invalid AddrPort''
      | IPv4 w \<Rightarrow> string4 w @ '':'' @ Itoa (unat (ap_port ap))
      | a \<Rightarrow> ''['' @ addr_String a @ '']:'' @ Itoa (unat (ap_port ap)))"

lemma ParseAddr_addr_String: "Is4 a \<Longrightarrow> ParseAddr (addr_String a) = Some a"
  by (auto simp: Is4_iff)

end
