(* ===== verification/Update.thy ===== *)
theory Update
  imports Codesign Wire GoEncoding
begin

text \<open>
  The ApplyUpdate verb (\<^verbatim>\<open>pkg/netd/update.go\<close>): the checks before the installer runs, in the order of
  \<^verbatim>\<open>handleApplyUpdate\<close>, and the resources it takes and gives back. X.509, ECDSA, SHA-256, PEM and JSON
  decoding, the file system, the clock and the running of programs are the fields of an environment;
  the handler returns its response, its effects in order and the state of the server. Logging and
  the texts of errors are left out: an error is a constructor per place that makes one.
\<close>

section \<open>Errors\<close>

datatype ca_error = CaNoPath | CaOpen | CaRead | CaTooLarge | CaParse | CaNotCA | CaEmpty

datatype updater_state = PlistUnknown | PlistNotRegular | PlistNoOwner | PlistForeign | PlistInstalled

datatype update_error =
    PeerNone | PeerUnreadable | PeerUnauthorized
  | UpdaterInstalled updater_state | MissingArgs | UpdateBusy
  | NoClusterCA "ca_error option" | SignerNotPEM | SignerManyBlocks | SignerUnparsable
  | SignerNotChained | SignerNoCodeSigning | SignerSubject | SignerNotECDSA | PayloadSignature
  | PayloadJSON | PayloadMore | PayloadVersion | PayloadSHA256 | PayloadPolicy
  | ArchivePath | ArchiveOpen | ArchiveStat | ArchiveNotRegular | ArchiveOwner | ArchiveSize
  | RootCreate | OwnFailed | RootInspect | RootNotDir | RootMode
  | LockOpen | LockHeld | LockFailed
  | CopyCreate | CopyUnlink | CopyRead | CopySize | CopyDigest | CopySeek
  | DirCreate | ExtractRefused extract_error | SigningRefused signing_error
  | ResolveInstalled | OutsideInstallTree | DowngradeRefused downgrade
  | LogCreate | HelperStopping | HelperStopped | InstallerFailed

section \<open>The payload\<close>

text \<open>The policy is a string; its named values \<^verbatim>\<open>UpdateSignatureIfSigned\<close> and
  \<^verbatim>\<open>UpdateSignatureRequired\<close> belong to \<^verbatim>\<open>k3sm.io/apis\<close> and are arguments.\<close>

record updatePayload =
  up_Version :: string
  up_URL :: string
  up_SHA256 :: string
  up_Signature :: string
  up_AllowDowngrade :: bool

definition requireTeam :: "string \<Rightarrow> updatePayload \<Rightarrow> bool" where
  "requireTeam required p \<longleftrightarrow> up_Signature p = required"

definition policyName :: "string \<Rightarrow> updatePayload \<Rightarrow> string" where
  "policyName ifSigned p = (if up_Signature p = [] then ifSigned else up_Signature p)"

definition maxVersionLen :: nat where
  "maxVersionLen = 128"

text \<open>\<open>dj\<close>: the JSON decoder that refuses unknown fields, with whether more input follows the value.\<close>

definition parseUpdatePayload ::
  "(string \<Rightarrow> string) \<Rightarrow> (string \<Rightarrow> (updatePayload \<times> bool) option) \<Rightarrow> string \<Rightarrow> string \<Rightarrow> string
     \<Rightarrow> update_error + updatePayload" where
  "parseUpdatePayload ul dj ifSigned required raw =
     (case dj raw of
        None \<Rightarrow> Inl PayloadJSON
      | Some (p, rest) \<Rightarrow>
          if rest then Inl PayloadMore
          else if maxVersionLen < length (up_Version p) \<or> \<not> releaseTagGrammar (up_Version p) then Inl PayloadVersion
          else if length (up_SHA256 p) \<noteq> 32 * 2 \<or> ToLower ul (up_SHA256 p) \<noteq> up_SHA256 p then Inl PayloadSHA256
          else if hex_decode (up_SHA256 p) = None then Inl PayloadSHA256
          else if up_Signature p \<in> {[], ifSigned, required} then Inr p
          else Inl PayloadPolicy)"

section \<open>The signer and the cluster CA\<close>

text \<open>The fields of an \<^verbatim>\<open>x509.Certificate\<close> the code reads; \<open>xc_key\<close> is the public key when it is ECDSA.\<close>

record x509cert =
  xc_BasicConstraintsValid :: bool
  xc_IsCA :: bool
  xc_CodeSigning :: bool
  xc_CommonName :: string
  xc_Organization :: "string list"
  xc_key :: "string option"
  xc_Raw :: string

text \<open>\<open>pem\<close>: the blocks the successive calls of \<^verbatim>\<open>pem.Decode\<close> find, each with its type, its bytes and the
  input left after it.\<close>

type_synonym pem_blocks = "(string \<times> string \<times> string) list"

definition parseSignerCert ::
  "(string \<Rightarrow> pem_blocks) \<Rightarrow> (string \<Rightarrow> x509cert option) \<Rightarrow> string \<Rightarrow> update_error + x509cert" where
  "parseSignerCert pem parseCertificate raw =
     (case pem raw of
        [] \<Rightarrow> Inl SignerNotPEM
      | (ty, bytes, rest) # _ \<Rightarrow>
          if ty \<noteq> ''CERTIFICATE'' then Inl SignerNotPEM
          else if TrimSpace rest \<noteq> [] then Inl SignerManyBlocks
          else (case parseCertificate bytes of None \<Rightarrow> Inl SignerUnparsable | Some c \<Rightarrow> Inr c))"

fun ca_loop :: "(string \<Rightarrow> x509cert option) \<Rightarrow> pem_blocks \<Rightarrow> x509cert list \<Rightarrow> ca_error + x509cert list" where
  "ca_loop parseCertificate [] pool = (if pool = [] then Inl CaEmpty else Inr pool)"
| "ca_loop parseCertificate ((ty, bytes, rest) # bs) pool =
     (if ty \<noteq> ''CERTIFICATE'' then ca_loop parseCertificate bs pool
      else case parseCertificate bytes of
        None \<Rightarrow> Inl CaParse
      | Some c \<Rightarrow>
          if \<not> xc_BasicConstraintsValid c \<or> \<not> xc_IsCA c then Inl CaNotCA
          else ca_loop parseCertificate bs (pool @ [c]))"

definition maxClusterCABytes :: int where
  "maxClusterCABytes = 1048576"

text \<open>The file: None when it does not open, \<open>Some None\<close> when reading fails.\<close>

definition loadClusterCA ::
  "(string \<Rightarrow> pem_blocks) \<Rightarrow> (string \<Rightarrow> x509cert option) \<Rightarrow> (string \<Rightarrow> string option option) \<Rightarrow> string
     \<Rightarrow> ca_error + x509cert list" where
  "loadClusterCA pem parseCertificate readFile path =
     (if path = [] then Inl CaNoPath
      else case readFile path of
        None \<Rightarrow> Inl CaOpen
      | Some None \<Rightarrow> Inl CaRead
      | Some (Some raw) \<Rightarrow>
          if maxClusterCABytes < int (length raw) then Inl CaTooLarge
          else ca_loop parseCertificate (pem raw) [])"

text \<open>The fields of \<^verbatim>\<open>Server\<close> the verb uses: whether \<^verbatim>\<open>updateMu\<close> is held, the pool and why it is missing.\<close>

record updateServer =
  us_updateMu :: bool
  us_clusterCA :: "x509cert list option"
  us_clusterCAErr :: "ca_error option"
  us_ClusterCAPath :: string
  us_ServiceUID :: u32
  us_stagingRoot :: string
  us_installedK3sm :: string
  us_updaterPlistOwner :: u32

text \<open>The environment: the peer credential (\<open>None\<close> without a connection, \<open>Some None\<close> when it cannot be
  read), the phase and acknowledgement channels, the cryptography, the host and the programs run.\<close>

datatype plist_stat = PlistAbsent | PlistError | PlistPresent bool "u32 option"

record archiveStat =
  as_regular :: bool
  as_Uid :: u32
  as_Size :: int

datatype root_stat = RootAbsent | RootError | RootIs bool "u32 option" u32

datatype mkdir_result = MkdirOK | MkdirExists | MkdirError

datatype lock_result = LockOK | LockNoOpen | LockWouldBlock | LockError

record update_env =
  ue_conn :: "u32 option option"
  ue_emit :: bool
  ue_awaitAck :: bool
  ue_plist :: plist_stat
  ue_ToLower :: "string \<Rightarrow> string"
  ue_json :: "string \<Rightarrow> (updatePayload \<times> bool) option"
  ue_IfSigned :: string
  ue_Required :: string
  ue_pem :: "string \<Rightarrow> pem_blocks"
  ue_ParseCertificate :: "string \<Rightarrow> x509cert option"
  ue_Verify :: "x509cert list \<Rightarrow> int \<Rightarrow> x509cert \<Rightarrow> bool"
  ue_now :: int
  ue_sha256 :: "string \<Rightarrow> string"
  ue_VerifyASN1 :: "string \<Rightarrow> string \<Rightarrow> string \<Rightarrow> bool"
  ue_readFile :: "string \<Rightarrow> string option option"
  ue_archive :: "archiveStat option option"
  ue_euid :: u32
  ue_root :: root_stat
  ue_mkdir :: mkdir_result
  ue_own :: "string \<Rightarrow> bool"
  ue_root2 :: root_stat
  ue_lock :: lock_result
  ue_ReadDir :: "(string \<times> fmode) list option"
  ue_CreateTemp :: bool
  ue_unlink :: bool
  ue_content :: "string option"
  ue_seek :: bool
  ue_MkdirTemp :: "string option"
  ue_untar :: "string \<Rightarrow> bool \<times> tar_item list"
  ue_io :: "string list \<Rightarrow> bool"
  ue_walk :: "staging \<Rightarrow> walkEntry list option"
  ue_EvalSymlinks :: "string \<Rightarrow> string option"
  ue_LstatRegular :: "string \<Rightarrow> bool option"
  ue_codesign :: "string list \<Rightarrow> run_result"
  ue_k3smVersion :: "string \<Rightarrow> run_result"
  ue_log :: bool
  ue_ctxErr :: bool
  ue_ctxDone :: bool
  ue_installer :: bool
  ue_logText :: "string option"

definition UpdateSignerCommonName :: string where
  "UpdateSignerCommonName = ''k3sm:update-signer''"

definition UpdateSignerOrganization :: string where
  "UpdateSignerOrganization = ''k3sm:update-signers''"

definition loadClusterCALocked :: "update_env \<Rightarrow> updateServer \<Rightarrow> updateServer" where
  "loadClusterCALocked e s =
     (if us_clusterCA s \<noteq> None \<or> us_ClusterCAPath s = [] then s
      else case loadClusterCA (ue_pem e) (ue_ParseCertificate e) (ue_readFile e) (us_ClusterCAPath s) of
        Inl err \<Rightarrow> s\<lparr>us_clusterCAErr := Some err\<rparr>
      | Inr pool \<Rightarrow> s\<lparr>us_clusterCA := Some pool, us_clusterCAErr := None\<rparr>)"

definition verify_signed :: "update_env \<Rightarrow> x509cert list \<Rightarrow> ApplyUpdateArgs \<Rightarrow> update_error + updatePayload" where
  "verify_signed e pool a =
     (case parseSignerCert (ue_pem e) (ue_ParseCertificate e) (aa_SignerCert a) of
        Inl err \<Rightarrow> Inl err
      | Inr signer \<Rightarrow>
          if \<not> ue_Verify e pool (ue_now e) signer then Inl SignerNotChained
          else if \<not> xc_CodeSigning signer then Inl SignerNoCodeSigning
          else if xc_CommonName signer \<noteq> UpdateSignerCommonName
            \<or> UpdateSignerOrganization \<notin> set (xc_Organization signer) then Inl SignerSubject
          else (case xc_key signer of
                  None \<Rightarrow> Inl SignerNotECDSA
                | Some pub \<Rightarrow>
                    if \<not> ue_VerifyASN1 e pub (ue_sha256 e (aa_Payload a)) (aa_Signature a) then Inl PayloadSignature
                    else parseUpdatePayload (ue_ToLower e) (ue_json e) (ue_IfSigned e) (ue_Required e) (aa_Payload a)))"

definition verifyUpdatePayload ::
  "update_env \<Rightarrow> ApplyUpdateArgs \<Rightarrow> updateServer \<Rightarrow> (update_error + updatePayload) \<times> updateServer" where
  "verifyUpdatePayload e a s =
     (let s1 = loadClusterCALocked e s in
      case us_clusterCA s1 of
        None \<Rightarrow> (Inl (NoClusterCA (us_clusterCAErr s1)), s1)
      | Some pool \<Rightarrow> (verify_signed e pool a, s1))"

section \<open>The checks on the host\<close>

text \<open>\<^verbatim>\<open>authorizeUpdatePeer\<close> with \<^verbatim>\<open>uidVerifier.Verify\<close>\<close>

definition authorizeUpdatePeer :: "u32 option option \<Rightarrow> u32 \<Rightarrow> update_error option" where
  "authorizeUpdatePeer conn allowed =
     (case conn of
        None \<Rightarrow> Some PeerNone
      | Some None \<Rightarrow> Some PeerUnreadable
      | Some (Some uid) \<Rightarrow> if uid \<noteq> allowed then Some PeerUnauthorized else None)"

definition checkUpdaterAbsent :: "plist_stat \<Rightarrow> u32 \<Rightarrow> update_error option" where
  "checkUpdaterAbsent st rootUID =
     (case st of
        PlistAbsent \<Rightarrow> None
      | PlistError \<Rightarrow> Some (UpdaterInstalled PlistUnknown)
      | PlistPresent regular owner \<Rightarrow>
          if \<not> regular then Some (UpdaterInstalled PlistNotRegular)
          else (case owner of
                  None \<Rightarrow> Some (UpdaterInstalled PlistNoOwner)
                | Some uid \<Rightarrow>
                    if uid \<noteq> rootUID then Some (UpdaterInstalled PlistForeign)
                    else Some (UpdaterInstalled PlistInstalled)))"

definition MaxUpdateArchiveBytes :: int where
  "MaxUpdateArchiveBytes = 536870912"

text \<open>\<open>st\<close>: None when the archive does not open, \<open>Some None\<close> when fstat fails.\<close>

definition openUpdateArchive :: "archiveStat option option \<Rightarrow> string \<Rightarrow> u32 \<Rightarrow> update_error option" where
  "openUpdateArchive st p uid =
     (if \<not> path_IsAbs p \<or> path_Clean p \<noteq> p then Some ArchivePath
      else case st of
        None \<Rightarrow> Some ArchiveOpen
      | Some None \<Rightarrow> Some ArchiveStat
      | Some (Some a) \<Rightarrow>
          if \<not> as_regular a then Some ArchiveNotRegular
          else if as_Uid a \<noteq> uid then Some ArchiveOwner
          else if MaxUpdateArchiveBytes < as_Size a then Some ArchiveSize
          else None)"

text \<open>The copy stops one byte past the bound; \<open>content\<close> is what the archive holds, None on a read error.\<close>

definition copyVerifiedArchive :: "update_env \<Rightarrow> string \<Rightarrow> update_error + string" where
  "copyVerifiedArchive e want =
     (if \<not> ue_CreateTemp e then Inl CopyCreate
      else if \<not> ue_unlink e then Inl CopyUnlink
      else case ue_content e of
        None \<Rightarrow> Inl CopyRead
      | Some c \<Rightarrow>
          if MaxUpdateArchiveBytes < int (length c) then Inl CopySize
          else if hex_encode (ue_sha256 e c) \<noteq> want then Inl CopyDigest
          else if \<not> ue_seek e then Inl CopySeek
          else Inr c)"

definition ensureStagingRoot :: "update_env \<Rightarrow> string \<Rightarrow> update_error option" where
  "ensureStagingRoot e root =
     (let inspect = (\<lambda>st. case st of
            RootIs isDir uid perm \<Rightarrow>
              if \<not> isDir then Some RootNotDir
              else if uid \<noteq> Some (ue_euid e) \<or> perm \<noteq> 0x1C0 then Some RootMode
              else None
          | _ \<Rightarrow> Some RootInspect) in
      if ue_root e = RootAbsent then
        (if ue_mkdir e = MkdirError then Some RootCreate
         else if \<not> ue_own e root then Some OwnFailed
         else inspect (ue_root2 e))
      else inspect (ue_root e))"

definition lockStaging :: "lock_result \<Rightarrow> update_error option" where
  "lockStaging l =
     (case l of LockOK \<Rightarrow> None | LockNoOpen \<Rightarrow> Some LockOpen | LockWouldBlock \<Rightarrow> Some LockHeld | LockError \<Rightarrow> Some LockFailed)"

definition updateDirPrefix :: string where
  "updateDirPrefix = ''netd-update-''"

definition updateLogName :: string where
  "updateLogName = ''install.log''"

text \<open>The paths the sweep removes.\<close>

definition sweepUpdateDirs :: "(string \<times> fmode) list option \<Rightarrow> string \<Rightarrow> string list" where
  "sweepUpdateDirs entries root =
     (case entries of
        None \<Rightarrow> []
      | Some es \<Rightarrow> map (\<lambda>(name, _). path_Join [root, name])
          (filter (\<lambda>(name, ty). \<not> (\<not> HasPrefix name updateDirPrefix \<or> (ty \<noteq> ModeDir \<and> ty \<noteq> ModeRegular))) es))"

definition resolveInstalledK3sm :: "update_env \<Rightarrow> string \<Rightarrow> update_error + string" where
  "resolveInstalledK3sm e path =
     (case ue_EvalSymlinks e path of
        None \<Rightarrow> Inl ResolveInstalled
      | Some target \<Rightarrow>
          (case ue_LstatRegular e target of
             None \<Rightarrow> Inl ResolveInstalled
           | Some regular \<Rightarrow>
               if \<not> regular then Inl ResolveInstalled
               else (case ue_EvalSymlinks e (path_Dir path) of
                       None \<Rightarrow> Inl ResolveInstalled
                     | Some root \<Rightarrow>
                         if \<not> installedWithinRoot target root (path_Base path) then Inl OutsideInstallTree
                         else Inr target)))"

definition versionProbeMaxBytes :: nat where
  "versionProbeMaxBytes = 4096"

definition probeInstalledVersion :: "(string \<Rightarrow> run_result) \<Rightarrow> string \<Rightarrow> string option" where
  "probeInstalledVersion exec path =
     (case exec path of ExitZero ws \<Rightarrow> parseVersionOutput (capped versionProbeMaxBytes ws) | _ \<Rightarrow> None)"

section \<open>The handler\<close>

record installerRun =
  ir_Argv :: "string list"
  ir_Dir :: string

datatype update_effect =
    LockUpdate | EmitPhase string | OpenArchive | LockStaging | SweepRemove string | CopyArchive
  | MakeDir string | CreateLog string | AwaitAck | RunInstaller installerRun
  | CloseLog | RemoveAll string | CloseCopy | CloseLock | CloseArchive | UnlockUpdate

datatype update_response = UpdateFailed update_error string | UpdateDone string

definition emitPhase :: "update_env \<Rightarrow> string \<Rightarrow> update_effect list" where
  "emitPhase e ph = (if ue_emit e then [EmitPhase ph] else [])"

definition awaitUpdateAck :: "update_env \<Rightarrow> update_effect list" where
  "awaitUpdateAck e = (if ue_awaitAck e then [AwaitAck] else [])"

definition installer_argv :: "updatePayload \<Rightarrow> string \<Rightarrow> string list" where
  "installer_argv p dir =
     [path_Join [dir, ''k3sm''], ''install'', ''--from-staging'', dir]
     @ (if up_AllowDowngrade p then [''--allow-downgrade''] else [])"

definition log_tail :: "update_env \<Rightarrow> string" where
  "log_tail e = (case ue_logText e of None \<Rightarrow> [] | Some t \<Rightarrow> logTail t)"

text \<open>From the log on. The flag of the result is \<^verbatim>\<open>abandoned\<close>: the select took the end of the helper's
  context while the installer ran.\<close>

definition run_staged :: "update_env \<Rightarrow> updatePayload \<Rightarrow> string \<Rightarrow> update_response \<times> update_effect list \<times> bool" where
  "run_staged e p dir =
     (let logPath = path_Join [dir, updateLogName];
          start = CreateLog logPath # emitPhase e UpdatePhaseInstalling @ awaitUpdateAck e;
          run = RunInstaller \<lparr>ir_Argv = installer_argv p dir, ir_Dir = dir\<rparr> in
      if \<not> ue_log e then (UpdateFailed LogCreate [], [], False)
      else if ue_ctxErr e then (UpdateFailed HelperStopping [], start @ [CloseLog], False)
      else if ue_ctxDone e then (UpdateFailed HelperStopped [], start @ [run], True)
      else if \<not> ue_installer e then (UpdateFailed InstallerFailed (log_tail e), start @ [run, CloseLog], False)
      else (UpdateDone (log_tail e), start @ [run, CloseLog], False))"

text \<open>Extraction; its effect is the early close of the copy.\<close>

definition extract_staged :: "update_env \<Rightarrow> string \<Rightarrow> string \<Rightarrow> update_error + staging" where
  "extract_staged e dir copied =
     (if \<not> ue_own e dir then Inl OwnFailed
      else case extractUpdateArchive (ue_io e) (fst (ue_untar e copied)) (snd (ue_untar e copied)) Map.empty of
        (Inl err, _) \<Rightarrow> Inl (ExtractRefused err)
      | (Inr _, fs) \<Rightarrow> Inr fs)"

text \<open>Code signing and the version, on the extracted set.\<close>

definition accept_staged :: "update_env \<Rightarrow> updateServer \<Rightarrow> updatePayload \<Rightarrow> string \<Rightarrow> staging \<Rightarrow> update_error option" where
  "accept_staged e s p dir fs =
     (case stagedSigningSet (ue_walk e fs) of
        Inl err \<Rightarrow> Some (SigningRefused err)
      | Inr sset \<Rightarrow>
          (case resolveInstalledK3sm e (us_installedK3sm s) of
             Inl err \<Rightarrow> Some err
           | Inr installedPath \<Rightarrow>
               (case inspectStagedTree (Inspect (runCodesign (ue_codesign e))) dir sset installedPath of
                  None \<Rightarrow> Some (SigningRefused InspectFailed)
                | Some (installed, tree) \<Rightarrow>
                    (case checkCodeSigning installed tree (requireTeam (ue_Required e) p) of
                       Some err \<Rightarrow> Some (SigningRefused err)
                     | None \<Rightarrow>
                         if up_AllowDowngrade p then None
                         else (case checkNotDowngrade (probeInstalledVersion (ue_k3smVersion e) installedPath) (up_Version p) of
                                 NotBelow _ \<Rightarrow> None
                               | d \<Rightarrow> Some (DowngradeRefused d))))))"

text \<open>With the staging directory; the deferred function removes it unless the run is abandoned.\<close>

definition in_staging_dir ::
  "update_env \<Rightarrow> updateServer \<Rightarrow> updatePayload \<Rightarrow> string \<Rightarrow> update_response \<times> update_effect list \<times> bool" where
  "in_staging_dir e s p copied =
     (case ue_MkdirTemp e of
        None \<Rightarrow> (UpdateFailed DirCreate [], [], False)
      | Some dir \<Rightarrow>
          (case extract_staged e dir copied of
             Inl err \<Rightarrow> (UpdateFailed err [], [MakeDir dir, RemoveAll dir], False)
           | Inr fs \<Rightarrow>
               (case accept_staged e s p dir fs of
                  Some err \<Rightarrow> (UpdateFailed err [], [MakeDir dir, CloseCopy, RemoveAll dir], False)
                | None \<Rightarrow>
                    (case run_staged e p dir of
                       (r, effs, abandoned) \<Rightarrow>
                         (r, [MakeDir dir, CloseCopy] @ effs @ (if abandoned then [] else [RemoveAll dir]), abandoned)))))"

text \<open>With the staging lock.\<close>

definition with_lock ::
  "update_env \<Rightarrow> updateServer \<Rightarrow> updatePayload \<Rightarrow> update_response \<times> update_effect list \<times> bool" where
  "with_lock e s p =
     (let sweep = map SweepRemove (sweepUpdateDirs (ue_ReadDir e) (us_stagingRoot s)) in
      case copyVerifiedArchive e (up_SHA256 p) of
        Inl err \<Rightarrow> (UpdateFailed err [], LockStaging # sweep @ [CloseLock], False)
      | Inr copied \<Rightarrow>
          (case in_staging_dir e s p copied of
             (r, effs, abandoned) \<Rightarrow>
               (r, LockStaging # sweep @ [CopyArchive] @ effs @ [CloseCopy] @ (if abandoned then [] else [CloseLock]),
                abandoned)))"

text \<open>With the archive open.\<close>

definition with_archive :: "update_env \<Rightarrow> updateServer \<Rightarrow> updatePayload \<Rightarrow> update_response \<times> update_effect list" where
  "with_archive e s p =
     (case ensureStagingRoot e (us_stagingRoot s) of
        Some err \<Rightarrow> (UpdateFailed err [], [OpenArchive, CloseArchive])
      | None \<Rightarrow>
          (case lockStaging (ue_lock e) of
             Some err \<Rightarrow> (UpdateFailed err [], [OpenArchive, CloseArchive])
           | None \<Rightarrow> (case with_lock e s p of (r, effs, _) \<Rightarrow> (r, OpenArchive # effs @ [CloseArchive]))))"

text \<open>With \<^verbatim>\<open>updateMu\<close> held.\<close>

definition update_locked ::
  "update_env \<Rightarrow> ApplyUpdateArgs \<Rightarrow> updateServer \<Rightarrow> update_response \<times> update_effect list \<times> updateServer" where
  "update_locked e a s =
     (case verifyUpdatePayload e a s of
        (Inl err, s1) \<Rightarrow> (UpdateFailed err [], emitPhase e UpdatePhaseVerifying, s1)
      | (Inr p, s1) \<Rightarrow>
          (case openUpdateArchive (ue_archive e) (aa_ArchivePath a) (us_ServiceUID s1) of
             Some err \<Rightarrow> (UpdateFailed err [], emitPhase e UpdatePhaseVerifying, s1)
           | None \<Rightarrow> (case with_archive e s1 p of (r, effs) \<Rightarrow> (r, emitPhase e UpdatePhaseVerifying @ effs, s1))))"

definition handleApplyUpdate ::
  "update_env \<Rightarrow> ApplyUpdateArgs option \<Rightarrow> updateServer \<Rightarrow> update_response \<times> update_effect list \<times> updateServer" where
  "handleApplyUpdate e args s =
     (case authorizeUpdatePeer (ue_conn e) (us_ServiceUID s) of
        Some err \<Rightarrow> (UpdateFailed err [], [], s)
      | None \<Rightarrow>
          (case checkUpdaterAbsent (ue_plist e) (us_updaterPlistOwner s) of
             Some err \<Rightarrow> (UpdateFailed err [], [], s)
           | None \<Rightarrow>
               (case args of
                  None \<Rightarrow> (UpdateFailed MissingArgs [], [], s)
                | Some a \<Rightarrow>
                    if us_updateMu s then (UpdateFailed UpdateBusy [], [], s)
                    else (case update_locked e a (s\<lparr>us_updateMu := True\<rparr>) of
                            (r, effs, s1) \<Rightarrow> (r, LockUpdate # effs @ [UnlockUpdate], s1\<lparr>us_updateMu := False\<rparr>)))))"

text \<open>\<^verbatim>\<open>readUpdateAck\<close>, the reading behind \<^verbatim>\<open>awaitAck\<close>: \<open>armed\<close>, the deadline could be set; \<open>dr\<close>, the JSON
  decoder of requests. The handler only logs its error.\<close>

datatype ack_error = AckDeadline | AckRead read_error | errNotUpdateAck

definition readUpdateAck ::
  "bool \<Rightarrow> (string \<Rightarrow> Request option) \<Rightarrow> int \<Rightarrow> reader \<Rightarrow> ack_error option \<times> reader" where
  "readUpdateAck armed dr maxRequestBytes r =
     (if \<not> armed then (Some AckDeadline, r)
      else case ReadFrame r maxRequestBytes of
        (Inl e, r1) \<Rightarrow> (Some (AckRead e), r1)
      | (Inr payload, r1) \<Rightarrow>
          (case dr payload of
             None \<Rightarrow> (Some errNotUpdateAck, r1)
           | Some req \<Rightarrow>
               if \<not> Compatible (rq_Version req) \<or> rq_Verb req \<noteq> VerbHello then (Some errNotUpdateAck, r1)
               else (None, r1)))"

text \<open>What the client's acknowledgement writes is accepted and consumed.\<close>

lemma ackInstalling_accepted:
  assumes "enc (request VerbHello) = Some payload" and "dr payload = Some (request VerbHello)"
    and "cn_writes c = True # ws" and "payload \<noteq> []" and "int (length payload) \<le> mx" and "length payload < 2 ^ 32"
  shows "\<exists>f. cn_out (ackInstalling enc c) = cn_out c @ [f]
    \<and> readUpdateAck True dr mx \<lparr>rd_bytes = f @ rest, rd_eof = b\<rparr> = (None, \<lparr>rd_bytes = rest, rd_eof = b\<rparr>)"
proof -
  have r: "ReadFrame \<lparr>rd_bytes = Frame payload @ rest, rd_eof = b\<rparr> mx = (Inr payload, \<lparr>rd_bytes = rest, rd_eof = b\<rparr>)"
    using ReadFrame_Frame [OF assms(6)] assms(4,5) by simp
  have "Compatible CurrentVersion" by (simp add: Compatible_def CurrentVersion_def)
  then show ?thesis
    using assms(1-3) r by (simp add: ackInstalling_def WriteFrame_def readUpdateAck_def request_def)
qed

section \<open>The layers of the handler\<close>

text \<open>What the deferred functions give back, by layer: \<open>ab\<close> is \<^verbatim>\<open>abandoned\<close>.\<close>

definition is_run :: "update_effect \<Rightarrow> bool" where
  "is_run x \<longleftrightarrow> (case x of RunInstaller _ \<Rightarrow> True | _ \<Rightarrow> False)"

definition before_run :: "update_effect list \<Rightarrow> update_effect list" where
  "before_run effs = takeWhile (\<lambda>x. \<not> is_run x) effs"

lemma is_run_simps [simp]:
  "is_run (RunInstaller r)" "\<not> is_run LockUpdate" "\<not> is_run (EmitPhase ph)" "\<not> is_run OpenArchive"
  "\<not> is_run LockStaging" "\<not> is_run (SweepRemove d)" "\<not> is_run CopyArchive" "\<not> is_run (MakeDir d)"
  "\<not> is_run (CreateLog l)" "\<not> is_run AwaitAck" "\<not> is_run CloseLog" "\<not> is_run (RemoveAll d)"
  "\<not> is_run CloseCopy" "\<not> is_run CloseLock" "\<not> is_run CloseArchive" "\<not> is_run UnlockUpdate"
  by (simp_all add: is_run_def)

lemma run_staged_effects:
  assumes "run_staged e p dir = (r, effs, ab)"
  shows "ab \<longleftrightarrow> r = UpdateFailed HelperStopped []"
    and "set effs \<subseteq> {CreateLog (path_Join [dir, updateLogName]), EmitPhase UpdatePhaseInstalling, AwaitAck, CloseLog,
           RunInstaller \<lparr>ir_Argv = installer_argv p dir, ir_Dir = dir\<rparr>}"
    and "CloseLog \<in> set effs \<longleftrightarrow> \<not> ab \<and> (\<exists>l. CreateLog l \<in> set effs)"
    and "CloseLog \<notin> set (before_run effs) \<or> \<not> list_ex is_run effs"
    and "list_ex is_run effs \<Longrightarrow> \<not> ue_ctxErr e \<and> ue_log e"
    and "ab \<or> r = UpdateDone t \<Longrightarrow> list_ex is_run effs \<and> (ab \<or> ue_installer e)"
  using assms
  by (auto simp: run_staged_def Let_def emitPhase_def awaitUpdateAck_def before_run_def split: if_split_asm)

lemma extract_staged_Inr:
  "extract_staged e dir copied = Inr fs \<Longrightarrow>
    extractUpdateArchive (ue_io e) (fst (ue_untar e copied)) (snd (ue_untar e copied)) Map.empty = (Inr (), fs)"
  by (auto simp: extract_staged_def split: if_split_asm prod.split_asm sum.split_asm)

lemma in_staging_dir_cases:
  assumes "in_staging_dir e s p copied = (r, effs, ab)"
  obtains (failed) err mid where "r = UpdateFailed err []" "err \<noteq> HelperStopped" "\<not> ab" "set mid \<subseteq> {CloseCopy}"
      "effs = [] \<or> (\<exists>dir. effs = MakeDir dir # mid @ [RemoveAll dir])"
    | (ran) dir fs effs' where "ue_MkdirTemp e = Some dir" "extract_staged e dir copied = Inr fs"
        "accept_staged e s p dir fs = None" "run_staged e p dir = (r, effs', ab)"
        "effs = [MakeDir dir, CloseCopy] @ effs' @ (if ab then [] else [RemoveAll dir])"
proof (cases "ue_MkdirTemp e")
  case None
  then show thesis using failed [of DirCreate "[]"] assms by (simp add: in_staging_dir_def)
next
  case d: (Some dir)
  show thesis
  proof (cases "extract_staged e dir copied")
    case (Inl err)
    then have "err \<noteq> HelperStopped"
      by (auto simp: extract_staged_def split: if_split_asm prod.split_asm sum.split_asm)
    then show thesis using failed [of err "[]"] assms d Inl by (auto simp: in_staging_dir_def)
  next
    case x: (Inr fs)
    show thesis
    proof (cases "accept_staged e s p dir fs")
      case (Some err)
      then have "err \<noteq> HelperStopped"
        by (auto simp: accept_staged_def resolveInstalledK3sm_def
            split: sum.split_asm option.split_asm prod.split_asm if_split_asm downgrade.split_asm)
      then show thesis using failed [of err "[CloseCopy]"] assms d x Some by (auto simp: in_staging_dir_def)
    next
      case None
      then show thesis
        using ran [OF d x None] assms d x by (cases "run_staged e p dir") (auto simp: in_staging_dir_def)
    qed
  qed
qed

text \<open>The staging resources: kept for an abandoned run, otherwise each one taken is given back, and never
  before the installer has run.\<close>

definition staging_released :: "update_response \<Rightarrow> update_effect list \<Rightarrow> bool" where
  "staging_released r effs \<longleftrightarrow>
     (if r = UpdateFailed HelperStopped []
      then list_ex is_run effs \<and> CloseLog \<notin> set effs \<and> CloseLock \<notin> set effs \<and> (\<forall>d. RemoveAll d \<notin> set effs)
      else (CloseLock \<in> set effs \<longleftrightarrow> LockStaging \<in> set effs)
        \<and> (CloseLog \<in> set effs \<longleftrightarrow> (\<exists>l. CreateLog l \<in> set effs))
        \<and> (\<forall>d. RemoveAll d \<in> set effs \<longleftrightarrow> MakeDir d \<in> set effs))
     \<and> (list_ex is_run effs \<longrightarrow> LockStaging \<in> set (before_run effs) \<and> CloseLock \<notin> set (before_run effs)
          \<and> CloseLog \<notin> set (before_run effs) \<and> (\<forall>d. RemoveAll d \<notin> set (before_run effs)))"

lemma takeWhile_no_run: "\<not> list_ex is_run xs \<Longrightarrow> takeWhile (\<lambda>x. \<not> is_run x) xs = xs"
  by (induction xs) auto

lemma before_run_append:
  "before_run (xs @ ys) = (if list_ex is_run xs then before_run xs else xs @ before_run ys)"
  by (induction xs) (auto simp: before_run_def)

lemma before_run_Cons [simp]: "before_run (x # xs) = (if is_run x then [] else x # before_run xs)"
  by (simp add: before_run_def)

lemma before_run_Nil [simp]: "before_run [] = []"
  by (simp add: before_run_def)

lemma before_run_subset: "set (before_run xs) \<subseteq> set xs"
  by (auto simp: before_run_def dest: set_takeWhileD)

lemma sweep_no_run [simp]: "\<not> list_ex is_run (map SweepRemove xs)"
  by (induction xs) auto

lemma staging_released_frame:
  assumes "staging_released r effs" and "\<not> list_ex is_run pre" and "\<not> list_ex is_run post"
    and "set pre \<union> set post \<subseteq> {LockUpdate, UnlockUpdate, OpenArchive, CloseArchive} \<union> range EmitPhase"
  shows "staging_released r (pre @ effs @ post)"
proof -
  have n: "x \<notin> set pre \<and> x \<notin> set post"
    if "x \<in> {LockStaging, CloseLock, CloseLog} \<union> range MakeDir \<union> range RemoveAll \<union> range CreateLog" for x
    using assms(4) that by auto
  show ?thesis
    using assms(1-3) n unfolding staging_released_def
    by (auto simp: before_run_append)
qed

lemma with_lock_released:
  assumes "with_lock e s p = (r, effs, ab)"
  shows "staging_released r effs"
proof (cases "copyVerifiedArchive e (up_SHA256 p)")
  case (Inl err)
  then have "err \<noteq> HelperStopped" by (auto simp: copyVerifiedArchive_def split: if_split_asm option.split_asm)
  then show ?thesis using assms Inl by (auto simp: with_lock_def staging_released_def)
next
  case (Inr copied)
  obtain r1 effs1 ab1 where i: "in_staging_dir e s p copied = (r1, effs1, ab1)" by (cases "in_staging_dir e s p copied")
  define sweep where "sweep = map SweepRemove (sweepUpdateDirs (ue_ReadDir e) (us_stagingRoot s))"
  have sw: "set sweep \<subseteq> range SweepRemove" "\<not> list_ex is_run sweep" by (auto simp: sweep_def)
  have f: "r = r1" "effs = LockStaging # sweep @ [CopyArchive] @ effs1 @ [CloseCopy] @ (if ab1 then [] else [CloseLock])"
    using assms Inr i by (auto simp: with_lock_def sweep_def)
  from i show ?thesis
  proof (cases rule: in_staging_dir_cases)
    case (failed err mid)
    have "\<not> list_ex is_run mid" using failed(4) by (auto simp: list_ex_iff)
    then show ?thesis using failed sw f by (auto simp: staging_released_def)
  next
    case (ran dir fs effs2)
    note q = run_staged_effects [OF ran(4)]
    have "set (before_run effs2) \<subseteq> set effs2" by (rule before_run_subset)
    then have n: "x \<notin> set effs2" "x \<notin> set (before_run effs2)"
      if "x \<in> {LockStaging, CloseLock} \<union> range MakeDir \<union> range RemoveAll" for x
      using q(2) that by auto
    show ?thesis
    proof (cases ab1)
      case True
      then show ?thesis
        using q(1,3,4) q(6) n sw ran(5) f by (auto simp: staging_released_def before_run_append)
    next
      case False
      then show ?thesis
        using q(1,3,4) n sw ran(5) f by (auto simp: staging_released_def before_run_append)
    qed
  qed
qed

lemma with_lock_run:
  assumes "with_lock e s p = (r, effs, ab)" and "RunInstaller run \<in> set effs"
  obtains copied dir fs where "copyVerifiedArchive e (up_SHA256 p) = Inr copied" "ue_MkdirTemp e = Some dir"
    "extract_staged e dir copied = Inr fs" "accept_staged e s p dir fs = None" "\<not> ue_ctxErr e"
    "run = \<lparr>ir_Argv = installer_argv p dir, ir_Dir = dir\<rparr>"
proof -
  obtain copied where c: "copyVerifiedArchive e (up_SHA256 p) = Inr copied"
    using assms by (cases "copyVerifiedArchive e (up_SHA256 p)") (auto simp: with_lock_def)
  obtain r1 effs1 ab1 where i: "in_staging_dir e s p copied = (r1, effs1, ab1)" by (cases "in_staging_dir e s p copied")
  have m: "RunInstaller run \<in> set effs1" using assms c i by (auto simp: with_lock_def split: if_split_asm)
  from i show thesis
  proof (cases rule: in_staging_dir_cases)
    case (failed err mid)
    then show thesis using m by auto
  next
    case (ran dir fs effs2)
    note q = run_staged_effects [OF ran(4)]
    have "RunInstaller run \<in> set effs2" using m ran(5) by (auto split: if_split_asm)
    moreover from this have "list_ex is_run effs2" by (metis is_run_simps(1) list_ex_iff)
    ultimately have "run = \<lparr>ir_Argv = installer_argv p dir, ir_Dir = dir\<rparr>" "\<not> ue_ctxErr e"
      using q(2,5) by auto
    then show thesis using that [OF c ran(1-3)] by blast
  qed
qed

lemma in_staging_dir_done:
  assumes "in_staging_dir e s p copied = (UpdateDone t, effs, ab)"
  shows "list_ex is_run effs \<and> ue_installer e"
  using assms
proof (cases rule: in_staging_dir_cases)
  case (ran dir fs effs2)
  then show ?thesis using run_staged_effects(1) [OF ran(4)] run_staged_effects(6) [OF ran(4), of t] by auto
qed simp

lemma verifyUpdatePayload_server:
  assumes "verifyUpdatePayload e a s = (r, s')"
  shows "us_updateMu s' = us_updateMu s" "us_ServiceUID s' = us_ServiceUID s" "us_installedK3sm s' = us_installedK3sm s"
    "r = Inr p \<Longrightarrow> \<exists>pool. us_clusterCA s' = Some pool \<and> verify_signed e pool a = Inr p"
  using assms
  by (auto simp: verifyUpdatePayload_def Let_def loadClusterCALocked_def split: option.split_asm if_split_asm sum.split_asm)

lemma update_locked_cases:
  assumes "update_locked e a s = (r, effs, s')"
  obtains (refused) err where "r = UpdateFailed err []" "err \<noteq> HelperStopped" "us_updateMu s' = us_updateMu s"
      "effs = emitPhase e UpdatePhaseVerifying \<or> effs = emitPhase e UpdatePhaseVerifying @ [OpenArchive, CloseArchive]"
    | (locked) p effs' ab where "verifyUpdatePayload e a s = (Inr p, s')" "with_lock e s' p = (r, effs', ab)"
        "effs = emitPhase e UpdatePhaseVerifying @ OpenArchive # effs' @ [CloseArchive]" "us_updateMu s' = us_updateMu s"
proof -
  obtain v s1 where v: "verifyUpdatePayload e a s = (v, s1)" by (cases "verifyUpdatePayload e a s")
  note f = verifyUpdatePayload_server [OF v]
  show thesis
  proof (cases v)
    case (Inl err)
    then have "err \<noteq> HelperStopped"
      using v by (auto simp: verifyUpdatePayload_def verify_signed_def parseSignerCert_def parseUpdatePayload_def Let_def
          split: option.split_asm sum.split_asm list.split_asm prod.split_asm if_split_asm)
    then show thesis using refused [of err] assms v Inl f by (auto simp: update_locked_def)
  next
    case p: (Inr p)
    show thesis
    proof (cases "openUpdateArchive (ue_archive e) (aa_ArchivePath a) (us_ServiceUID s1)")
      case (Some err)
      then have "err \<noteq> HelperStopped" by (auto simp: openUpdateArchive_def split: option.split_asm if_split_asm)
      then show thesis using refused [of err] assms v p Some f by (auto simp: update_locked_def)
    next
      case a: None
      have h: "(case with_archive e s1 p of (r, effs) \<Rightarrow> (r, emitPhase e UpdatePhaseVerifying @ effs, s1)) = (r, effs, s')"
        using assms v p a by (simp add: update_locked_def)
      show thesis
      proof (cases "ensureStagingRoot e (us_stagingRoot s1)")
        case (Some err)
        then have "err \<noteq> HelperStopped"
          by (auto simp: ensureStagingRoot_def Let_def split: root_stat.split_asm if_split_asm)
        then show thesis using refused [of err] h Some f by (auto simp: with_archive_def)
      next
        case root: None
        show thesis
        proof (cases "lockStaging (ue_lock e)")
          case (Some err)
          then have "err \<noteq> HelperStopped" by (auto simp: lockStaging_def split: lock_result.split_asm)
          then show thesis using refused [of err] h root Some f by (auto simp: with_archive_def)
        next
          case None
          then show thesis
            using locked [of p] h root v p f by (cases "with_lock e s1 p") (auto simp: with_archive_def)
        qed
      qed
    qed
  qed
qed

lemma accept_staged_None:
  assumes "accept_staged e s p dir fs = None"
  obtains sset inst installed tree where "stagedSigningSet (ue_walk e fs) = Inr sset"
    "resolveInstalledK3sm e (us_installedK3sm s) = Inr inst"
    "inspectStagedTree (Inspect (runCodesign (ue_codesign e))) dir sset inst = Some (installed, tree)"
    "checkCodeSigning installed tree (up_Signature p = ue_Required e) = None"
    "up_AllowDowngrade p \<or> (\<exists>v c. probeInstalledVersion (ue_k3smVersion e) inst = Some v
       \<and> compareReleases (up_Version p) v = Some c \<and> 0 \<le> c)"
  using assms that
  by (auto simp: accept_staged_def requireTeam_def checkNotDowngrade_def not_less
      split: sum.split_asm option.split_asm prod.split_asm if_split_asm)

lemma verify_signed_Inr:
  assumes "verify_signed e pool a = Inr p"
  obtains signer pub where "parseSignerCert (ue_pem e) (ue_ParseCertificate e) (aa_SignerCert a) = Inr signer"
    "ue_Verify e pool (ue_now e) signer" "xc_CodeSigning signer" "xc_CommonName signer = UpdateSignerCommonName"
    "UpdateSignerOrganization \<in> set (xc_Organization signer)" "xc_key signer = Some pub"
    "ue_VerifyASN1 e pub (ue_sha256 e (aa_Payload a)) (aa_Signature a)"
    "parseUpdatePayload (ue_ToLower e) (ue_json e) (ue_IfSigned e) (ue_Required e) (aa_Payload a) = Inr p"
  using assms that by (auto simp: verify_signed_def split: sum.split_asm option.split_asm if_split_asm)

lemma copyVerifiedArchive_Inr:
  "copyVerifiedArchive e want = Inr c \<Longrightarrow> ue_content e = Some c \<and> hex_encode (ue_sha256 e c) = want"
  by (auto simp: copyVerifiedArchive_def split: option.split_asm if_split_asm)

text \<open>The handler past its first checks.\<close>

lemma handle_cases:
  assumes "handleApplyUpdate e args s = (r, effs, s')"
  obtains (refused) err where "r = UpdateFailed err []" "err \<noteq> HelperStopped" "effs = []" "s' = s"
    | (locked) a s1 effs' where "args = Some a" "ue_conn e = Some (Some (us_ServiceUID s))" "ue_plist e = PlistAbsent"
        "\<not> us_updateMu s" "update_locked e a (s\<lparr>us_updateMu := True\<rparr>) = (r, effs', s1)"
        "effs = LockUpdate # effs' @ [UnlockUpdate]" "s' = s1\<lparr>us_updateMu := False\<rparr>"
proof (cases "authorizeUpdatePeer (ue_conn e) (us_ServiceUID s)")
  case (Some err)
  then have "err \<noteq> HelperStopped" by (auto simp: authorizeUpdatePeer_def split: option.split_asm if_split_asm)
  then show thesis using refused assms Some by (auto simp: handleApplyUpdate_def)
next
  case peer: None
  then have conn: "ue_conn e = Some (Some (us_ServiceUID s))"
    by (auto simp: authorizeUpdatePeer_def split: option.split_asm if_split_asm)
  show thesis
  proof (cases "checkUpdaterAbsent (ue_plist e) (us_updaterPlistOwner s)")
    case (Some err)
    then have "err \<noteq> HelperStopped"
      by (auto simp: checkUpdaterAbsent_def split: plist_stat.split_asm option.split_asm if_split_asm)
    then show thesis using refused assms peer Some by (auto simp: handleApplyUpdate_def)
  next
    case None
    then have plist: "ue_plist e = PlistAbsent"
      by (auto simp: checkUpdaterAbsent_def split: plist_stat.split_asm option.split_asm if_split_asm)
    show thesis
    proof (cases args)
      case args: None
      then show thesis using refused [of MissingArgs] assms peer None by (simp add: handleApplyUpdate_def)
    next
      case (Some a)
      obtain r1 effs1 s1 where l: "update_locked e a (s\<lparr>us_updateMu := True\<rparr>) = (r1, effs1, s1)"
        by (cases "update_locked e a (s\<lparr>us_updateMu := True\<rparr>)")
      show thesis
        using refused [of UpdateBusy] locked [OF Some conn plist] assms peer None Some l
        by (auto simp: handleApplyUpdate_def split: if_split_asm)
    qed
  qed
qed

section \<open>A concrete update\<close>

definition demo_sig :: string where
  "demo_sig = ''ABCDE12345''"

definition demo_payload :: updatePayload where
  "demo_payload = \<lparr>up_Version = ''v1.1.0'', up_URL = [], up_SHA256 = replicate 64 (CHR ''0''),
     up_Signature = ''Required'', up_AllowDowngrade = False\<rparr>"

definition demo_cert :: x509cert where
  "demo_cert = \<lparr>xc_BasicConstraintsValid = True, xc_IsCA = True, xc_CodeSigning = True,
     xc_CommonName = UpdateSignerCommonName, xc_Organization = [UpdateSignerOrganization],
     xc_key = Some ''pub'', xc_Raw = []\<rparr>"

definition demo_walk :: "walkEntry list" where
  "demo_walk = map (\<lambda>n. \<lparr>we_rel = n, we_dir = False, we_regular = True,
     we_content = Some [CHR 0xFE, CHR 0xED, CHR 0xFA, CHR 0xCF]\<rparr>) updateSetFiles"

definition demo_env :: update_env where
  "demo_env = \<lparr>ue_conn = Some (Some 501), ue_emit = True, ue_awaitAck = True, ue_plist = PlistAbsent,
     ue_ToLower = (\<lambda>s. s), ue_json = (\<lambda>_. Some (demo_payload, False)), ue_IfSigned = ''IfSigned'',
     ue_Required = ''Required'', ue_pem = (\<lambda>_. [(''CERTIFICATE'', ''der'', [])]),
     ue_ParseCertificate = (\<lambda>_. Some demo_cert), ue_Verify = (\<lambda>_ _ _. True), ue_now = 0,
     ue_sha256 = (\<lambda>_. replicate 32 (CHR 0x00)), ue_VerifyASN1 = (\<lambda>_ _ _. True),
     ue_readFile = (\<lambda>_. Some (Some ''pem'')),
     ue_archive = Some (Some \<lparr>as_regular = True, as_Uid = 501, as_Size = 10\<rparr>), ue_euid = 0,
     ue_root = RootAbsent, ue_mkdir = MkdirOK, ue_own = (\<lambda>_. True), ue_root2 = RootIs True (Some 0) 0x1C0,
     ue_lock = LockOK, ue_ReadDir = Some [(''netd-update-1'', ModeDir)], ue_CreateTemp = True, ue_unlink = True,
     ue_content = Some ''tgz'', ue_seek = True, ue_MkdirTemp = Some ''/s/netd-update-2'',
     ue_untar = (\<lambda>_. (True, demo_archive)), ue_io = (\<lambda>_. False), ue_walk = (\<lambda>_. Some demo_walk),
     ue_EvalSymlinks = Some, ue_LstatRegular = (\<lambda>_. Some True),
     ue_codesign = (\<lambda>_. ExitZero [''TeamIdentifier='', demo_sig]),
     ue_k3smVersion = (\<lambda>_. ExitZero [''k3sm v1.0.9'']), ue_log = True, ue_ctxErr = False, ue_ctxDone = False,
     ue_installer = True, ue_logText = None\<rparr>"

definition demo_server :: updateServer where
  "demo_server = \<lparr>us_updateMu = False, us_clusterCA = None, us_clusterCAErr = Some CaOpen,
     us_ClusterCAPath = ''/ca.pem'', us_ServiceUID = 501, us_stagingRoot = ''/s'',
     us_installedK3sm = ''/Library/k3sm/k3sm'', us_updaterPlistOwner = 0\<rparr>"

definition demo_args :: ApplyUpdateArgs where
  "demo_args = \<lparr>aa_ArchivePath = ''/a.tgz'', aa_Payload = ''json'', aa_Signature = ''sig'', aa_SignerCert = ''pem''\<rparr>"

lemma demo_signature:
  "Inspect (runCodesign (ue_codesign demo_env)) path =
     (if path_IsAbs path then Some \<lparr>cs_Valid = True, cs_TeamID = demo_sig, cs_DeveloperID = True\<rparr> else None)"
proof -
  have r: "runCodesign (ue_codesign demo_env) args = Some (True, ''TeamIdentifier=ABCDE12345'')" for args
    by (simp add: runCodesign_def capped_take demo_env_def demo_sig_def codesignOutputBytes_def)
  have "parseCodesignTeam ''TeamIdentifier=ABCDE12345'' = demo_sig" by code_simp
  moreover have "validTeamID demo_sig" by code_simp
  ultimately show ?thesis by (simp add: Inspect_def Let_def r)
qed

lemma demo_probe: "probeInstalledVersion (ue_k3smVersion demo_env) path = Some ''v1.0.9''"
proof -
  have "parseVersionOutput ''k3sm v1.0.9'' = Some ''v1.0.9''" by code_simp
  then show ?thesis
    by (simp add: probeInstalledVersion_def capped_take demo_env_def versionProbeMaxBytes_def)
qed

definition demo_insp :: "string \<Rightarrow> codeSignature option" where
  "demo_insp path = (if path_IsAbs path then Some \<lparr>cs_Valid = True, cs_TeamID = demo_sig, cs_DeveloperID = True\<rparr> else None)"

lemma demo_accept: "accept_staged demo_env s0 demo_payload ''/s/netd-update-2'' fs = None"
  if "us_installedK3sm s0 = ''/Library/k3sm/k3sm''"
proof -
  have i: "Inspect (runCodesign (ue_codesign demo_env)) = demo_insp" by (rule ext) (simp add: demo_signature demo_insp_def)
  have r: "resolveInstalledK3sm demo_env ''/Library/k3sm/k3sm'' = Inr ''/Library/k3sm/k3sm''" by code_simp
  have w: "ue_walk demo_env fs = Some demo_walk" by (simp add: demo_env_def)
  have q: "ue_Required demo_env = ''Required''" by (simp add: demo_env_def)
  have "(case stagedSigningSet (Some demo_walk) of
      Inl _ \<Rightarrow> False
    | Inr sset \<Rightarrow>
        (case inspectStagedTree demo_insp ''/s/netd-update-2'' sset ''/Library/k3sm/k3sm'' of
           None \<Rightarrow> False
         | Some (installed, tree) \<Rightarrow> checkCodeSigning installed tree (requireTeam ''Required'' demo_payload) = None))"
    by code_simp
  moreover have "checkNotDowngrade (Some ''v1.0.9'') (up_Version demo_payload) = NotBelow ''v1.0.9''" by code_simp
  ultimately show ?thesis
    unfolding accept_staged_def i w r that demo_probe q
    by (auto split: sum.split_asm option.split_asm prod.split_asm)
qed

lemma demo_extract: "\<exists>fs. extract_staged demo_env dir copied = Inr fs"
proof -
  let ?r = "extractUpdateArchive (\<lambda>_. False) True demo_archive Map.empty"
  have "\<not> isl (fst ?r)" by code_simp
  then obtain fs where "?r = (Inr (), fs)" by (cases ?r; cases "fst ?r") auto
  then show ?thesis by (simp add: extract_staged_def demo_env_def)
qed

lemma demo_update:
  "\<exists>effs s'. handleApplyUpdate demo_env (Some demo_args) demo_server = (UpdateDone [], effs, s')
     \<and> RunInstaller \<lparr>ir_Argv = installer_argv demo_payload ''/s/netd-update-2'', ir_Dir = ''/s/netd-update-2''\<rparr> \<in> set effs"
proof -
  let ?s1 = "demo_server\<lparr>us_updateMu := True\<rparr>"
  have v: "fst (verifyUpdatePayload demo_env demo_args ?s1) = Inr demo_payload" by code_simp
  have inst: "us_installedK3sm (snd (verifyUpdatePayload demo_env demo_args ?s1)) = ''/Library/k3sm/k3sm''"
    "us_ServiceUID (snd (verifyUpdatePayload demo_env demo_args ?s1)) = 501"
    using verifyUpdatePayload_server(2,3) [of demo_env demo_args ?s1] by (simp_all add: demo_server_def prod_eq_iff)
  obtain s2 where s2: "verifyUpdatePayload demo_env demo_args ?s1 = (Inr demo_payload, s2)"
    using v by (metis prod.collapse)
  have o: "openUpdateArchive (ue_archive demo_env) (aa_ArchivePath demo_args) 501 = None" by code_simp
  have c: "copyVerifiedArchive demo_env (up_SHA256 demo_payload) = Inr ''tgz''" by code_simp
  have e: "ensureStagingRoot demo_env root = None" for root by (simp add: ensureStagingRoot_def demo_env_def)
  obtain fs where fs: "extract_staged demo_env ''/s/netd-update-2'' ''tgz'' = Inr fs" using demo_extract by blast
  have run: "run_staged demo_env demo_payload ''/s/netd-update-2'' = (UpdateDone [],
      [CreateLog (path_Join [''/s/netd-update-2'', updateLogName]), EmitPhase UpdatePhaseInstalling, AwaitAck,
       RunInstaller \<lparr>ir_Argv = installer_argv demo_payload ''/s/netd-update-2'', ir_Dir = ''/s/netd-update-2''\<rparr>, CloseLog], False)"
    by (simp add: run_staged_def demo_env_def emitPhase_def awaitUpdateAck_def log_tail_def)
  have d: "ue_MkdirTemp demo_env = Some ''/s/netd-update-2''" "lockStaging (ue_lock demo_env) = None"
    "authorizeUpdatePeer (ue_conn demo_env) (us_ServiceUID demo_server) = None"
    "checkUpdaterAbsent (ue_plist demo_env) (us_updaterPlistOwner demo_server) = None" "\<not> us_updateMu demo_server"
    by (simp_all add: demo_env_def lockStaging_def demo_server_def authorizeUpdatePeer_def checkUpdaterAbsent_def)
  let ?run = "RunInstaller \<lparr>ir_Argv = installer_argv demo_payload ''/s/netd-update-2'', ir_Dir = ''/s/netd-update-2''\<rparr>"
  have us: "us_installedK3sm s2 = ''/Library/k3sm/k3sm''" "us_ServiceUID s2 = 501" using inst s2 by simp_all
  obtain effs1 where 1: "in_staging_dir demo_env s2 demo_payload ''tgz'' = (UpdateDone [], effs1, False)" "?run \<in> set effs1"
    by (simp add: in_staging_dir_def d(1) fs run demo_accept [OF us(1)])
  obtain effs2 where 2: "with_lock demo_env s2 demo_payload = (UpdateDone [], effs2, False)" "?run \<in> set effs2"
    using 1 by (simp add: with_lock_def c)
  obtain effs3 where 3: "with_archive demo_env s2 demo_payload = (UpdateDone [], effs3)" "?run \<in> set effs3"
    using 2 by (simp add: with_archive_def e d(2))
  obtain effs4 where 4: "update_locked demo_env demo_args ?s1 = (UpdateDone [], effs4, s2)" "?run \<in> set effs4"
    using 3 o us by (simp add: update_locked_def s2)
  have "handleApplyUpdate demo_env (Some demo_args) demo_server =
      (UpdateDone [], LockUpdate # effs4 @ [UnlockUpdate], s2\<lparr>us_updateMu := False\<rparr>)"
    by (simp only: handleApplyUpdate_def d option.case 4(1) if_False prod.case)
  then show ?thesis using 4(2) by (intro exI) (rule conjI, assumption, simp)
qed

section \<open>Properties\<close>





end
