(* ===== verification/Mesh.thy ===== *)
theory Mesh
  imports GoEncoding Allocator "HOL-Library.AList" "HOL-Library.List_Lexorder" "HOL-Library.Char_ord"
begin

text \<open>
  The mesh plan of a node (\<^verbatim>\<open>pkg/mesh/plan.go\<close>, \<^verbatim>\<open>mesh.go\<close>): which peers get a tunnel, with which
  allowed prefixes, which kernel routes go to it, and the text that configures the device. The type
  of a peer, its defaults, its validation and the named constants belong to \<^verbatim>\<open>k3sm.io/apis\<close>; they are
  the fields of \<open>netv1\<close>. The device is an argument.
\<close>

section \<open>Peers\<close>

record EndpointCandidate =
  ec_Link :: string
  ec_Address :: string

record MeshPeerSpec =
  sp_SchemaVersion :: int
  sp_NodeName :: string
  sp_PublicKey :: string
  sp_Endpoint :: string
  sp_Endpoints :: "EndpointCandidate list"
  sp_PodCIDR :: string
  sp_AllowedIPs :: "string list"
  sp_PersistentKeepaliveSeconds :: int

record netv1 =
  nv_WithDefaults :: "MeshPeerSpec \<Rightarrow> MeshPeerSpec"
  nv_Validate :: "MeshPeerSpec \<Rightarrow> bool"
  nv_SchemaVersion :: int
  nv_Underlay :: string
  nv_Direct :: string
  nv_Keepalive :: int

definition wgKeyBytes :: nat where
  "wgKeyBytes = 32"

record PeerConfig =
  pc_NodeName :: string
  pc_PublicKeyHex :: string
  pc_Endpoint :: string
  pc_AllowedIPs :: "prefix list"
  pc_KeepaliveSeconds :: int

datatype skip_reason = InvalidSpec | UnsupportedSchema | MalformedCIDR | AllowedMismatch | BadConfig

record PeerSkip =
  ps_NodeName :: string
  ps_PodCIDR :: string
  ps_Reason :: skip_reason

record Plan =
  pl_Peers :: "PeerConfig list"
  pl_Routes :: "prefix list"
  pl_Skipped :: "PeerSkip list"

datatype mesh_error = ErrSelfCIDR | ErrPeerConfig

definition EqualCIDR :: "prefix \<Rightarrow> prefix \<Rightarrow> bool" where
  "EqualCIDR a b \<longleftrightarrow> Masked a = Masked b"

section \<open>The route set\<close>

definition is_node_cidr :: "prefix \<Rightarrow> bool" where
  "is_node_cidr c \<longleftrightarrow> Is4 (p_ip c) \<and> Bits c = 24"

fun route_loop :: "prefix \<Rightarrow> string list \<Rightarrow> prefix list \<Rightarrow> prefix list" where
  "route_loop self [] out = out"
| "route_loop self (cidr # cidrs) out =
     (case ParsePrefix cidr of
        None \<Rightarrow> route_loop self cidrs out
      | Some c0 \<Rightarrow>
          let c = Masked c0 in
          if \<not> is_node_cidr c then route_loop self cidrs out
          else if prefix_Overlaps c self then route_loop self cidrs out
          else if c \<in> set out then route_loop self cidrs out
          else route_loop self cidrs (out @ [c]))"

definition RouteSet :: "prefix \<Rightarrow> MeshPeerSpec list \<Rightarrow> mesh_error + prefix list" where
  "RouteSet self0 peers =
     (let self = Masked self0 in
      if \<not> is_node_cidr self then Inl ErrSelfCIDR
      else Inr (sort_key p_ip (route_loop self (map sp_PodCIDR peers) [])))"

section \<open>The plan\<close>

text \<open>Every allowed prefix equals the pod prefix; the list is not empty.\<close>

definition AllowedIPsMatchCIDR :: "MeshPeerSpec \<Rightarrow> bool" where
  "AllowedIPsMatchCIDR spec =
     (case ParsePrefix (sp_PodCIDR spec) of
        None \<Rightarrow> False
      | Some c \<Rightarrow>
          sp_AllowedIPs spec \<noteq> []
          \<and> list_all (\<lambda>s. case ParsePrefix s of None \<Rightarrow> False | Some a \<Rightarrow> Masked a = Masked c) (sp_AllowedIPs spec))"

definition knownCandidates :: "netv1 \<Rightarrow> MeshPeerSpec \<Rightarrow> MeshPeerSpec" where
  "knownCandidates nv spec =
     (if sp_Endpoints spec = [] then spec
      else spec\<lparr>sp_Endpoints := filter (\<lambda>c. ec_Link c \<in> {nv_Underlay nv, nv_Direct nv}) (sp_Endpoints spec)\<rparr>)"

definition selectEndpoint :: "netv1 \<Rightarrow> MeshPeerSpec \<Rightarrow> string" where
  "selectEndpoint nv spec =
     (case find (\<lambda>c. ec_Link c = nv_Underlay nv) (sp_Endpoints spec) of
        Some c \<Rightarrow> ec_Address c | None \<Rightarrow> sp_Endpoint spec)"

definition wgKeyHex :: "string \<Rightarrow> string option" where
  "wgKeyHex b64 =
     (case b64_decode b64 of
        None \<Rightarrow> None
      | Some raw \<Rightarrow> if length raw \<noteq> wgKeyBytes then None else Some (hex_encode raw))"

fun allowed_loop :: "string list \<Rightarrow> prefix list option" where
  "allowed_loop [] = Some []"
| "allowed_loop (s # ss) =
     (case ParsePrefix s of
        None \<Rightarrow> None
      | Some a \<Rightarrow> map_option (\<lambda>as. Masked a # as) (allowed_loop ss))"

definition peerConfigFromSpec :: "netv1 \<Rightarrow> MeshPeerSpec \<Rightarrow> PeerConfig option" where
  "peerConfigFromSpec nv spec =
     (case wgKeyHex (sp_PublicKey spec) of
        None \<Rightarrow> None
      | Some keyHex \<Rightarrow>
          (case allowed_loop (sp_AllowedIPs spec) of
             None \<Rightarrow> None
           | Some allowed \<Rightarrow>
               Some \<lparr>pc_NodeName = sp_NodeName spec, pc_PublicKeyHex = keyHex, pc_Endpoint = sp_Endpoint spec,
                 pc_AllowedIPs = allowed,
                 pc_KeepaliveSeconds = (if sp_PersistentKeepaliveSeconds spec = 0 then nv_Keepalive nv
                                        else sp_PersistentKeepaliveSeconds spec)\<rparr>))"

text \<open>One peer of the loop: skipped, the node itself, or included.\<close>

datatype peer_verdict = PeerSkipped PeerSkip | PeerSelf | PeerIncluded MeshPeerSpec PeerConfig

definition judge_peer :: "netv1 \<Rightarrow> prefix \<Rightarrow> MeshPeerSpec \<Rightarrow> peer_verdict" where
  "judge_peer nv self raw =
     (let spec = knownCandidates nv (nv_WithDefaults nv raw);
          skip = (\<lambda>r. PeerSkipped \<lparr>ps_NodeName = sp_NodeName spec, ps_PodCIDR = sp_PodCIDR spec, ps_Reason = r\<rparr>) in
      if \<not> nv_Validate nv spec then skip InvalidSpec
      else if sp_SchemaVersion spec \<noteq> nv_SchemaVersion nv then skip UnsupportedSchema
      else case ParsePrefix (sp_PodCIDR spec) of
        None \<Rightarrow> skip MalformedCIDR
      | Some c \<Rightarrow>
          if EqualCIDR (Masked c) self then PeerSelf
          else if \<not> AllowedIPsMatchCIDR spec then skip AllowedMismatch
          else (case peerConfigFromSpec nv spec of
                  None \<Rightarrow> skip BadConfig
                | Some pc \<Rightarrow> PeerIncluded spec (pc\<lparr>pc_Endpoint := selectEndpoint nv spec\<rparr>)))"

fun plan_loop ::
  "netv1 \<Rightarrow> prefix \<Rightarrow> MeshPeerSpec list \<Rightarrow> PeerConfig list \<times> PeerSkip list \<times> MeshPeerSpec list" where
  "plan_loop nv self [] = ([], [], [])"
| "plan_loop nv self (raw # raws) =
     (case plan_loop nv self raws of
        (peers, skipped, included) \<Rightarrow>
          (case judge_peer nv self raw of
             PeerSkipped s \<Rightarrow> (peers, s # skipped, included)
           | PeerSelf \<Rightarrow> (peers, skipped, included)
           | PeerIncluded spec pc \<Rightarrow> (pc # peers, skipped, spec # included)))"

definition BuildPlan :: "netv1 \<Rightarrow> prefix \<Rightarrow> MeshPeerSpec list \<Rightarrow> mesh_error + Plan" where
  "BuildPlan nv self0 peers =
     (let self = Masked self0 in
      if \<not> is_node_cidr self then Inl ErrSelfCIDR
      else case plan_loop nv self peers of
        (pcs, skipped, included) \<Rightarrow>
          (case RouteSet self included of
             Inl e \<Rightarrow> Inl e
           | Inr utun \<Rightarrow> Inr \<lparr>pl_Peers = pcs, pl_Routes = utun, pl_Skipped = skipped\<rparr>))"

definition ValidatePlan :: "netv1 \<Rightarrow> prefix \<Rightarrow> MeshPeerSpec list \<Rightarrow> mesh_error + Plan" where
  "ValidatePlan nv self peers =
     (case BuildPlan nv self peers of
        Inl e \<Rightarrow> Inl e
      | Inr plan \<Rightarrow>
          if pl_Skipped plan \<noteq> [] then Inl ErrPeerConfig
          else if list_ex (\<lambda>pc. list_ex (\<lambda>a. \<not> is_node_cidr a) (pc_AllowedIPs pc)) (pl_Peers plan) then Inl ErrPeerConfig
          else Inr plan)"

section \<open>The device text\<close>

definition nl :: string where
  "nl = [CHR 0x0A]"

text \<open>\<open>prev\<close>: the endpoints applied last, by key; the keys that are gone are removed in order.\<close>

definition gone_lines :: "PeerConfig list \<Rightarrow> (string \<times> string) list \<Rightarrow> string" where
  "gone_lines peers prev =
     concat (map (\<lambda>k. ''public_key='' @ k @ nl @ ''remove=true'' @ nl)
       (sort (filter (\<lambda>k. k \<notin> pc_PublicKeyHex ` set peers) (map fst prev))))"

definition peer_lines :: "(string \<times> string) list \<Rightarrow> PeerConfig \<Rightarrow> string" where
  "peer_lines prev pc =
     ''public_key='' @ pc_PublicKeyHex pc @ nl
     @ (if pc_Endpoint pc \<noteq> [] \<and> map_of prev (pc_PublicKeyHex pc) \<noteq> Some (pc_Endpoint pc)
        then ''endpoint='' @ pc_Endpoint pc @ nl else [])
     @ ''persistent_keepalive_interval='' @ Itoa_int (pc_KeepaliveSeconds pc) @ nl
     @ ''replace_allowed_ips=true'' @ nl
     @ concat (map (\<lambda>a. ''allowed_ip='' @ prefix_String a @ nl) (pc_AllowedIPs pc))"

definition UAPIUpdate :: "Plan \<Rightarrow> (string \<times> string) list \<Rightarrow> string \<times> (string \<times> string) list" where
  "UAPIUpdate p prev =
     ((if prev = [] then ''replace_peers=true'' @ nl else gone_lines (pl_Peers p) prev)
        @ concat (map (peer_lines prev) (pl_Peers p)),
      foldl (\<lambda>m pc. AList.update (pc_PublicKeyHex pc) (pc_Endpoint pc) m) [] (pl_Peers p))"

definition UAPI :: "Plan \<Rightarrow> string" where
  "UAPI p = fst (UAPIUpdate p [])"

section \<open>The mesh of a node\<close>

text \<open>The device behind the mesh: it comes up, applies a plan and goes down, each of which may fail.\<close>

record 'd Device =
  dv_Up :: "'d \<Rightarrow> bool \<times> 'd"
  dv_Apply :: "Plan \<Rightarrow> 'd \<Rightarrow> bool \<times> 'd"
  dv_Down :: "'d \<Rightarrow> bool \<times> 'd"

record 'd Mesh =
  ms_self :: prefix
  ms_meshIP :: addr
  ms_started :: bool
  ms_applied :: Plan
  ms_dev :: 'd

datatype mesh_failure = MeshBadSelf | MeshDerive podnet_error | MeshStart | MeshBuild mesh_error | MeshApply | MeshDown

definition NoPlan :: Plan where
  "NoPlan = \<lparr>pl_Peers = [], pl_Routes = [], pl_Skipped = []\<rparr>"

text \<open>The device is given the mesh address and the link address, which New derives first.\<close>

definition mesh_New :: "(addr \<Rightarrow> addr \<Rightarrow> 'd) \<Rightarrow> prefix \<Rightarrow> mesh_failure + 'd Mesh" where
  "mesh_New newDevice self =
     (let s = Masked self in
      if \<not> is_node_cidr s then Inl MeshBadSelf
      else case MeshEgressIP s of
        Inl e \<Rightarrow> Inl (MeshDerive e)
      | Inr meshIP \<Rightarrow>
          (case MeshLinkIP s of
             Inl e \<Rightarrow> Inl (MeshDerive e)
           | Inr linkIP \<Rightarrow>
               Inr \<lparr>ms_self = s, ms_meshIP = meshIP, ms_started = False, ms_applied = NoPlan,
                 ms_dev = newDevice meshIP linkIP\<rparr>))"

definition mesh_Start :: "'d Device \<Rightarrow> 'd Mesh \<Rightarrow> mesh_failure option \<times> 'd Mesh" where
  "mesh_Start dv m =
     (if ms_started m then (None, m)
      else case dv_Up dv (ms_dev m) of
        (False, d) \<Rightarrow> (Some MeshStart, m\<lparr>ms_dev := d\<rparr>)
      | (True, d) \<Rightarrow> (None, m\<lparr>ms_dev := d, ms_started := True\<rparr>))"

definition mesh_Reconcile :: "netv1 \<Rightarrow> 'd Device \<Rightarrow> MeshPeerSpec list \<Rightarrow> 'd Mesh \<Rightarrow> mesh_failure option \<times> 'd Mesh" where
  "mesh_Reconcile nv dv peers m =
     (case BuildPlan nv (ms_self m) peers of
        Inl e \<Rightarrow> (Some (MeshBuild e), m)
      | Inr plan \<Rightarrow>
          (case dv_Apply dv plan (ms_dev m) of
             (False, d) \<Rightarrow> (Some MeshApply, m\<lparr>ms_dev := d\<rparr>)
           | (True, d) \<Rightarrow> (None, m\<lparr>ms_dev := d, ms_applied := plan\<rparr>)))"

definition mesh_Close :: "'d Device \<Rightarrow> 'd Mesh \<Rightarrow> mesh_failure option \<times> 'd Mesh" where
  "mesh_Close dv m =
     (if \<not> ms_started m then (None, m)
      else case dv_Down dv (ms_dev m) of
        (ok, d) \<Rightarrow> (if ok then None else Some MeshDown, m\<lparr>ms_started := False, ms_dev := d\<rparr>))"

section \<open>Node prefixes\<close>

lemma NoPrefix_pfx4 [simp]: "NoPrefix \<noteq> pfx4 v k"
  by (simp add: NoPrefix_def pfx4_def)

lemma node_cidr_Masked:
  assumes "is_node_cidr (Masked c)"
  obtains v where "Masked c = pfx4 v 24" and "v AND NOT (mask 8) = v"
proof -
  have i: "Is4 (p_ip (Masked c))" "Bits (Masked c) = 24" using assms by (simp_all add: is_node_cidr_def)
  then have "prefix_IsValid (Masked c)" by (auto simp: prefix_IsValid_def Bits_def)
  then obtain v k where v: "Masked c = pfx4 v k" using i(1) by (rule pfx4_cases)
  have k: "k = 24" using i(2) v by simp
  obtain w where "p_ip c = IPv4 w"
    using i(1) by (cases "p_ip c") (auto simp: Masked_def Let_def PrefixFrom_def NoPrefix_def Is4_iff split: if_split_asm)
  then have "c = pfx4 w (bitsPlusOne c - 1)" if "0 < bitsPlusOne c" using that by (simp add: pfx4_def)
  moreover have "0 < bitsPlusOne c" using i(1) by (auto simp: Masked_def Let_def Bits_def Is4_iff split: if_split_asm)
  ultimately obtain j where "c = pfx4 w j" by blast
  then have "Masked c = pfx4 (w AND NOT (mask (32 - j))) j" "j = 24"
    using v k by (auto simp: Masked_pfx4 split: if_split_asm)
  then show thesis using that [of "w AND NOT (mask 8)"] by simp
qed

lemma Masked_idem: "is_node_cidr (Masked c) \<Longrightarrow> Masked (Masked c) = Masked c"
  by (erule node_cidr_Masked) (simp add: Masked_pfx4)

lemma overlaps_node_cidr:
  assumes "is_node_cidr (Masked c)" and "is_node_cidr (Masked d)"
  shows "prefix_Overlaps (Masked c) (Masked d) \<longleftrightarrow> Masked c = Masked d"
proof -
  obtain v w where v: "Masked c = pfx4 v 24" "v AND NOT (mask 8) = v" "Masked d = pfx4 w 24" "w AND NOT (mask 8) = w"
    using assms by (meson node_cidr_Masked)
  show ?thesis unfolding v(1,3) by (simp add: prefix_Overlaps_def Masked_pfx4 v(2,4))
qed

lemma node_cidr_ip_inj:
  "is_node_cidr (Masked c) \<Longrightarrow> is_node_cidr (Masked d) \<Longrightarrow> p_ip (Masked c) = p_ip (Masked d) \<Longrightarrow> Masked c = Masked d"
  by (erule node_cidr_Masked, erule node_cidr_Masked) simp

section \<open>Routes and peers\<close>

definition routable :: "prefix \<Rightarrow> string \<Rightarrow> prefix \<Rightarrow> bool" where
  "routable self cidr c \<longleftrightarrow> (\<exists>c0. ParsePrefix cidr = Some c0 \<and> c = Masked c0 \<and> is_node_cidr c \<and> \<not> prefix_Overlaps c self)"

lemma route_loop_spec:
  "set (route_loop self cidrs out) = set out \<union> {c. \<exists>cidr \<in> set cidrs. routable self cidr c}
    \<and> (distinct out \<longrightarrow> distinct (route_loop self cidrs out))"
proof (induction self cidrs out rule: route_loop.induct)
  case (2 self cidr cidrs out)
  show ?case
  proof (cases "ParsePrefix cidr")
    case None
    then show ?thesis using 2 by (simp add: routable_def)
  next
    case (Some c0)
    have r: "routable self cidr c \<longleftrightarrow> c = Masked c0 \<and> is_node_cidr (Masked c0) \<and> \<not> prefix_Overlaps (Masked c0) self" for c
      using Some by (auto simp: routable_def)
    show ?thesis
      using "2.IH" Some by (auto simp: r Let_def)
  qed
qed simp

lemma RouteSet_spec:
  assumes "RouteSet self peers = Inr routes"
  shows "set routes = {c. \<exists>p \<in> set peers. routable (Masked self) (sp_PodCIDR p) c}"
    and "sorted_wrt (<) (map p_ip routes)"
proof -
  let ?l = "route_loop (Masked self) (map sp_PodCIDR peers) []"
  have r: "routes = sort_key p_ip ?l" using assms by (auto simp: RouteSet_def Let_def split: if_split_asm)
  have l: "set ?l = {c. \<exists>p \<in> set peers. routable (Masked self) (sp_PodCIDR p) c}" "distinct ?l"
    using route_loop_spec [of "Masked self" "map sp_PodCIDR peers" "[]"] by auto
  show "set routes = {c. \<exists>p \<in> set peers. routable (Masked self) (sp_PodCIDR p) c}" by (simp add: r l)
  have "inj_on p_ip (set ?l)"
    unfolding l(1) by (rule inj_onI) (auto simp: routable_def intro: node_cidr_ip_inj)
  then have "distinct (map p_ip routes)" using l(2) by (simp add: r distinct_map)
  moreover have "sorted (map p_ip routes)" by (simp add: r)
  ultimately show "sorted_wrt (<) (map p_ip routes)" by (simp add: strict_sorted_iff)
qed

lemma allowed_loop_match:
  "allowed_loop ss = Some as \<Longrightarrow>
    list_all (\<lambda>s. case ParsePrefix s of None \<Rightarrow> False | Some a \<Rightarrow> Masked a = m) ss \<Longrightarrow> as = replicate (length ss) m"
  by (induction ss arbitrary: as) (auto split: option.split_asm)

lemma judge_included:
  assumes "judge_peer nv self raw = PeerIncluded spec pc"
  obtains c where "ParsePrefix (sp_PodCIDR spec) = Some c" "Masked (Masked c) \<noteq> Masked self"
    "set (pc_AllowedIPs pc) = {Masked c}" "\<exists>k. pc_PublicKeyHex pc = hex_encode k \<and> length k = wgKeyBytes"
    "pc_NodeName pc = sp_NodeName spec"
proof -
  obtain c pc0 where c: "ParsePrefix (sp_PodCIDR spec) = Some c" "Masked (Masked c) \<noteq> Masked self" "AllowedIPsMatchCIDR spec"
      "peerConfigFromSpec nv spec = Some pc0" "pc = pc0\<lparr>pc_Endpoint := selectEndpoint nv spec\<rparr>"
    using assms by (auto simp: judge_peer_def Let_def EqualCIDR_def split: if_split_asm option.split_asm)
  obtain k as where k: "wgKeyHex (sp_PublicKey spec) = Some k" "allowed_loop (sp_AllowedIPs spec) = Some as"
      "pc_PublicKeyHex pc = k" "pc_AllowedIPs pc = as" "pc_NodeName pc = sp_NodeName spec"
    using c(4,5) by (auto simp: peerConfigFromSpec_def split: option.split_asm)
  have "sp_AllowedIPs spec \<noteq> []" "as = replicate (length (sp_AllowedIPs spec)) (Masked c)"
    using c(1,3) allowed_loop_match [OF k(2)] by (auto simp: AllowedIPsMatchCIDR_def)
  then have "set (pc_AllowedIPs pc) = {Masked c}" using k(4) by simp
  moreover have "\<exists>r. k = hex_encode r \<and> length r = wgKeyBytes"
    using k(1) by (auto simp: wgKeyHex_def split: option.split_asm if_split_asm)
  ultimately show thesis using that [OF c(1,2)] k(3,5) by blast
qed

lemma plan_loop_pairs:
  "plan_loop nv self raws = (pcs, sk, inc) \<Longrightarrow>
    list_all2 (\<lambda>pc spec. \<exists>raw \<in> set raws. judge_peer nv self raw = PeerIncluded spec pc) pcs inc
    \<and> set sk = {s. \<exists>raw \<in> set raws. judge_peer nv self raw = PeerSkipped s}
    \<and> (\<forall>raw \<in> set raws. \<forall>spec pc. judge_peer nv self raw = PeerIncluded spec pc \<longrightarrow> pc \<in> set pcs \<and> spec \<in> set inc)"
proof (induction raws arbitrary: pcs sk inc)
  case (Cons raw raws)
  obtain pcs1 sk1 inc1 where p: "plan_loop nv self raws = (pcs1, sk1, inc1)" by (cases "plan_loop nv self raws")
  note ih = Cons.IH [OF p]
  have m: "list_all2 (\<lambda>pc spec. \<exists>raw \<in> set (raw # raws). judge_peer nv self raw = PeerIncluded spec pc) pcs1 inc1"
    using ih by (auto elim!: list_all2_mono)
  show ?case
    using Cons.prems p ih m by (cases "judge_peer nv self raw") auto
qed simp

lemma plan_loop_isolates:
  "plan_loop nv self raws = (pcs, sk, inc) \<Longrightarrow>
    plan_loop nv self (filter (\<lambda>r. \<not> (\<exists>s. judge_peer nv self r = PeerSkipped s)) raws) = (pcs, [], inc)"
proof (induction raws arbitrary: pcs sk inc)
  case (Cons raw raws)
  obtain pcs1 sk1 inc1 where p: "plan_loop nv self raws = (pcs1, sk1, inc1)" by (cases "plan_loop nv self raws")
  show ?case
    using Cons.prems p Cons.IH [OF p] by (cases "judge_peer nv self raw") auto
qed simp

lemma list_all2_in_set1: "list_all2 P xs ys \<Longrightarrow> x \<in> set xs \<Longrightarrow> \<exists>y \<in> set ys. P x y"
  by (induction xs ys rule: list_all2_induct) auto

lemma list_all2_in_set2: "list_all2 P xs ys \<Longrightarrow> y \<in> set ys \<Longrightarrow> \<exists>x \<in> set xs. P x y"
  by (induction xs ys rule: list_all2_induct) auto

lemma included_both:
  assumes "plan_loop nv self raws = (pcs, sk, inc)"
  shows "pc \<in> set pcs \<Longrightarrow> \<exists>raw spec. judge_peer nv self raw = PeerIncluded spec pc \<and> spec \<in> set inc"
    and "spec \<in> set inc \<Longrightarrow> \<exists>raw pc. judge_peer nv self raw = PeerIncluded spec pc \<and> pc \<in> set pcs"
proof -
  note ps = plan_loop_pairs [OF assms, THEN conjunct1]
  show "\<exists>raw spec. judge_peer nv self raw = PeerIncluded spec pc \<and> spec \<in> set inc" if "pc \<in> set pcs"
    using list_all2_in_set1 [OF ps that] by blast
  show "\<exists>raw pc. judge_peer nv self raw = PeerIncluded spec pc \<and> pc \<in> set pcs" if "spec \<in> set inc"
    using list_all2_in_set2 [OF ps that] by blast
qed

lemma included_cidr:
  assumes "is_node_cidr self" "Masked self = self" "judge_peer nv self raw = PeerIncluded spec pc"
    "\<forall>a \<in> set (pc_AllowedIPs pc). is_node_cidr a"
  obtains c where "set (pc_AllowedIPs pc) = {c}" "is_node_cidr c" "c \<noteq> self"
    "\<And>d. routable self (sp_PodCIDR spec) d \<longleftrightarrow> d = c"
proof -
  obtain c where c: "ParsePrefix (sp_PodCIDR spec) = Some c" "Masked (Masked c) \<noteq> Masked self"
      "set (pc_AllowedIPs pc) = {Masked c}" by (rule judge_included [OF assms(3)])
  have n: "is_node_cidr (Masked c)" using assms(4) c(3) by simp
  have ne: "Masked c \<noteq> self" using c(2) Masked_idem [OF n] assms(2) by simp
  have "\<not> prefix_Overlaps (Masked c) self" using overlaps_node_cidr [OF n, of self, unfolded assms(2), OF assms(1)] ne by simp
  then have "routable self (sp_PodCIDR spec) d \<longleftrightarrow> d = Masked c" for d
    unfolding routable_def c(1) using n by blast
  then show thesis by (rule that [OF c(3) n ne])
qed

text \<open>Where every allowed prefix is a node /24 the routes are exactly the allowed prefixes.\<close>

lemma routes_are_allowed:
  assumes "is_node_cidr self" "Masked self = self" "plan_loop nv self raws = (pcs, sk, inc)"
    "RouteSet self inc = Inr routes" "\<forall>pc \<in> set pcs. \<forall>a \<in> set (pc_AllowedIPs pc). is_node_cidr a"
  shows "\<forall>pc \<in> set pcs. \<exists>c. set (pc_AllowedIPs pc) = {c} \<and> is_node_cidr c \<and> c \<noteq> self"
    and "set routes = (\<Union>pc \<in> set pcs. set (pc_AllowedIPs pc))"
proof -
  note both = included_both [OF assms(3)] and rs = RouteSet_spec(1) [OF assms(4), unfolded assms(2)]
  have one: "\<exists>c. set (pc_AllowedIPs pc) = {c} \<and> is_node_cidr c \<and> c \<noteq> self
      \<and> (\<forall>d. routable self (sp_PodCIDR spec) d \<longleftrightarrow> d = c)"
    if "pc \<in> set pcs" "judge_peer nv self raw = PeerIncluded spec pc" for raw spec pc
    by (rule included_cidr [OF assms(1,2) that(2)]) (use assms(5) that(1) in blast)+
  show "\<forall>pc \<in> set pcs. \<exists>c. set (pc_AllowedIPs pc) = {c} \<and> is_node_cidr c \<and> c \<noteq> self"
    using both(1) one by blast
  show "set routes = (\<Union>pc \<in> set pcs. set (pc_AllowedIPs pc))"
  proof (intro equalityI subsetI)
    fix c assume "c \<in> set routes"
    then obtain spec where s: "spec \<in> set inc" "routable self (sp_PodCIDR spec) c" unfolding rs by blast
    obtain raw pc where f: "judge_peer nv self raw = PeerIncluded spec pc" "pc \<in> set pcs" using both(2) [OF s(1)] by blast
    obtain d where "set (pc_AllowedIPs pc) = {d}" "routable self (sp_PodCIDR spec) c \<longleftrightarrow> c = d" using one [OF f(2,1)] by blast
    then have "c \<in> set (pc_AllowedIPs pc)" using s(2) by simp
    then show "c \<in> (\<Union>pc \<in> set pcs. set (pc_AllowedIPs pc))" using f(2) by blast
  next
    fix c assume "c \<in> (\<Union>pc \<in> set pcs. set (pc_AllowedIPs pc))"
    then obtain pc where pc: "pc \<in> set pcs" "c \<in> set (pc_AllowedIPs pc)" by blast
    obtain raw spec where f: "judge_peer nv self raw = PeerIncluded spec pc" "spec \<in> set inc" using both(1) [OF pc(1)] by blast
    obtain d where "set (pc_AllowedIPs pc) = {d}" "routable self (sp_PodCIDR spec) c \<longleftrightarrow> c = d" using one [OF pc(1) f(1)] by blast
    then have "routable self (sp_PodCIDR spec) c" using pc(2) by simp
    then show "c \<in> set routes" unfolding rs using f(2) by blast
  qed
qed

text \<open>The addresses New derives exist for every node prefix, and a mesh it returns always has a plan.\<close>

lemma mesh_New_ok:
  assumes "is_node_cidr (Masked self)"
  shows "\<exists>m. mesh_New nd self = Inr m \<and> ms_self m = Masked self"
proof -
  obtain v where "Masked self = pfx4 v 24" by (rule node_cidr_Masked [OF assms])
  then show ?thesis using assms by (simp add: mesh_New_def MeshEgressIP_pfx4 MeshLinkIP_pfx4)
qed

lemma mesh_Reconcile_builds:
  assumes "mesh_New nd self = Inr m"
  shows "\<exists>plan. BuildPlan nv (ms_self m) peers = Inr plan"
proof -
  have "is_node_cidr (Masked self)" "ms_self m = Masked self"
    using assms by (auto simp: mesh_New_def Let_def split: if_split_asm sum.split_asm)
  then show ?thesis
    using Masked_idem [of self]
    by (cases "plan_loop nv (Masked self) peers") (simp add: BuildPlan_def RouteSet_def Let_def)
qed

definition demo_netv1 :: netv1 where
  "demo_netv1 = \<lparr>nv_WithDefaults = (\<lambda>s. s), nv_Validate = (\<lambda>s. sp_PodCIDR s \<noteq> []), nv_SchemaVersion = 1,
     nv_Underlay = ''underlay'', nv_Direct = ''direct'', nv_Keepalive = 25\<rparr>"

definition demo_key :: string where
  "demo_key = replicate 32 (CHR 0x07)"

definition demo_peer :: "string \<Rightarrow> string \<Rightarrow> MeshPeerSpec" where
  "demo_peer name cidr = \<lparr>sp_SchemaVersion = 1, sp_NodeName = name, sp_PublicKey = b64_encode demo_key,
     sp_Endpoint = ''192.168.1.2:51820'', sp_Endpoints = [], sp_PodCIDR = cidr, sp_AllowedIPs = [cidr],
     sp_PersistentKeepaliveSeconds = 0\<rparr>"

definition demo_peers :: "MeshPeerSpec list" where
  "demo_peers = [demo_peer ''b'' ''10.42.2.0/24'', demo_peer ''self'' ''10.42.1.0/24'', demo_peer ''c'' ''10.42.0.0/24'']"

lemma demo_peer_cidr: "sp_PodCIDR (demo_peer name cidr) = cidr"
  by (simp add: demo_peer_def)

lemma demo_judge:
  assumes "ParsePrefix cidr = Some c" "cidr \<noteq> []"
  shows "judge_peer demo_netv1 self (demo_peer name cidr) =
    (if Masked (Masked c) = Masked self then PeerSelf
     else PeerIncluded (demo_peer name cidr)
       \<lparr>pc_NodeName = name, pc_PublicKeyHex = hex_encode demo_key, pc_Endpoint = ''192.168.1.2:51820'',
         pc_AllowedIPs = [Masked c], pc_KeepaliveSeconds = 25\<rparr>)"
proof -
  have "length demo_key = wgKeyBytes" by (simp add: demo_key_def wgKeyBytes_def)
  then show ?thesis
    using assms
    by (simp add: judge_peer_def Let_def demo_netv1_def demo_peer_def knownCandidates_def EqualCIDR_def AllowedIPsMatchCIDR_def
      peerConfigFromSpec_def wgKeyHex_def selectEndpoint_def)
qed

lemma demo_cidrs:
  "ParsePrefix ''10.42.2.0/24'' = Some (pfx4 0x0A2A0200 24)" "ParsePrefix ''10.42.1.0/24'' = Some (pfx4 0x0A2A0100 24)"
  "ParsePrefix ''10.42.0.0/24'' = Some (pfx4 0x0A2A0000 24)"
  "Masked (pfx4 0x0A2A0200 24) = pfx4 0x0A2A0200 24" "Masked (pfx4 0x0A2A0100 24) = pfx4 0x0A2A0100 24"
  "Masked (pfx4 0x0A2A0000 24) = pfx4 0x0A2A0000 24"
  by code_simp+

lemma demo_routes:
  "is_node_cidr (pfx4 0x0A2A0100 24)" "is_node_cidr (pfx4 0x0A2A0200 24)" "is_node_cidr (pfx4 0x0A2A0000 24)"
  "length (route_loop (pfx4 0x0A2A0100 24) [''10.42.2.0/24'', ''10.42.0.0/24''] []) = 2"
  by code_simp+

section \<open>Properties\<close>

text \<open>C13. A plan is sound: a peer that is skipped does not change what the others get; a validated plan
  skips nobody, gives each peer exactly one allowed prefix, an IPv4 /24 other than the node's own,
  and routes exactly these prefixes, in strictly increasing order and none overlapping the node's.\<close>

theorem mesh_plan_sound:
  assumes "BuildPlan nv self peers = Inr plan"
  shows "BuildPlan nv self (filter (\<lambda>r. \<not> (\<exists>s. judge_peer nv (Masked self) r = PeerSkipped s)) peers)
      = Inr (plan\<lparr>pl_Skipped := []\<rparr>)
    \<and> (ValidatePlan nv self peers = Inr plan \<longrightarrow>
        (\<forall>raw \<in> set peers. judge_peer nv (Masked self) raw = PeerSelf
           \<or> (\<exists>spec pc. judge_peer nv (Masked self) raw = PeerIncluded spec pc \<and> pc \<in> set (pl_Peers plan)))
        \<and> (\<forall>pc \<in> set (pl_Peers plan). \<exists>c. set (pc_AllowedIPs pc) = {c} \<and> is_node_cidr c \<and> c \<noteq> Masked self)
        \<and> set (pl_Routes plan) = (\<Union>pc \<in> set (pl_Peers plan). set (pc_AllowedIPs pc))
        \<and> sorted_wrt (<) (map p_ip (pl_Routes plan))
        \<and> (\<forall>r \<in> set (pl_Routes plan). \<not> prefix_Overlaps r (Masked self)))"
proof -
  obtain pcs sk inc where l: "plan_loop nv (Masked self) peers = (pcs, sk, inc)"
    by (cases "plan_loop nv (Masked self) peers")
  obtain routes where b: "is_node_cidr (Masked self)" "RouteSet (Masked self) inc = Inr routes"
      "plan = \<lparr>pl_Peers = pcs, pl_Routes = routes, pl_Skipped = sk\<rparr>"
    using assms l by (auto simp: BuildPlan_def Let_def split: if_split_asm sum.split_asm)
  note ps = plan_loop_pairs [OF l] and rs = RouteSet_spec [OF b(2)]
  have mm: "Masked (Masked self) = Masked self" by (rule Masked_idem [OF b(1)])
  have iso: "BuildPlan nv self (filter (\<lambda>r. \<not> (\<exists>s. judge_peer nv (Masked self) r = PeerSkipped s)) peers)
      = Inr (plan\<lparr>pl_Skipped := []\<rparr>)"
    using b plan_loop_isolates [OF l] by (simp add: BuildPlan_def)
  have all: "judge_peer nv (Masked self) raw = PeerSelf
      \<or> (\<exists>spec pc. judge_peer nv (Masked self) raw = PeerIncluded spec pc \<and> pc \<in> set pcs)" if "sk = []" "raw \<in> set peers" for raw
    using ps that by (cases "judge_peer nv (Masked self) raw") auto
  have ov: "\<forall>r \<in> set routes. \<not> prefix_Overlaps r (Masked self)"
    unfolding rs(1) mm by (auto simp: routable_def)
  show ?thesis
  proof (intro conjI impI iso)
    assume "ValidatePlan nv self peers = Inr plan"
    then have v: "sk = []" "\<forall>pc \<in> set pcs. \<forall>a \<in> set (pc_AllowedIPs pc). is_node_cidr a"
      using assms b(3) by (auto simp: ValidatePlan_def list_ex_iff split: if_split_asm)
    note ra = routes_are_allowed [OF b(1) mm l b(2) v(2)]
    show "\<forall>raw \<in> set peers. judge_peer nv (Masked self) raw = PeerSelf
        \<or> (\<exists>spec pc. judge_peer nv (Masked self) raw = PeerIncluded spec pc \<and> pc \<in> set (pl_Peers plan))"
      using all [OF v(1)] b(3) by simp
    show "\<forall>pc \<in> set (pl_Peers plan). \<exists>c. set (pc_AllowedIPs pc) = {c} \<and> is_node_cidr c \<and> c \<noteq> Masked self"
      and "set (pl_Routes plan) = (\<Union>pc \<in> set (pl_Peers plan). set (pc_AllowedIPs pc))"
      and "sorted_wrt (<) (map p_ip (pl_Routes plan))"
      and "\<forall>r \<in> set (pl_Routes plan). \<not> prefix_Overlaps r (Masked self)"
      using ra rs(2) ov by (simp_all add: b(3))
  qed
qed

theorem mesh_plan_sound_witness:
  "\<exists>plan. BuildPlan demo_netv1 (pfx4 0x0A2A0100 24) demo_peers = Inr plan
     \<and> set (pl_Routes plan) = (\<Union>pc \<in> set (pl_Peers plan). set (pc_AllowedIPs pc)) \<and> length (pl_Routes plan) = 2"
proof -
  have "plan_loop demo_netv1 (pfx4 0x0A2A0100 24) demo_peers = (map (\<lambda>(n, c). \<lparr>pc_NodeName = n, pc_PublicKeyHex = hex_encode demo_key,
      pc_Endpoint = ''192.168.1.2:51820'', pc_AllowedIPs = [c], pc_KeepaliveSeconds = 25\<rparr>)
      [(''b'', pfx4 0x0A2A0200 24), (''c'', pfx4 0x0A2A0000 24)], [],
      [demo_peer ''b'' ''10.42.2.0/24'', demo_peer ''c'' ''10.42.0.0/24''])"
    unfolding demo_peers_def by (simp add: demo_judge demo_cidrs)
  then obtain plan where v: "ValidatePlan demo_netv1 (pfx4 0x0A2A0100 24) demo_peers = Inr plan"
      and b: "BuildPlan demo_netv1 (pfx4 0x0A2A0100 24) demo_peers = Inr plan" and n: "length (pl_Routes plan) = 2"
    by (simp add: ValidatePlan_def BuildPlan_def RouteSet_def Let_def demo_cidrs demo_routes demo_peer_cidr del: route_loop.simps)
  from mesh_plan_sound [OF b] v b n show ?thesis by simp
qed

end
