(* ===== verification/Policy.thy ===== *)
theory Policy
  imports Netip
begin

text \<open>
  The NetworkPolicy subset of the service proxy: the verdict table (\<^verbatim>\<open>pkg/proxy/policy.go\<close>) and the
  watcher that resolves policies, pods and namespaces into it (\<^verbatim>\<open>policywatch.go\<close>).

  The API objects belong to Kubernetes; the records here have the fields the code reads, and the
  informer stores are lists of objects. What a label selector matches is the argument
  \<open>kb_Selector\<close> (\<^verbatim>\<open>metav1.LabelSelectorAsSelector\<close>, \<open>None\<close> where it does not parse). Times are
  nanoseconds; a time that was never set is \<open>None\<close>.
\<close>

section \<open>The verdict table\<close>

record PolicyRule =
  pr_Sources :: "addr set option"
  pr_Ports :: "u16 set option"

record PolicyTable =
  pt_alwaysAllow :: "addr set"
  pt_vmnet :: prefix
  pt_selected :: "addr \<rightharpoonup> PolicyRule list"
  pt_known :: "addr set"
  pt_lastUnknownWarn :: "int option"
  pt_lastVMUnknownLog :: "int option"
  pt_lastDenyLog :: "int option"
  pt_evalCount :: u64

definition policyLogThrottle :: int where
  "policyLogThrottle = 10 * 1000000000"

definition NewPolicyTableVMNet :: "prefix \<Rightarrow> addr list \<Rightarrow> PolicyTable" where
  "NewPolicyTableVMNet vmnet alwaysAllow =
     \<lparr>pt_alwaysAllow = set (map Unmap (filter IsValid alwaysAllow)), pt_vmnet = vmnet, pt_selected = Map.empty,
      pt_known = {}, pt_lastUnknownWarn = None, pt_lastVMUnknownLog = None, pt_lastDenyLog = None, pt_evalCount = 0\<rparr>"

definition NewPolicyTable :: "addr list \<Rightarrow> PolicyTable" where
  "NewPolicyTable alwaysAllow = NewPolicyTableVMNet NoPrefix alwaysAllow"

text \<open>A nil map of the source is \<open>None\<close>.\<close>

definition policy_Update ::
  "(addr \<rightharpoonup> PolicyRule list) option \<Rightarrow> addr set option \<Rightarrow> PolicyTable \<Rightarrow> PolicyTable" where
  "policy_Update selected knownPodIPs t =
     t\<lparr>pt_selected := (case selected of None \<Rightarrow> Map.empty | Some m \<Rightarrow> m),
       pt_known := (case knownPodIPs of None \<Rightarrow> {} | Some k \<Rightarrow> k)\<rparr>"

definition throttled :: "int \<Rightarrow> int option \<Rightarrow> bool" where
  "throttled now since = (case since of None \<Rightarrow> False | Some t \<Rightarrow> now - t < policyLogThrottle)"

definition rule_matches :: "addr \<Rightarrow> u16 \<Rightarrow> PolicyRule \<Rightarrow> bool" where
  "rule_matches src port r \<longleftrightarrow>
     (case pr_Sources r of None \<Rightarrow> True | Some s \<Rightarrow> src \<in> s) \<and>
     (case pr_Ports r of None \<Rightarrow> True | Some p \<Rightarrow> port \<in> p)"

datatype policy_log = UnknownSourceWarn addr | UnknownVMSourceWarn addr | DeniedInfo addr

definition warnUnknownSource :: "int \<Rightarrow> addr \<Rightarrow> PolicyTable \<Rightarrow> policy_log list \<times> PolicyTable" where
  "warnUnknownSource now src t =
     (if throttled now (pt_lastUnknownWarn t) then ([], t)
      else ([UnknownSourceWarn src], t\<lparr>pt_lastUnknownWarn := Some now\<rparr>))"

definition warnUnknownVMSource :: "int \<Rightarrow> addr \<Rightarrow> PolicyTable \<Rightarrow> policy_log list \<times> PolicyTable" where
  "warnUnknownVMSource now src t =
     (if throttled now (pt_lastVMUnknownLog t) then ([], t)
      else ([UnknownVMSourceWarn src], t\<lparr>pt_lastVMUnknownLog := Some now\<rparr>))"

text \<open>A nil table is \<open>None\<close>: it logs nothing and allows everything.\<close>

definition logDenied :: "int \<Rightarrow> addr \<Rightarrow> PolicyTable option \<Rightarrow> policy_log list \<times> PolicyTable option" where
  "logDenied now src table =
     (case table of
        None \<Rightarrow> ([], None)
      | Some t \<Rightarrow>
          if throttled now (pt_lastDenyLog t) then ([], Some t)
          else ([DeniedInfo src], Some (t\<lparr>pt_lastDenyLog := Some now\<rparr>)))"

definition table_Allow ::
  "int \<Rightarrow> PolicyTable \<Rightarrow> addr \<Rightarrow> addr \<Rightarrow> u16 \<Rightarrow> (bool \<times> policy_log list) \<times> PolicyTable" where
  "table_Allow now t0 src0 backend port =
     (let t = t0\<lparr>pt_evalCount := pt_evalCount t0 + 1\<rparr>; src = Unmap src0 in
      if IsLoopback src then ((True, []), t)
      else if src \<in> pt_alwaysAllow t then ((True, []), t)
      else case pt_selected t (Unmap backend) of
        None \<Rightarrow> ((True, []), t)
      | Some rules \<Rightarrow>
          if list_ex (rule_matches src port) rules then ((True, []), t)
          else if src \<notin> pt_known t then
            if prefix_IsValid (pt_vmnet t) \<and> prefix_Contains (pt_vmnet t) src
            then (case warnUnknownVMSource now src t of (l, t') \<Rightarrow> ((False, l), t'))
            else (case warnUnknownSource now src t of (l, t') \<Rightarrow> ((True, l), t'))
          else ((False, []), t))"

definition policy_Allow ::
  "int \<Rightarrow> PolicyTable option \<Rightarrow> addr \<Rightarrow> addr \<Rightarrow> u16 \<Rightarrow> (bool \<times> policy_log list) \<times> PolicyTable option" where
  "policy_Allow now table src backend port =
     (case table of
        None \<Rightarrow> ((True, []), None)
      | Some t \<Rightarrow> (case table_Allow now t src backend port of (r, t') \<Rightarrow> (r, Some t')))"

section \<open>API objects\<close>

record 'l Pod =
  pd_Namespace :: string
  pd_Labels :: 'l
  pd_PodIPs :: "string list"
  pd_PodIP :: string
  pd_NodeName :: string

record 'l Namespace =
  ns_Name :: string
  ns_Labels :: 'l

record 'sel NetworkPolicyPeer =
  np_IPBlock :: bool
  np_NamespaceSelector :: "'sel option"
  np_PodSelector :: "'sel option"

datatype IntOrString = IntPort int | NamedPort string

record NetworkPolicyPort =
  npp_Port :: "IntOrString option"
  npp_EndPort :: "int option"

record 'sel IngressRule =
  ir_From :: "'sel NetworkPolicyPeer list"
  ir_Ports :: "NetworkPolicyPort list"

record 'sel NetworkPolicy =
  pol_Namespace :: string
  pol_Name :: string
  pol_PolicyTypes :: "string list"
  pol_PodSelector :: 'sel
  pol_Ingress :: "'sel IngressRule list"

record ('sel, 'l) kube =
  kb_Selector :: "'sel \<Rightarrow> ('l \<Rightarrow> bool) option"
  kb_PolicyTypeIngress :: string

section \<open>Resolving policies\<close>

fun add_ips :: "string list \<Rightarrow> addr list \<Rightarrow> addr list" where
  "add_ips [] out = out"
| "add_ips (s # ss) out =
     (case ParseAddr s of
        None \<Rightarrow> add_ips ss out
      | Some a \<Rightarrow> if Unmap a \<in> set out then add_ips ss out else add_ips ss (out @ [Unmap a]))"

definition podIPsOf :: "'l Pod \<Rightarrow> addr list" where
  "podIPsOf pod =
     (let out = add_ips (pd_PodIPs pod) [] in
      if pd_PodIP pod \<noteq> [] then add_ips [pd_PodIP pod] out else out)"

definition policyAppliesToIngress :: "('sel, 'l) kube \<Rightarrow> 'sel NetworkPolicy \<Rightarrow> bool" where
  "policyAppliesToIngress kb pol \<longleftrightarrow> pol_PolicyTypes pol = [] \<or> kb_PolicyTypeIngress kb \<in> set (pol_PolicyTypes pol)"

text \<open>
  The labels of the namespaces are a map keyed by name; the code ranges over it in no particular
  order, and so does nothing that depends on the order.
\<close>

fun ns_labels :: "'l Namespace list \<Rightarrow> (string \<times> 'l) list \<Rightarrow> (string \<times> 'l) list" where
  "ns_labels [] m = m"
| "ns_labels (ns # nss) m = ns_labels nss ((ns_Name ns, ns_Labels ns) # filter (\<lambda>e. fst e \<noteq> ns_Name ns) m)"

definition peerNamespaces ::
  "('sel, 'l) kube \<Rightarrow> 'sel NetworkPolicy \<Rightarrow> 'sel NetworkPolicyPeer \<Rightarrow> (string \<times> 'l) list \<Rightarrow> string list option" where
  "peerNamespaces kb pol peer nsLabels =
     (case np_NamespaceSelector peer of
        None \<Rightarrow> Some [pol_Namespace pol]
      | Some s \<Rightarrow>
          (case kb_Selector kb s of
             None \<Rightarrow> None
           | Some sel \<Rightarrow> Some (map fst (filter (\<lambda>(name, ls). sel ls) nsLabels))))"

definition peer_sources :: "('l \<Rightarrow> bool) \<Rightarrow> string list \<Rightarrow> (string \<Rightarrow> 'l Pod list) \<Rightarrow> addr set" where
  "peer_sources podSel nss podsByNS =
     set (concat (map (\<lambda>ns. concat (map podIPsOf (filter (\<lambda>pod. podSel (pd_Labels pod)) (podsByNS ns)))) nss))"

fun from_loop ::
  "('sel, 'l) kube \<Rightarrow> 'sel NetworkPolicy \<Rightarrow> (string \<Rightarrow> 'l Pod list) \<Rightarrow> (string \<times> 'l) list \<Rightarrow> 'sel NetworkPolicyPeer list \<Rightarrow>
    addr set \<Rightarrow> bool \<Rightarrow> addr set \<times> bool" where
  "from_loop kb pol podsByNS nsLabels [] srcs wide = (srcs, wide)"
| "from_loop kb pol podsByNS nsLabels (peer # peers) srcs wide =
     (if np_IPBlock peer then from_loop kb pol podsByNS nsLabels peers srcs True
      else case peerNamespaces kb pol peer nsLabels of
        None \<Rightarrow> from_loop kb pol podsByNS nsLabels peers srcs True
      | Some nss \<Rightarrow>
          (case np_PodSelector peer of
             None \<Rightarrow>
               from_loop kb pol podsByNS nsLabels peers (srcs \<union> peer_sources (\<lambda>_. True) nss podsByNS) wide
           | Some s \<Rightarrow>
               (case kb_Selector kb s of
                  None \<Rightarrow> from_loop kb pol podsByNS nsLabels peers srcs True
                | Some podSel \<Rightarrow>
                    from_loop kb pol podsByNS nsLabels peers (srcs \<union> peer_sources podSel nss podsByNS) wide)))"

fun ports_loop :: "NetworkPolicyPort list \<Rightarrow> u16 set \<Rightarrow> bool \<Rightarrow> u16 set \<times> bool" where
  "ports_loop [] ports wide = (ports, wide)"
| "ports_loop (p # ps) ports wide =
     (case (npp_Port p, npp_EndPort p) of
        (Some (IntPort v), None) \<Rightarrow>
          if 1 \<le> v \<and> v \<le> 65535 then ports_loop ps (insert (word_of_int v) ports) wide
          else ports_loop ps ports wide
      | _ \<Rightarrow> ports_loop ps ports True)"

definition resolveRule ::
  "('sel, 'l) kube \<Rightarrow> 'sel NetworkPolicy \<Rightarrow> 'sel IngressRule \<Rightarrow> (string \<Rightarrow> 'l Pod list) \<Rightarrow> (string \<times> 'l) list \<Rightarrow> PolicyRule" where
  "resolveRule kb pol rule podsByNS nsLabels =
     \<lparr>pr_Sources =
        (if ir_From rule = [] then None
         else case from_loop kb pol podsByNS nsLabels (ir_From rule) {} False of
           (srcs, wide) \<Rightarrow> if wide then None else Some srcs),
      pr_Ports =
        (if ir_Ports rule = [] then None
         else case ports_loop (ir_Ports rule) {} False of (ports, wide) \<Rightarrow> if wide then None else Some ports)\<rparr>"

text \<open>The pods by namespace, and the addresses that belong to some pod; a pod without one is ignored.\<close>

fun pods_loop :: "'l Pod list \<Rightarrow> (string \<Rightarrow> 'l Pod list) \<Rightarrow> addr set \<Rightarrow> (string \<Rightarrow> 'l Pod list) \<times> addr set" where
  "pods_loop [] podsByNS known = (podsByNS, known)"
| "pods_loop (pod # pods) podsByNS known =
     (if podIPsOf pod = [] then pods_loop pods podsByNS known
      else pods_loop pods (podsByNS(pd_Namespace pod := podsByNS (pd_Namespace pod) @ [pod]))
             (known \<union> set (podIPsOf pod)))"

fun add_rules :: "PolicyRule list \<Rightarrow> addr list \<Rightarrow> (addr \<rightharpoonup> PolicyRule list) \<Rightarrow> addr \<rightharpoonup> PolicyRule list" where
  "add_rules rules [] selected = selected"
| "add_rules rules (ip # ips) selected =
     add_rules rules ips
       (selected(ip \<mapsto> (case selected ip of None \<Rightarrow> rules | Some rs \<Rightarrow> rs @ rules)))"

fun select_pods :: "('l \<Rightarrow> bool) \<Rightarrow> PolicyRule list \<Rightarrow> 'l Pod list \<Rightarrow> (addr \<rightharpoonup> PolicyRule list) \<Rightarrow> addr \<rightharpoonup> PolicyRule list" where
  "select_pods podSel rules [] selected = selected"
| "select_pods podSel rules (pod # pods) selected =
     (if \<not> podSel (pd_Labels pod) then select_pods podSel rules pods selected
      else select_pods podSel rules pods (add_rules rules (podIPsOf pod) selected))"

definition policy_key :: "'sel NetworkPolicy \<Rightarrow> string" where
  "policy_key pol = pol_Namespace pol @ ''/'' @ pol_Name pol"

record PolicyWatcher =
  pw_table :: PolicyTable
  pw_warned :: "string set"

definition warnOncePerPolicy :: "'sel NetworkPolicy \<Rightarrow> string set \<Rightarrow> string list \<times> string set" where
  "warnOncePerPolicy pol warned =
     (if policy_key pol \<in> warned then ([], warned) else ([policy_key pol], insert (policy_key pol) warned))"

definition onPolicyDelete :: "'sel NetworkPolicy option \<Rightarrow> PolicyWatcher \<Rightarrow> PolicyWatcher" where
  "onPolicyDelete obj w =
     (case obj of None \<Rightarrow> w | Some pol \<Rightarrow> w\<lparr>pw_warned := pw_warned w - {policy_key pol}\<rparr>)"

fun policies_loop ::
  "('sel, 'l) kube \<Rightarrow> (string \<Rightarrow> 'l Pod list) \<Rightarrow> (string \<times> 'l) list \<Rightarrow> 'sel NetworkPolicy list \<Rightarrow>
    (addr \<rightharpoonup> PolicyRule list) \<Rightarrow> string set \<Rightarrow> string list \<times> (addr \<rightharpoonup> PolicyRule list) \<times> string set" where
  "policies_loop kb podsByNS nsLabels [] selected warned = ([], selected, warned)"
| "policies_loop kb podsByNS nsLabels (pol # pols) selected warned =
     (let (l, warned') = warnOncePerPolicy pol warned;
          selected' =
            (if \<not> policyAppliesToIngress kb pol then selected
             else case kb_Selector kb (pol_PodSelector pol) of
               None \<Rightarrow> selected
             | Some podSel \<Rightarrow>
                 select_pods podSel (map (\<lambda>r. resolveRule kb pol r podsByNS nsLabels) (pol_Ingress pol))
                   (podsByNS (pol_Namespace pol)) selected);
          (ls, selected'', warned'') = policies_loop kb podsByNS nsLabels pols selected' warned' in
      (l @ ls, selected'', warned''))"

text \<open>The policies the watcher warns about, and the watcher after it has installed the new state.\<close>

definition recompute ::
  "('sel, 'l) kube \<Rightarrow> 'l Pod list \<Rightarrow> 'l Namespace list \<Rightarrow> 'sel NetworkPolicy list \<Rightarrow> PolicyWatcher \<Rightarrow>
    string list \<times> PolicyWatcher" where
  "recompute kb pods nss pols w =
     (let (podsByNS, known) = pods_loop pods (\<lambda>_. []) {};
          (warns, selected, warned) = policies_loop kb podsByNS (ns_labels nss []) pols Map.empty (pw_warned w) in
      (warns, w\<lparr>pw_table := policy_Update (Some selected) (Some known) (pw_table w), pw_warned := warned\<rparr>))"

section \<open>Reporting watch errors\<close>

text \<open>
  One informer's failing episode. What is read of the informer is the arguments \<open>synced\<close> and \<open>rv\<close>
  (its last resource version); an error that closes a watch cleanly is \<open>benign\<close>.
\<close>

record watchErrState =
  we_failing :: bool
  we_syncedAtFail :: bool
  we_rvAtFail :: string
  we_since :: int
  we_lastWarn :: int
  we_suppressed :: int

datatype watch_log = WatchFailing | WatchStillFailing int int | WatchRecovered int

definition policyWatchErrThrottle :: int where
  "policyWatchErrThrottle = 10 * 60 * 1000000000"

definition newWatchErrState :: watchErrState where
  "newWatchErrState = \<lparr>we_failing = False, we_syncedAtFail = False, we_rvAtFail = [], we_since = 0, we_lastWarn = 0, we_suppressed = 0\<rparr>"

definition watch_handle :: "bool \<Rightarrow> bool \<Rightarrow> string \<Rightarrow> int \<Rightarrow> watchErrState \<Rightarrow> watch_log list \<times> watchErrState" where
  "watch_handle benign synced rv now s =
     (if benign then ([], s)
      else if \<not> we_failing s then
        ([WatchFailing], s\<lparr>we_failing := True, we_syncedAtFail := synced, we_rvAtFail := rv, we_since := now,
           we_lastWarn := now, we_suppressed := 0\<rparr>)
      else if policyWatchErrThrottle \<le> now - we_lastWarn s then
        ([WatchStillFailing (now - we_since s) (we_suppressed s)], s\<lparr>we_lastWarn := now, we_suppressed := 0\<rparr>)
      else ([], s\<lparr>we_suppressed := we_suppressed s + 1\<rparr>))"

definition checkRecovered :: "bool \<Rightarrow> string \<Rightarrow> int \<Rightarrow> watchErrState \<Rightarrow> watch_log list \<times> watchErrState" where
  "checkRecovered synced rv now s =
     (if \<not> we_failing s \<or> \<not> synced \<or> (we_syncedAtFail s \<and> rv = we_rvAtFail s) then ([], s)
      else ([WatchRecovered (now - we_since s)], s\<lparr>we_failing := False, we_suppressed := 0\<rparr>))"

section \<open>The specification\<close>

text \<open>
  What the subset promises of a source, a backend and a port, read off the objects: policies
  select pods, a rule admits a source when one of its peers does and a port when one of its ports
  does, and a clause the subset cannot express admits everything.
\<close>

definition has_ip :: "'l Pod \<Rightarrow> addr \<Rightarrow> bool" where
  "has_ip pod ip \<longleftrightarrow> ip \<in> set (podIPsOf pod)"

definition selects :: "('sel, 'l) kube \<Rightarrow> 'l Pod list \<Rightarrow> 'sel NetworkPolicy \<Rightarrow> addr \<Rightarrow> bool" where
  "selects kb pods pol backend \<longleftrightarrow>
     policyAppliesToIngress kb pol \<and>
     (\<exists>sel. kb_Selector kb (pol_PodSelector pol) = Some sel \<and>
        (\<exists>pod \<in> set pods. pd_Namespace pod = pol_Namespace pol \<and> sel (pd_Labels pod) \<and> has_ip pod backend))"

definition in_namespaces :: "('sel, 'l) kube \<Rightarrow> 'l Namespace list \<Rightarrow> 'sel NetworkPolicy \<Rightarrow> 'sel NetworkPolicyPeer \<Rightarrow> string \<Rightarrow> bool" where
  "in_namespaces kb nss pol peer name \<longleftrightarrow>
     (case np_NamespaceSelector peer of
        None \<Rightarrow> name = pol_Namespace pol
      | Some s \<Rightarrow> (\<exists>sel ls. kb_Selector kb s = Some sel \<and> map_of (ns_labels nss []) name = Some ls \<and> sel ls))"

definition unparsed :: "('sel, 'l) kube \<Rightarrow> 'sel option \<Rightarrow> bool" where
  "unparsed kb s \<longleftrightarrow> (\<exists>x. s = Some x \<and> kb_Selector kb x = None)"

definition peer_wide :: "('sel, 'l) kube \<Rightarrow> 'sel NetworkPolicyPeer \<Rightarrow> bool" where
  "peer_wide kb peer \<longleftrightarrow>
     np_IPBlock peer \<or> unparsed kb (np_NamespaceSelector peer) \<or> unparsed kb (np_PodSelector peer)"

definition peer_pod :: "('sel, 'l) kube \<Rightarrow> 'l Namespace list \<Rightarrow> 'sel NetworkPolicy \<Rightarrow> 'sel NetworkPolicyPeer \<Rightarrow> 'l Pod \<Rightarrow> bool" where
  "peer_pod kb nss pol peer pod \<longleftrightarrow>
     in_namespaces kb nss pol peer (pd_Namespace pod) \<and>
     (case np_PodSelector peer of
        None \<Rightarrow> True
      | Some s \<Rightarrow> (\<exists>sel. kb_Selector kb s = Some sel \<and> sel (pd_Labels pod)))"

definition admits_source ::
  "('sel, 'l) kube \<Rightarrow> 'l Pod list \<Rightarrow> 'l Namespace list \<Rightarrow> 'sel NetworkPolicy \<Rightarrow> 'sel IngressRule \<Rightarrow> addr \<Rightarrow> bool" where
  "admits_source kb pods nss pol rule src \<longleftrightarrow>
     ir_From rule = [] \<or>
     (\<exists>peer \<in> set (ir_From rule). peer_wide kb peer \<or>
        (\<exists>pod \<in> set pods. peer_pod kb nss pol peer pod \<and> has_ip pod src))"

definition admits_port :: "'sel IngressRule \<Rightarrow> u16 \<Rightarrow> bool" where
  "admits_port rule port \<longleftrightarrow>
     ir_Ports rule = [] \<or>
     (\<exists>p \<in> set (ir_Ports rule). npp_EndPort p \<noteq> None \<or> \<not> (\<exists>v. npp_Port p = Some (IntPort v)) \<or>
        npp_Port p = Some (IntPort (uint port)) \<and> port \<noteq> 0)"

definition policy_spec ::
  "('sel, 'l) kube \<Rightarrow> addr set \<Rightarrow> prefix \<Rightarrow> 'l Pod list \<Rightarrow> 'l Namespace list \<Rightarrow> 'sel NetworkPolicy list \<Rightarrow>
    addr \<Rightarrow> addr \<Rightarrow> u16 \<Rightarrow> bool" where
  "policy_spec kb always vmnet pods nss pols src backend port \<longleftrightarrow>
     IsLoopback src \<or> src \<in> always \<or>
     (\<forall>pol \<in> set pols. \<not> selects kb pods pol backend) \<or>
     (\<exists>pol \<in> set pols. selects kb pods pol backend \<and>
        (\<exists>rule \<in> set (pol_Ingress pol). admits_source kb pods nss pol rule src \<and> admits_port rule port)) \<or>
     (\<forall>pod \<in> set pods. \<not> has_ip pod src) \<and> \<not> prefix_Contains vmnet src"

section \<open>The loops\<close>

lemma set_add_ips: "set (add_ips ss out) = set out \<union> {Unmap a |a s. s \<in> set ss \<and> ParseAddr s = Some a}"
  by (induction ss out rule: add_ips.induct) (auto split: option.split)

lemma pods_loop_spec:
  assumes "pods_loop pods by0 known0 = (podsByNS, known)"
  shows "podsByNS = (\<lambda>ns. by0 ns @ filter (\<lambda>p. podIPsOf p \<noteq> [] \<and> pd_Namespace p = ns) pods)"
    and "known = known0 \<union> {ip. \<exists>pod \<in> set pods. has_ip pod ip}"
  using assms
proof (induction pods arbitrary: by0 known0)
  case (Cons pod pods)
  { case 1 then show ?case by (cases "podIPsOf pod = []") (auto simp: fun_eq_iff dest!: Cons.IH(1)) }
  { case 2 then show ?case by (cases "podIPsOf pod = []") (auto simp: has_ip_def dest!: Cons.IH(2)) }
qed auto

lemma pods_of_ns:
  assumes "pods_loop pods (\<lambda>_. []) {} = (podsByNS, known)"
  shows "(\<exists>p \<in> set (podsByNS ns). P p \<and> has_ip p ip) \<longleftrightarrow> (\<exists>p \<in> set pods. pd_Namespace p = ns \<and> P p \<and> has_ip p ip)"
  using pods_loop_spec(1) [OF assms] by (auto simp: has_ip_def)

definition rules_of :: "(addr \<rightharpoonup> PolicyRule list) \<Rightarrow> addr \<Rightarrow> PolicyRule set" where
  "rules_of m ip = (case m ip of None \<Rightarrow> {} | Some rs \<Rightarrow> set rs)"

lemma rules_of_upd: "rules_of (m(i \<mapsto> rs)) ip = (if ip = i then set rs else rules_of m ip)"
  by (simp add: rules_of_def)

lemma dom_add_rules: "dom (add_rules rules ips m) = dom m \<union> set ips"
  by (induction ips arbitrary: m) simp_all

lemma rules_of_add_rules:
  "rules_of (add_rules rules ips m) ip = rules_of m ip \<union> (if ip \<in> set ips then set rules else {})"
proof (induction ips arbitrary: m)
  case (Cons i ips)
  have "rules_of (m(i \<mapsto> (case m i of None \<Rightarrow> rules | Some rs \<Rightarrow> rs @ rules))) ip
      = rules_of m ip \<union> (if ip = i then set rules else {})"
    by (simp add: rules_of_upd) (simp add: rules_of_def split: option.split)
  then show ?case unfolding add_rules.simps Cons.IH by auto
qed simp

lemmas add_rules_spec = dom_add_rules rules_of_add_rules

lemma dom_select_pods:
  "dom (select_pods podSel rules pods m) = dom m \<union> {ip. \<exists>pod \<in> set pods. podSel (pd_Labels pod) \<and> has_ip pod ip}"
proof (induction pods arbitrary: m)
  case (Cons pod pods)
  show ?case by (cases "podSel (pd_Labels pod)") (simp_all add: Cons.IH add_rules_spec has_ip_def, blast)
qed simp

lemma rules_of_select_pods:
  "rules_of (select_pods podSel rules pods m) ip =
     rules_of m ip \<union> (if \<exists>pod \<in> set pods. podSel (pd_Labels pod) \<and> has_ip pod ip then set rules else {})"
proof (induction pods arbitrary: m)
  case (Cons pod pods)
  show ?case by (cases "podSel (pd_Labels pod)") (auto simp: Cons.IH add_rules_spec has_ip_def)
qed simp

lemma distinct_ns_labels: "distinct (map fst m) \<Longrightarrow> distinct (map fst (ns_labels nss m))"
  by (induction nss m rule: ns_labels.induct) (auto simp: distinct_map_filter image_iff)

lemma peerNamespaces_spec:
  assumes "peerNamespaces kb pol peer (ns_labels nss []) = Some names"
  shows "name \<in> set names \<longleftrightarrow> in_namespaces kb nss pol peer name"
proof -
  have d: "map_of (ns_labels nss []) n = Some l \<longleftrightarrow> (n, l) \<in> set (ns_labels nss [])" for n l
    by (rule map_of_eq_Some_iff) (simp add: distinct_ns_labels)
  show ?thesis
    using assms by (force simp: peerNamespaces_def in_namespaces_def d split: option.split_asm)
qed

lemma peerNamespaces_None: "peerNamespaces kb pol peer ls = None \<longleftrightarrow> unparsed kb (np_NamespaceSelector peer)"
  by (auto simp: peerNamespaces_def unparsed_def split: option.split)

lemma peer_sources_spec:
  assumes "pods_loop pods (\<lambda>_. []) {} = (podsByNS, known)" "peerNamespaces kb pol peer (ns_labels nss []) = Some names"
  shows "src \<in> peer_sources sel names podsByNS \<longleftrightarrow>
    (\<exists>pod \<in> set pods. in_namespaces kb nss pol peer (pd_Namespace pod) \<and> sel (pd_Labels pod) \<and> has_ip pod src)"
proof -
  have "src \<in> peer_sources sel names podsByNS \<longleftrightarrow> (\<exists>n \<in> set names. \<exists>p \<in> set (podsByNS n). sel (pd_Labels p) \<and> has_ip p src)"
    by (auto simp: peer_sources_def has_ip_def)
  then show ?thesis unfolding pods_of_ns [OF assms(1)] peerNamespaces_spec [OF assms(2), symmetric] by auto
qed

lemma from_loop_spec:
  assumes "pods_loop pods (\<lambda>_. []) {} = (podsByNS, known)"
    "from_loop kb pol podsByNS (ns_labels nss []) peers srcs wide = (srcs', wide')"
  shows "wide' \<longleftrightarrow> wide \<or> (\<exists>peer \<in> set peers. peer_wide kb peer)"
    and "src \<in> srcs' \<longleftrightarrow> src \<in> srcs \<or>
      (\<exists>peer \<in> set peers. \<not> peer_wide kb peer \<and> (\<exists>pod \<in> set pods. peer_pod kb nss pol peer pod \<and> has_ip pod src))"
  using assms(2)
proof (induction peers arbitrary: srcs wide)
  case (Cons peer peers)
  note ps = peer_sources_spec [OF assms(1)]
  have step: "\<exists>srcs1 wide1. from_loop kb pol podsByNS (ns_labels nss []) peers srcs1 wide1 = (srcs', wide')
      \<and> (wide1 \<longleftrightarrow> wide \<or> peer_wide kb peer)
      \<and> (src \<in> srcs1 \<longleftrightarrow> src \<in> srcs \<or> \<not> peer_wide kb peer \<and> (\<exists>pod \<in> set pods. peer_pod kb nss pol peer pod \<and> has_ip pod src))"
    if "from_loop kb pol podsByNS (ns_labels nss []) (peer # peers) srcs wide = (srcs', wide')" for srcs wide
  proof (cases "peer_wide kb peer")
    case True
    then show ?thesis
      using that by (auto simp: peer_wide_def unparsed_def peerNamespaces_def split: option.split_asm)
  next
    case False
    then obtain names where n: "peerNamespaces kb pol peer (ns_labels nss []) = Some names"
      using peerNamespaces_None [of kb pol peer "ns_labels nss []"] by (auto simp: peer_wide_def)
    obtain sel where sel: "sel = (case np_PodSelector peer of None \<Rightarrow> (\<lambda>_. True) | Some s \<Rightarrow> the (kb_Selector kb s))" by simp
    have "from_loop kb pol podsByNS (ns_labels nss []) peers (srcs \<union> peer_sources sel names podsByNS) wide = (srcs', wide')"
      using that False n by (auto simp: peer_wide_def unparsed_def sel split: option.split_asm)
    moreover have "peer_pod kb nss pol peer pod \<longleftrightarrow> in_namespaces kb nss pol peer (pd_Namespace pod) \<and> sel (pd_Labels pod)" for pod
      using False by (auto simp: peer_wide_def unparsed_def peer_pod_def sel split: option.split)
    ultimately show ?thesis
      using False ps [OF n, of src sel] by (intro exI [of _ "srcs \<union> peer_sources sel names podsByNS"] exI [of _ wide]) simp
  qed
  { case 1
    obtain srcs1 wide1 where "from_loop kb pol podsByNS (ns_labels nss []) peers srcs1 wide1 = (srcs', wide')"
        "wide1 \<longleftrightarrow> wide \<or> peer_wide kb peer" using step [OF 1] by blast
    with Cons.IH(1) [OF this(1)] show ?case by auto }
  { case 2
    obtain srcs1 wide1 where "from_loop kb pol podsByNS (ns_labels nss []) peers srcs1 wide1 = (srcs', wide')"
        "src \<in> srcs1 \<longleftrightarrow> src \<in> srcs \<or> \<not> peer_wide kb peer \<and> (\<exists>pod \<in> set pods. peer_pod kb nss pol peer pod \<and> has_ip pod src)"
      using step [OF 2] by blast
    with Cons.IH(2) [OF this(1)] show ?case by auto }
qed auto

lemma ports_loop_spec:
  assumes "ports_loop ps ports wide = (ports', wide')"
  shows "wide' \<longleftrightarrow> wide \<or> (\<exists>p \<in> set ps. npp_EndPort p \<noteq> None \<or> \<not> (\<exists>v. npp_Port p = Some (IntPort v)))"
    and "port \<in> ports' \<longleftrightarrow> port \<in> ports \<or>
      (\<exists>p \<in> set ps. npp_EndPort p = None \<and> npp_Port p = Some (IntPort (uint port)) \<and> port \<noteq> 0)"
  using assms
proof (induction ps arbitrary: ports wide)
  case (Cons p ps)
  have u: "1 \<le> uint port \<longleftrightarrow> port \<noteq> 0" "uint port \<le> 65535"
  proof -
    have "0 < uint port \<longleftrightarrow> port \<noteq> 0" using uint_ge_0 [of port] by (simp add: order_less_le uint_0_iff)
    then show "1 \<le> uint port \<longleftrightarrow> port \<noteq> 0" by linarith
    show "uint port \<le> 65535" using uint_bounded [of port] by simp
  qed
  have w: "1 \<le> v \<and> v \<le> 65535 \<and> port = word_of_int v \<longleftrightarrow> v = uint port \<and> port \<noteq> 0" for v
  proof -
    have "uint (word_of_int v :: u16) = v" if "1 \<le> v" "v \<le> 65535" using that by (simp add: uint_word_of_int)
    then show ?thesis using u by (metis word_of_int_uint)
  qed
  { case 1 then show ?case
      by (auto dest!: Cons.IH(1) split: option.split_asm IntOrString.split_asm if_split_asm) }
  { case 2 then show ?case
    proof (cases "npp_EndPort p = None \<and> (\<exists>v. npp_Port p = Some (IntPort v))")
      case True
      then obtain v where v: "npp_EndPort p = None" "npp_Port p = Some (IntPort v)" by blast
      then have "ports_loop ps (if 1 \<le> v \<and> v \<le> 65535 then insert (word_of_int v) ports else ports) wide = (ports', wide')"
        using 2 by (cases "1 \<le> v \<and> v \<le> 65535")
          (simp_all only: ports_loop.simps v prod.case option.case IntOrString.case if_True if_False simp_thms)
      from Cons.IH(2) [OF this] show ?thesis using w [of v] v by (auto split: if_split_asm)
    next
      case False
      then have "ports_loop ps ports True = (ports', wide')"
        using 2 by (auto split: option.split_asm IntOrString.split_asm)
      from Cons.IH(2) [OF this] show ?thesis using False by auto
    qed }
qed auto

lemma resolveRule_matches:
  assumes "pods_loop pods (\<lambda>_. []) {} = (podsByNS, known)"
  shows "rule_matches src port (resolveRule kb pol rule podsByNS (ns_labels nss [])) \<longleftrightarrow>
    admits_source kb pods nss pol rule src \<and> admits_port rule port"
proof -
  obtain srcs w1 where f: "from_loop kb pol podsByNS (ns_labels nss []) (ir_From rule) {} False = (srcs, w1)" by fastforce
  obtain ports w2 where p: "ports_loop (ir_Ports rule) {} False = (ports, w2)" by fastforce
  have "(case pr_Sources (resolveRule kb pol rule podsByNS (ns_labels nss [])) of None \<Rightarrow> True | Some s \<Rightarrow> src \<in> s)
      \<longleftrightarrow> admits_source kb pods nss pol rule src"
    using from_loop_spec(1) [OF assms f] from_loop_spec(2) [OF assms f, of src] f by (auto simp: resolveRule_def admits_source_def)
  moreover have "(case pr_Ports (resolveRule kb pol rule podsByNS (ns_labels nss [])) of None \<Rightarrow> True | Some s \<Rightarrow> port \<in> s)
      \<longleftrightarrow> admits_port rule port"
    using ports_loop_spec(1) [OF p] ports_loop_spec(2) [OF p, of port] p by (auto simp: resolveRule_def admits_port_def)
  ultimately show ?thesis by (simp add: rule_matches_def)
qed

lemma policies_loop_spec:
  assumes "pods_loop pods (\<lambda>_. []) {} = (podsByNS, known)"
    "policies_loop kb podsByNS (ns_labels nss []) pols m warned = (ws, m', warned')"
  shows "dom m' = dom m \<union> {ip. \<exists>pol \<in> set pols. selects kb pods pol ip}"
    and "rules_of m' ip = rules_of m ip \<union>
      {resolveRule kb pol rule podsByNS (ns_labels nss []) |pol rule. pol \<in> set pols \<and> selects kb pods pol ip \<and> rule \<in> set (pol_Ingress pol)}"
  using assms(2)
proof (induction pols arbitrary: m warned ws)
  case (Cons pol pols)
  have step: "\<exists>m1 warned1 ws1. policies_loop kb podsByNS (ns_labels nss []) pols m1 warned1 = (ws1, m', warned')
      \<and> dom m1 = dom m \<union> {ip. selects kb pods pol ip}
      \<and> rules_of m1 ip = rules_of m ip \<union> (if selects kb pods pol ip
          then (\<lambda>rule. resolveRule kb pol rule podsByNS (ns_labels nss [])) ` set (pol_Ingress pol) else {})"
    if "policies_loop kb podsByNS (ns_labels nss []) (pol # pols) m warned = (ws, m', warned')" for m warned ws
  proof (cases "policyAppliesToIngress kb pol \<and> kb_Selector kb (pol_PodSelector pol) \<noteq> None")
    case True
    then obtain sel where sel: "policyAppliesToIngress kb pol" "kb_Selector kb (pol_PodSelector pol) = Some sel" by blast
    have s: "selects kb pods pol i \<longleftrightarrow> (\<exists>p \<in> set (podsByNS (pol_Namespace pol)). sel (pd_Labels p) \<and> has_ip p i)" for i
      unfolding pods_of_ns [OF assms(1), of _ "\<lambda>p. sel (pd_Labels p)"] by (simp add: selects_def sel)
    let ?m = "select_pods sel (map (\<lambda>r. resolveRule kb pol r podsByNS (ns_labels nss [])) (pol_Ingress pol))
      (podsByNS (pol_Namespace pol)) m"
    have "\<exists>warned1 ws1. policies_loop kb podsByNS (ns_labels nss []) pols ?m warned1 = (ws1, m', warned')"
      using that sel by (auto simp: Let_def split: prod.split_asm)
    moreover have "dom ?m = dom m \<union> {ip. selects kb pods pol ip}" by (simp add: dom_select_pods s)
    moreover have "rules_of ?m ip = rules_of m ip \<union> (if selects kb pods pol ip
          then (\<lambda>rule. resolveRule kb pol rule podsByNS (ns_labels nss [])) ` set (pol_Ingress pol) else {})"
      by (auto simp: rules_of_select_pods s)
    ultimately show ?thesis by blast
  next
    case False
    then have n: "\<not> selects kb pods pol i" for i by (auto simp: selects_def)
    have "\<exists>warned1 ws1. policies_loop kb podsByNS (ns_labels nss []) pols m warned1 = (ws1, m', warned')"
    proof (cases "policyAppliesToIngress kb pol")
      case True
      then have "kb_Selector kb (pol_PodSelector pol) = None" using False by blast
      then show ?thesis using that True by (auto simp: Let_def split: prod.split_asm)
    qed (use that in \<open>auto simp: Let_def split: prod.split_asm\<close>)
    then show ?thesis using n by (intro exI [of _ m]) simp
  qed
  { case 1
    obtain m1 warned1 ws1 where "policies_loop kb podsByNS (ns_labels nss []) pols m1 warned1 = (ws1, m', warned')"
        "dom m1 = dom m \<union> {ip. selects kb pods pol ip}" using step [OF 1] by blast
    then show ?case using Cons.IH(1) by auto }
  { case 2
    obtain m1 warned1 ws1 where "policies_loop kb podsByNS (ns_labels nss []) pols m1 warned1 = (ws1, m', warned')"
        "rules_of m1 ip = rules_of m ip \<union> (if selects kb pods pol ip
          then (\<lambda>rule. resolveRule kb pol rule podsByNS (ns_labels nss [])) ` set (pol_Ingress pol) else {})"
      using step [OF 2] by blast
    then show ?case using Cons.IH(2) by auto }
qed auto

lemma recompute_table:
  fixes kb :: "('sel, 'l) kube"
  defines "t' \<equiv> \<lambda>pods nss pols w. pw_table (snd (recompute kb pods nss pols w))"
  shows "pt_selected (t' pods nss pols w) ip = None \<longleftrightarrow> (\<forall>pol \<in> set pols. \<not> selects kb pods pol ip)"
    and "pt_selected (t' pods nss pols w) ip = Some rules \<Longrightarrow> list_ex (rule_matches src port) rules \<longleftrightarrow>
      (\<exists>pol \<in> set pols. selects kb pods pol ip \<and>
        (\<exists>rule \<in> set (pol_Ingress pol). admits_source kb pods nss pol rule src \<and> admits_port rule port))"
    and "src \<in> pt_known (t' pods nss pols w) \<longleftrightarrow> (\<exists>pod \<in> set pods. has_ip pod src)"
    and "pt_alwaysAllow (t' pods nss pols w) = pt_alwaysAllow (pw_table w)"
    and "pt_vmnet (t' pods nss pols w) = pt_vmnet (pw_table w)"
proof -
  obtain podsByNS known where p: "pods_loop pods (\<lambda>_. []) {} = (podsByNS, known)" by fastforce
  obtain ws m warned where l: "policies_loop kb podsByNS (ns_labels nss []) pols Map.empty (pw_warned w) = (ws, m, warned)"
    by (metis prod_cases3)
  have t: "t' pods nss pols w = policy_Update (Some m) (Some known) (pw_table w)"
    by (simp add: t'_def recompute_def p l)
  show "pt_selected (t' pods nss pols w) ip = None \<longleftrightarrow> (\<forall>pol \<in> set pols. \<not> selects kb pods pol ip)"
    using policies_loop_spec(1) [OF p l] by (auto simp: t policy_Update_def)
  show "src \<in> pt_known (t' pods nss pols w) \<longleftrightarrow> (\<exists>pod \<in> set pods. has_ip pod src)"
    using pods_loop_spec(2) [OF p] by (simp add: t policy_Update_def)
  show "pt_alwaysAllow (t' pods nss pols w) = pt_alwaysAllow (pw_table w)"
    and "pt_vmnet (t' pods nss pols w) = pt_vmnet (pw_table w)" by (simp_all add: t policy_Update_def)
  assume "pt_selected (t' pods nss pols w) ip = Some rules"
  then have "set rules = {resolveRule kb pol rule podsByNS (ns_labels nss []) |pol rule.
      pol \<in> set pols \<and> selects kb pods pol ip \<and> rule \<in> set (pol_Ingress pol)}"
    using policies_loop_spec(2) [OF p l, of ip] by (simp add: t policy_Update_def rules_of_def)
  then show "list_ex (rule_matches src port) rules \<longleftrightarrow>
      (\<exists>pol \<in> set pols. selects kb pods pol ip \<and>
        (\<exists>rule \<in> set (pol_Ingress pol). admits_source kb pods nss pol rule src \<and> admits_port rule port))"
    unfolding list_ex_iff resolveRule_matches [OF p, symmetric] Bex_def by auto
qed

lemma Allow_verdict:
  "fst (fst (table_Allow now t src backend port)) \<longleftrightarrow>
     IsLoopback (Unmap src) \<or> Unmap src \<in> pt_alwaysAllow t \<or>
     (case pt_selected t (Unmap backend) of
        None \<Rightarrow> True
      | Some rules \<Rightarrow> list_ex (rule_matches (Unmap src) port) rules \<or>
          Unmap src \<notin> pt_known t \<and> \<not> prefix_Contains (pt_vmnet t) (Unmap src))"
proof -
  have v: "prefix_IsValid p \<and> prefix_Contains p a \<longleftrightarrow> prefix_Contains p a" for p a by (auto simp: prefix_Contains_def)
  show ?thesis
    by (auto simp: table_Allow_def Let_def v split: option.split prod.split)
qed

lemma table_verdict_spec:
  "fst (fst (table_Allow now (pw_table (snd (recompute kb pods nss pols w))) src backend port)) =
    policy_spec kb (pt_alwaysAllow (pw_table w)) (pt_vmnet (pw_table w)) pods nss pols (Unmap src) (Unmap backend) port"
proof (cases "pt_selected (pw_table (snd (recompute kb pods nss pols w))) (Unmap backend)")
  case None
  then show ?thesis
    using recompute_table(1) [of kb pods nss pols w "Unmap backend"] by (simp add: Allow_verdict policy_spec_def)
next
  case (Some rules)
  have "\<not> (\<forall>pol \<in> set pols. \<not> selects kb pods pol (Unmap backend))"
    using recompute_table(1) [of kb pods nss pols w "Unmap backend"] Some by simp
  with Some show ?thesis
    using recompute_table(2) [OF Some, of "Unmap src" port] recompute_table(3) [of "Unmap src" kb pods nss pols w] recompute_table(4,5) [of kb pods nss pols w]
    by (simp add: Allow_verdict policy_spec_def) blast
qed

text \<open>
  The pods a node-scoped watcher sees (\<^verbatim>\<open>WithPodNodeScope\<close>): those bound to the node.
\<close>

definition podNodeScope :: "string \<Rightarrow> 'l Pod list \<Rightarrow> 'l Pod list" where
  "podNodeScope node pods = filter (\<lambda>pod. pd_NodeName pod = node) pods"

lemma in_scope: "pod \<in> set (podNodeScope node pods) \<longleftrightarrow> pod \<in> set pods \<and> pd_NodeName pod = node"
  by (auto simp: podNodeScope_def)

lemma selects_scope:
  assumes "\<forall>p \<in> set pods. \<forall>q \<in> set pods. has_ip p backend \<and> has_ip q backend \<longrightarrow> pd_NodeName p = pd_NodeName q"
    and "selects kb (podNodeScope node pods) pol0 backend"
  shows "selects kb (podNodeScope node pods) pol backend \<longleftrightarrow> selects kb pods pol backend"
proof -
  obtain p where p: "p \<in> set pods" "has_ip p backend" "pd_NodeName p = node"
    using assms(2) by (auto simp: selects_def in_scope)
  have "q \<in> set (podNodeScope node pods) \<and> has_ip q backend \<longleftrightarrow> q \<in> set pods \<and> has_ip q backend" for q
    using assms(1) p unfolding in_scope by metis
  then show ?thesis unfolding selects_def by blast
qed

lemma admits_source_scope:
  assumes "\<forall>p \<in> set pods. \<forall>q \<in> set pods. has_ip p src \<and> has_ip q src \<longrightarrow> pd_NodeName p = pd_NodeName q"
    and "admits_source kb pods nss pol rule src" "\<exists>p \<in> set (podNodeScope node pods). has_ip p src"
  shows "admits_source kb (podNodeScope node pods) nss pol rule src"
proof -
  obtain p where p: "p \<in> set pods" "pd_NodeName p = node" "has_ip p src" using assms(3) by (auto simp: in_scope)
  have "q \<in> set (podNodeScope node pods)" if "q \<in> set pods" "has_ip q src" for q
    using assms(1) p that unfolding in_scope by metis
  then show ?thesis using assms(2) unfolding admits_source_def by blast
qed

definition demo_kube :: "(string, string) kube" where
  "demo_kube = \<lparr>kb_Selector = (\<lambda>s. Some (\<lambda>l. s = [] \<or> l = s)), kb_PolicyTypeIngress = ''Ingress''\<rparr>"

definition demo_pods :: "string Pod list" where
  "demo_pods =
     [\<lparr>pd_Namespace = ''ns'', pd_Labels = ''db'', pd_PodIPs = [''10.42.1.2''], pd_PodIP = ''10.42.1.2'', pd_NodeName = ''n1''\<rparr>,
      \<lparr>pd_Namespace = ''ns'', pd_Labels = ''web'', pd_PodIPs = [''10.42.1.3''], pd_PodIP = ''10.42.1.3'', pd_NodeName = ''n1''\<rparr>,
      \<lparr>pd_Namespace = ''ns'', pd_Labels = ''web'', pd_PodIPs = [''10.42.2.3''], pd_PodIP = ''10.42.2.3'', pd_NodeName = ''n2''\<rparr>]"

definition demo_policy :: "string NetworkPolicy" where
  "demo_policy = \<lparr>pol_Namespace = ''ns'', pol_Name = ''db'', pol_PolicyTypes = [], pol_PodSelector = ''db'',
     pol_Ingress = [\<lparr>ir_From = [\<lparr>np_IPBlock = False, np_NamespaceSelector = None, np_PodSelector = Some ''web''\<rparr>],
        ir_Ports = [\<lparr>npp_Port = Some (IntPort 53), npp_EndPort = None\<rparr>]\<rparr>]\<rparr>"

definition demo_policy_watcher :: PolicyWatcher where
  "demo_policy_watcher = \<lparr>pw_table = NewPolicyTable [], pw_warned = {}\<rparr>"

section \<open>Properties\<close>

text \<open>C8. The resolved table decides as the policies say: after a recompute, a connection passes
  exactly when the source is always allowed, or no ingress policy selects the backend, or a rule of a
  selecting policy admits source and port, or the source is no pod's address and outside the vm
  segment.\<close>

theorem policy_refines_spec:
  "fst (fst (table_Allow now (pw_table (snd (recompute kb pods nss pols w))) src backend port)) =
    policy_spec kb (pt_alwaysAllow (pw_table w)) (pt_vmnet (pw_table w)) pods nss pols (Unmap src) (Unmap backend) port"
  by (rule table_verdict_spec)

text \<open>C33. Narrowing the watcher to the pods of its node only widens verdicts: where no two nodes have
  a pod with the same address and the source is not in the vm segment, what the cluster-wide view
  allows the node-scoped view allows too.\<close>

theorem node_scope_widens:
  assumes "\<forall>ip. \<forall>p \<in> set pods. \<forall>q \<in> set pods. has_ip p ip \<and> has_ip q ip \<longrightarrow> pd_NodeName p = pd_NodeName q"
    and "\<not> prefix_Contains (pt_vmnet (pw_table w)) (Unmap src)"
    and "fst (fst (table_Allow now (pw_table (snd (recompute kb pods nss pols w))) src backend port))"
  shows "fst (fst (table_Allow now (pw_table (snd (recompute kb (podNodeScope node pods) nss pols w))) src backend port))"
proof (cases "(\<exists>pol \<in> set pols. selects kb (podNodeScope node pods) pol (Unmap backend))
    \<and> (\<exists>p \<in> set (podNodeScope node pods). has_ip p (Unmap src))")
  case True
  then obtain pol0 p where s: "selects kb (podNodeScope node pods) pol0 (Unmap backend)" "pol0 \<in> set pols"
      and p: "p \<in> set (podNodeScope node pods)" "has_ip p (Unmap src)" by blast
  have u: "\<forall>p \<in> set pods. \<forall>q \<in> set pods. has_ip p ip \<and> has_ip q ip \<longrightarrow> pd_NodeName p = pd_NodeName q" for ip
    using assms(1) by blast
  note sel = selects_scope [OF u s(1)]
  have "admits_source kb (podNodeScope node pods) nss pol rule (Unmap src)"
    if "admits_source kb pods nss pol rule (Unmap src)" for pol rule
    using admits_source_scope [OF u that] p by blast
  moreover have "p \<in> set pods" using p(1) by (simp add: in_scope)
  ultimately show ?thesis
    using assms(3) s sel p(2) by (simp add: table_verdict_spec policy_spec_def) blast
next
  case False
  then show ?thesis using assms(2) by (auto simp: table_verdict_spec policy_spec_def)
qed

theorem node_scope_widens_witness:
  "fst (fst (table_Allow 0 (pw_table (snd (recompute demo_kube (podNodeScope ''n1'' demo_pods) [] [demo_policy] demo_policy_watcher)))
     (IPv4 0x0A2A0203) (IPv4 0x0A2A0102) 53))
   \<and> \<not> fst (fst (table_Allow 0 (pw_table (snd (recompute demo_kube demo_pods [] [demo_policy] demo_policy_watcher)))
     (IPv4 0x0A2A0203) (IPv4 0x0A2A0102) 80))"
proof -
  have ips: "map podIPsOf demo_pods = [[IPv4 0x0A2A0102], [IPv4 0x0A2A0103], [IPv4 0x0A2A0203]]" by code_simp
  have "\<forall>ip. \<forall>p \<in> set demo_pods. \<forall>q \<in> set demo_pods. has_ip p ip \<and> has_ip q ip \<longrightarrow> pd_NodeName p = pd_NodeName q"
    using ips by (auto simp: demo_pods_def has_ip_def)
  moreover have "\<not> prefix_Contains (pt_vmnet (pw_table demo_policy_watcher)) (Unmap (IPv4 0x0A2A0203))" by code_simp
  moreover have "fst (fst (table_Allow 0 (pw_table (snd (recompute demo_kube demo_pods [] [demo_policy] demo_policy_watcher)))
     (IPv4 0x0A2A0203) (IPv4 0x0A2A0102) 53))" by code_simp
  moreover have "\<not> fst (fst (table_Allow 0 (pw_table (snd (recompute demo_kube demo_pods [] [demo_policy] demo_policy_watcher)))
     (IPv4 0x0A2A0203) (IPv4 0x0A2A0102) 80))" by code_simp
  ultimately show ?thesis
    using node_scope_widens [of demo_pods demo_policy_watcher "IPv4 0x0A2A0203" 0 demo_kube "[]" "[demo_policy]" "IPv4 0x0A2A0102" 53 "''n1''"]
    by blast
qed

end
