(* ===== verification/Services.thy ===== *)
theory Services
  imports Routing GoEncoding "HOL-Library.AList" "HOL-Library.Product_Lexorder"
begin

text \<open>
  From API objects to routing-table keys (\<^verbatim>\<open>pkg/proxy/translate.go\<close>) and the comparison of the
  backend sets of two views (\<^verbatim>\<open>vipstate.go\<close>): what the API says against what a store or the table
  holds.

  Services and EndpointSlices belong to Kubernetes and \<^verbatim>\<open>netv1\<close> to \<^verbatim>\<open>k3sm.io/apis\<close>: the records have the
  fields the code reads, and the constants and methods of these packages are the fields of
  \<open>service_api\<close>. A Go map from keys to sets is an association list without repeated keys.
\<close>

section \<open>API objects\<close>

record svc_port =
  sp_Name :: string
  sp_Protocol :: string
  sp_Port :: int
  sp_TargetPort :: int
  sp_NodePort :: int

text \<open>Every hop of \<^verbatim>\<open>SessionAffinityConfig.ClientIP.TimeoutSeconds\<close> is a pointer.\<close>

record Service =
  sv_Namespace :: string
  sv_Name :: string
  sv_Type :: string
  sv_ClusterIP :: string
  sv_Ports :: "svc_port list"
  sv_InternalTrafficPolicy :: "string option"
  sv_ExternalTrafficPolicy :: string
  sv_SessionAffinity :: string
  sv_SessionAffinityConfig :: "int option option option"
  sv_ResourceVersion :: string

record ServiceVIP =
  vip_Namespace :: string
  vip_Name :: string
  vip_ClusterIP :: string
  vip_Ports :: "svc_port list"

record slice_port =
  lp_Name :: "string option"
  lp_Port :: "int option"

record slice_endpoint =
  se_Addresses :: "string list"
  se_Ready :: "bool option"

record EndpointSlice =
  es_Namespace :: string
  es_Name :: string
  es_ServiceName :: string
  es_ResourceVersion :: string
  es_AddressType :: string
  es_Ports :: "slice_port list"
  es_Endpoints :: "slice_endpoint list"

record service_api =
  api_ExternalName :: string
  api_ClusterIPNone :: string
  api_PolicyLocal :: string
  api_ClientIP :: string
  api_IPv4 :: string
  api_TCP :: string
  api_UDP :: string
  api_ProtocolValid :: "string \<Rightarrow> bool"
  api_WithDefaults :: "ServiceVIP \<Rightarrow> ServiceVIP"
  api_Validate :: "Endpoint \<Rightarrow> bool"

section \<open>Translation\<close>

definition internalPolicy :: "service_api \<Rightarrow> string option \<Rightarrow> trafficPolicy" where
  "internalPolicy api p = (if p = Some (api_PolicyLocal api) then trafficLocal else trafficCluster)"

definition sessionAffinity :: "service_api \<Rightarrow> Service \<Rightarrow> affinityConfig" where
  "sessionAffinity api svc =
     (if sv_SessionAffinity svc \<noteq> api_ClientIP api then \<lparr>ac_mode = affinityNone, ac_timeout = 0\<rparr>
      else \<lparr>ac_mode = affinityClientIP,
             ac_timeout = (case sv_SessionAffinityConfig svc of
                Some (Some (Some secs)) \<Rightarrow> if 0 < secs then secs * 1000000000 else affinityDefaultTimeout
              | _ \<Rightarrow> affinityDefaultTimeout)\<rparr>)"

fun served_ports :: "service_api \<Rightarrow> svc_port list \<Rightarrow> svc_port list" where
  "served_ports api [] = []"
| "served_ports api (p # ps) =
     (let proto = (if sp_Protocol p = [] then api_TCP api else sp_Protocol p) in
      if \<not> api_ProtocolValid api proto then served_ports api ps
      else p\<lparr>sp_TargetPort := sint (word_of_int (sp_TargetPort p) :: 32 word), sp_Protocol := proto\<rparr>
             # served_ports api ps)"

text \<open>The code returns a flag with zero values; here \<open>None\<close> is a Service the proxy does not serve.\<close>

definition serviceToVIP ::
  "service_api \<Rightarrow> Service \<Rightarrow> (ServiceVIP \<times> trafficPolicy \<times> affinityConfig \<times> bool) option" where
  "serviceToVIP api svc =
     (if sv_Type svc = api_ExternalName api then None
      else if sv_ClusterIP svc = [] \<or> sv_ClusterIP svc = api_ClusterIPNone api then None
      else if sv_Ports svc = [] then None
      else let ports = served_ports api (sv_Ports svc) in
        if ports = [] then None
        else Some (api_WithDefaults api
                     \<lparr>vip_Namespace = sv_Namespace svc, vip_Name = sv_Name svc, vip_ClusterIP = sv_ClusterIP svc,
                       vip_Ports = ports\<rparr>,
                   internalPolicy api (sv_InternalTrafficPolicy svc), sessionAffinity api svc,
                   list_ex (\<lambda>p. sp_NodePort p \<noteq> 0) ports \<and> sv_ExternalTrafficPolicy svc = api_PolicyLocal api))"

fun matchSlicePort :: "slice_port list \<Rightarrow> string \<Rightarrow> int option" where
  "matchSlicePort [] portName = None"
| "matchSlicePort (p # ps) portName =
     (let name = (case lp_Name p of None \<Rightarrow> [] | Some n \<Rightarrow> n) in
      if name \<noteq> portName then matchSlicePort ps portName else lp_Port p)"

definition slice_endpoints :: "int \<Rightarrow> slice_endpoint list \<Rightarrow> Endpoint list" where
  "slice_endpoints port eps =
     concat (map (\<lambda>ep. map (\<lambda>a. \<lparr>ep_IP = a, ep_Port = port, ep_Ready = (se_Ready ep = Some True)\<rparr>) (se_Addresses ep)) eps)"

fun endpointsForPort :: "service_api \<Rightarrow> EndpointSlice list \<Rightarrow> string \<Rightarrow> Endpoint list" where
  "endpointsForPort api [] portName = []"
| "endpointsForPort api (sl # sls) portName =
     (if es_AddressType sl \<noteq> api_IPv4 api then endpointsForPort api sls portName
      else case matchSlicePort (es_Ports sl) portName of
        None \<Rightarrow> endpointsForPort api sls portName
      | Some port \<Rightarrow> slice_endpoints port (es_Endpoints sl) @ endpointsForPort api sls portName)"

definition defaultProto :: "service_api \<Rightarrow> string \<Rightarrow> string" where
  "defaultProto api p = (if p = [] then api_TCP api else p)"

definition service_key :: "string \<Rightarrow> string \<Rightarrow> string" where
  "service_key ns name = ns @ ''/'' @ name"

definition backendsForPort ::
  "service_api \<Rightarrow> (string \<rightharpoonup> Endpoint list) \<Rightarrow> string \<Rightarrow> EndpointSlice list \<Rightarrow> string \<Rightarrow> Endpoint list" where
  "backendsForPort api static key slices portName =
     (case static key of Some eps \<Rightarrow> eps | None \<Rightarrow> endpointsForPort api slices portName)"

section \<open>Backend sets\<close>

definition cmp :: "'a::linorder \<Rightarrow> 'a \<Rightarrow> int" where
  "cmp a b = (if a < b then -1 else if b < a then 1 else 0)"

definition comparePortKey :: "PortKey \<Rightarrow> PortKey \<Rightarrow> int" where
  "comparePortKey a b =
     (if pk_ClusterIP a \<noteq> pk_ClusterIP b then
        (case (ParseAddr (pk_ClusterIP a), ParseAddr (pk_ClusterIP b)) of
           (Some aa, Some ba) \<Rightarrow>
             if addr_Compare aa ba \<noteq> 0 then addr_Compare aa ba else cmp (pk_ClusterIP a) (pk_ClusterIP b)
         | _ \<Rightarrow> cmp (pk_ClusterIP a) (pk_ClusterIP b))
      else if cmp (pk_Port a) (pk_Port b) \<noteq> 0 then cmp (pk_Port a) (pk_Port b)
      else cmp (pk_Protocol a) (pk_Protocol b))"

text \<open>
  \<^verbatim>\<open>slices.SortFunc\<close>: on a comparison that orders its distinct arguments strictly and totally the
  result does not depend on the algorithm.
\<close>

fun insert_by :: "('a \<Rightarrow> 'a \<Rightarrow> int) \<Rightarrow> 'a \<Rightarrow> 'a list \<Rightarrow> 'a list" where
  "insert_by c x [] = [x]"
| "insert_by c x (y # ys) = (if c x y \<le> 0 then x # y # ys else y # insert_by c x ys)"

definition SortFunc :: "('a \<Rightarrow> 'a \<Rightarrow> int) \<Rightarrow> 'a list \<Rightarrow> 'a list" where
  "SortFunc c xs = foldr (insert_by c) xs []"

type_synonym BackendSet = "string list"

definition normalizeSet :: "BackendSet \<Rightarrow> string list" where
  "normalizeSet s = sort_compact s"

text \<open>\<^verbatim>\<open>slices.BinarySearch\<close>: the search narrows \<open>[i, j)\<close> to the first element that is not smaller.\<close>

function bin_search :: "'a::linorder list \<Rightarrow> 'a \<Rightarrow> nat \<Rightarrow> nat \<Rightarrow> nat" where
  "bin_search xs x i j =
     (if i < j then
        let h = (i + j) div 2 in
        if xs ! h < x then bin_search xs x (h + 1) j else bin_search xs x i h
      else i)"
  by auto
termination
  by (relation "measure (\<lambda>(xs, x, i, j). j - i)") auto

declare bin_search.simps [simp del]

definition BinarySearch :: "'a::linorder list \<Rightarrow> 'a \<Rightarrow> bool" where
  "BinarySearch xs x = (let i = bin_search xs x 0 (length xs) in i < length xs \<and> xs ! i = x)"

definition setMinus :: "string list \<Rightarrow> string list \<Rightarrow> string list" where
  "setMinus a b = filter (\<lambda>x. \<not> BinarySearch b x) a"

record Divergence =
  dv_Key :: PortKey
  dv_Want :: "string list"
  dv_Have :: "string list"
  dv_Missing :: "string list"
  dv_Extra :: "string list"

type_synonym view = "(PortKey \<times> BackendSet) list"

definition view_at :: "view \<Rightarrow> PortKey \<Rightarrow> BackendSet" where
  "view_at v key = (case map_of v key of None \<Rightarrow> [] | Some s \<Rightarrow> s)"

definition visit :: "view \<Rightarrow> view \<Rightarrow> PortKey \<Rightarrow> Divergence list" where
  "visit want have key =
     (let w = normalizeSet (view_at want key); h = normalizeSet (view_at have key) in
      if w = h then []
      else [\<lparr>dv_Key = key, dv_Want = w, dv_Have = h, dv_Missing = setMinus w h, dv_Extra = setMinus h w\<rparr>])"

definition DiffBackendSets :: "view \<Rightarrow> view \<Rightarrow> Divergence list" where
  "DiffBackendSets want have =
     SortFunc (\<lambda>a b. comparePortKey (dv_Key a) (dv_Key b))
       (concat (map (visit want have) (map fst want)) @
        concat (map (visit want have) (filter (\<lambda>k. map_of want k = None) (map fst have))))"

fun admitted_strings :: "service_api \<Rightarrow> Endpoint list \<Rightarrow> string list" where
  "admitted_strings api [] = []"
| "admitted_strings api (ep # eps) =
     (case admitEndpoint (api_Validate api) ep of
        None \<Rightarrow> admitted_strings api eps
      | Some ap \<Rightarrow> addrport_String ap # admitted_strings api eps)"

definition slices_of :: "EndpointSlice list \<Rightarrow> string \<Rightarrow> EndpointSlice list" where
  "slices_of slices key = filter (\<lambda>sl. es_ServiceName sl \<noteq> [] \<and> service_key (es_Namespace sl) (es_ServiceName sl) = key) slices"

definition port_key :: "service_api \<Rightarrow> string \<Rightarrow> svc_port \<Rightarrow> PortKey" where
  "port_key api clusterIP p = \<lparr>pk_ClusterIP = clusterIP, pk_Port = sp_Port p, pk_Protocol = defaultProto api (sp_Protocol p)\<rparr>"

definition api_ports ::
  "service_api \<Rightarrow> EndpointSlice list \<Rightarrow> (string \<rightharpoonup> Endpoint list) \<Rightarrow> Service \<Rightarrow> view" where
  "api_ports api slices static svc =
     (case serviceToVIP api svc of
        None \<Rightarrow> []
      | Some (vip, _) \<Rightarrow>
          let key = service_key (sv_Namespace svc) (sv_Name svc) in
          map (\<lambda>p. (port_key api (vip_ClusterIP vip) p,
                    normalizeSet (admitted_strings api (backendsForPort api static key (slices_of slices key) (sp_Name p)))))
            (vip_Ports vip))"

definition APIBackendSets ::
  "service_api \<Rightarrow> Service list \<Rightarrow> EndpointSlice list \<Rightarrow> (string \<rightharpoonup> Endpoint list) \<Rightarrow> view" where
  "APIBackendSets api services slices static =
     fold (\<lambda>(k, s) out. AList.update k s out) (concat (map (api_ports api slices static) services)) []"

record VIPState =
  vs_Key :: PortKey
  vs_Namespace :: string
  vs_Name :: string
  vs_Policy :: trafficPolicy
  vs_Backends :: "string list"
  vs_LocalBackends :: nat
  vs_Generation :: u64

text \<open>\<open>keys\<close> enumerates the keys of the table's meta map.\<close>

definition vip_state :: "RoutingTable \<Rightarrow> PortKey \<Rightarrow> VIPState" where
  "vip_state t key =
     (let m = rt_metas t (the (rt_meta t key)); st = sn_states (rt_snap t) key in
      \<lparr>vs_Key = key, vs_Namespace = km_namespace m, vs_Name = km_name m, vs_Policy = km_policy m,
       vs_Backends = (case st of None \<Rightarrow> [] | Some s \<Rightarrow> map (\<lambda>b. addrport_String (be_addr b)) (ps_all s)),
       vs_LocalBackends = (case st of None \<Rightarrow> 0 | Some s \<Rightarrow> length (ps_locals s)),
       vs_Generation = km_gen m\<rparr>)"

definition VIPStates :: "PortKey list \<Rightarrow> RoutingTable \<Rightarrow> VIPState list" where
  "VIPStates keys t = SortFunc (\<lambda>a b. comparePortKey (vs_Key a) (vs_Key b)) (map (vip_state t) keys)"

definition BackendSets :: "VIPState list \<Rightarrow> view" where
  "BackendSets states = fold (\<lambda>s out. AList.update (vs_Key s) (vs_Backends s) out) states []"

section \<open>Sorting and searching\<close>

lemma mset_insert_by: "mset (insert_by c x ys) = add_mset x (mset ys)"
  by (induction ys) auto

lemma mset_SortFunc [simp]: "mset (SortFunc c xs) = mset xs"
  unfolding SortFunc_def by (induction xs) (auto simp: mset_insert_by)

lemma set_SortFunc [simp]: "set (SortFunc c xs) = set xs"
  by (metis mset_SortFunc set_mset_mset)

lemma sorted_insert_by:
  assumes "\<forall>y \<in> set ys. c x y = cmp (f x) (f y)" "sorted (map f ys)"
  shows "sorted (map f (insert_by c x ys))"
  using assms
proof (induction ys)
  case (Cons y ys)
  have "set (insert_by c x ys) = insert x (set ys)" using mset_insert_by [of c x ys] by (metis set_mset_add_mset_insert set_mset_mset)
  then show ?case using Cons by (auto simp: cmp_def split: if_split_asm)
qed simp

lemma sorted_SortFunc:
  assumes "\<forall>x \<in> set xs. \<forall>y \<in> set xs. c x y = cmp (f x) (f y)"
  shows "sorted (map f (SortFunc c xs))"
  using assms
proof (induction xs)
  case Nil
  then show ?case by (simp add: SortFunc_def)
next
  case (Cons x xs)
  then have "sorted (map f (SortFunc c xs))" by simp
  then have "sorted (map f (insert_by c x (SortFunc c xs)))"
    using Cons.prems by (intro sorted_insert_by) simp_all
  then show ?case by (simp add: SortFunc_def)
qed

lemma bin_search_spec:
  assumes "sorted xs" "i \<le> j" "j \<le> length xs" "\<forall>k < i. xs ! k < x" "\<forall>k. j \<le> k \<and> k < length xs \<longrightarrow> x \<le> xs ! k"
  shows "let r = bin_search xs x i j in r \<le> length xs \<and> (\<forall>k < r. xs ! k < x) \<and> (\<forall>k. r \<le> k \<and> k < length xs \<longrightarrow> x \<le> xs ! k)"
  using assms
proof (induction xs x i j rule: bin_search.induct)
  case (1 xs x i j)
  show ?case
  proof (cases "i < j")
    case True
    define h where "h = (i + j) div 2"
    have h: "i \<le> h" "h < j" using True by (auto simp: h_def)
    show ?thesis
    proof (cases "xs ! h < x")
      case True
      have "\<forall>k < h + 1. xs ! k < x"
        using True "1.prems"(1,3) h by (auto simp: less_Suc_eq_le) (metis le_less_trans less_le_trans sorted_nth_mono)
      then show ?thesis
        using "1.IH"(1) [OF \<open>i < j\<close> h_def True "1.prems"(1)] "1.prems" h \<open>i < j\<close> True
        by (simp add: bin_search.simps [of xs x i j] h_def [symmetric])
    next
      case False
      have "\<forall>k. h \<le> k \<and> k < length xs \<longrightarrow> x \<le> xs ! k"
        using False "1.prems"(1) by (metis not_le order_trans sorted_nth_mono)
      then show ?thesis
        using "1.IH"(2) [OF \<open>i < j\<close> h_def False "1.prems"(1)] "1.prems" h \<open>i < j\<close> False
        by (simp add: bin_search.simps [of xs x i j] h_def [symmetric])
    qed
  next
    case False
    then show ?thesis using "1.prems" by (simp add: bin_search.simps [of xs x i j] bin_search.simps [of xs x j j])
  qed
qed

lemma BinarySearch_member: "sorted xs \<Longrightarrow> BinarySearch xs x \<longleftrightarrow> x \<in> set xs"
proof -
  assume s: "sorted xs"
  define r where "r = bin_search xs x 0 (length xs)"
  have r: "\<forall>k < r. xs ! k < x" "\<forall>k. r \<le> k \<and> k < length xs \<longrightarrow> x \<le> xs ! k"
    using bin_search_spec [OF s, of 0 "length xs" x] unfolding Let_def r_def [symmetric] by (meson le0 le_refl not_less not_less_zero)+
  show ?thesis
  proof
    assume "BinarySearch xs x"
    then show "x \<in> set xs" by (metis BinarySearch_def nth_mem)
  next
    assume "x \<in> set xs"
    then obtain k where k: "k < length xs" "xs ! k = x" by (auto simp: in_set_conv_nth)
    then have "r \<le> k" using r(1) by (metis less_irrefl not_le)
    then have "xs ! r \<le> x" "x \<le> xs ! r" "r < length xs" using r(2) k s sorted_nth_mono [OF s, of r k] by auto
    then show "BinarySearch xs x" by (simp add: BinarySearch_def r_def [symmetric] Let_def)
  qed
qed

lemma set_setMinus: "sorted b \<Longrightarrow> set (setMinus a b) = set a - set b"
  by (auto simp: setMinus_def BinarySearch_member)

text \<open>On keys whose addresses parse the comparison is the order of the quadruple below.\<close>

definition key_order :: "PortKey \<Rightarrow> addr \<times> string \<times> int \<times> string" where
  "key_order k = (the (ParseAddr (pk_ClusterIP k)), pk_ClusterIP k, pk_Port k, pk_Protocol k)"

lemma comparePortKey_order:
  assumes "ParseAddr (pk_ClusterIP a) \<noteq> None" "ParseAddr (pk_ClusterIP b) \<noteq> None"
  shows "comparePortKey a b = cmp (key_order a) (key_order b)"
proof -
  have c: "addr_Compare x y = cmp x y" for x y by (simp add: addr_Compare_def cmp_def)
  show ?thesis
    using assms by (auto simp: comparePortKey_def key_order_def c cmp_def less_prod_def')
qed

lemma inj_key_order: "key_order a = key_order b \<longleftrightarrow> a = b"
  by (auto simp: key_order_def intro: PortKey.equality)

section \<open>Differences\<close>

lemma normalizeSet_eq_iff: "normalizeSet a = normalizeSet b \<longleftrightarrow> set a = set b"
  by (simp add: normalizeSet_def sort_compact_eq_iff)

lemma visit_spec:
  "map dv_Key (visit want have k) = (if set (view_at want k) = set (view_at have k) then [] else [k])"
  "d \<in> set (visit want have k) \<Longrightarrow> dv_Key d = k \<and> set (dv_Want d) = set (view_at want k) \<and> set (dv_Have d) = set (view_at have k)
     \<and> set (dv_Missing d) = set (view_at want k) - set (view_at have k) \<and> set (dv_Extra d) = set (view_at have k) - set (view_at want k)"
  by (auto simp: visit_def Let_def normalizeSet_eq_iff set_setMinus normalizeSet_def sort_compact_eq_iff split: if_split_asm)

lemma concat_visit_keys:
  "map dv_Key (concat (map (visit want have) ks)) = filter (\<lambda>k. set (view_at want k) \<noteq> set (view_at have k)) ks"
  by (induction ks) (simp_all add: visit_spec)

lemma view_at_absent: "k \<notin> fst ` set v \<Longrightarrow> view_at v k = []"
  by (simp add: view_at_def map_of_eq_None_iff [THEN iffD2])

definition diff_list :: "view \<Rightarrow> view \<Rightarrow> Divergence list" where
  "diff_list want have = concat (map (visit want have) (map fst want @ filter (\<lambda>k. map_of want k = None) (map fst have)))"

lemma DiffBackendSets_list: "DiffBackendSets want have = SortFunc (\<lambda>a b. comparePortKey (dv_Key a) (dv_Key b)) (diff_list want have)"
  by (simp add: DiffBackendSets_def diff_list_def)

lemma diff_list_key_list:
  "map dv_Key (diff_list want have) = filter (\<lambda>k. set (view_at want k) \<noteq> set (view_at have k))
     (map fst want @ filter (\<lambda>k. map_of want k = None) (map fst have))"
  unfolding diff_list_def by (rule concat_visit_keys)

lemma diff_list_key_set: "dv_Key ` set (diff_list want have) = {k. set (view_at want k) \<noteq> set (view_at have k)}"
proof -
  have "dv_Key ` set (diff_list want have) = set (map dv_Key (diff_list want have))" by simp
  also have "\<dots> = {k. set (view_at want k) \<noteq> set (view_at have k)}"
    unfolding diff_list_key_list by (auto simp: map_of_eq_None_iff dest: view_at_absent) (metis image_eqI prod.sel(1) view_at_absent)+
  finally show ?thesis .
qed

lemma diff_keys: "dv_Key ` set (DiffBackendSets want have) = {k. set (view_at want k) \<noteq> set (view_at have k)}"
  by (simp add: DiffBackendSets_list diff_list_key_set)

lemma diff_list_keys:
  assumes "distinct (map fst want)" "distinct (map fst have)"
  shows "distinct (map dv_Key (diff_list want have))"
    and "set (map dv_Key (diff_list want have)) = {k. set (view_at want k) \<noteq> set (view_at have k)}"
proof -
  have "distinct (map fst want @ filter (\<lambda>k. map_of want k = None) (map fst have))"
    using assms by (auto simp: map_of_eq_None_iff)
  then show "distinct (map dv_Key (diff_list want have))" unfolding diff_list_key_list by (rule distinct_filter)
qed (simp add: diff_list_key_set)

text \<open>What the table reports for a key is what the API view has, once its endpoints are installed.\<close>

lemma set_admitted_strings:
  "set (admitted_strings api eps) = addrport_String ` {ap. \<exists>ep \<in> set eps. admitEndpoint (api_Validate api) ep = Some ap}"
  by (induction eps) (auto split: option.split)

lemma ready_backends_addrs: "be_addr ` set (ready_backends vl t eps) = {ap. \<exists>ep \<in> set eps. admitEndpoint vl ep = Some ap}"
  by (induction eps) (auto split: option.split)

lemma vip_state_backends: "vs_Backends (vip_state t key) = map (\<lambda>b. addrport_String (be_addr b)) (Backends t key)"
  by (simp add: vip_state_def Backends_def Let_def split: option.split)

lemma view_at_update: "view_at (AList.update k s v) k' = (if k' = k then s else view_at v k')"
  by (simp add: view_at_def update_conv')

lemma view_at_fold:
  "\<forall>(k', s) \<in> set es. k' = key \<longrightarrow> s = b \<Longrightarrow>
    view_at (fold (\<lambda>(k, s) out. AList.update k s out) es v) key = (if key \<in> fst ` set es then b else view_at v key)"
  by (induction es arbitrary: v) (auto simp: view_at_update)

lemma BackendSets_fold:
  "BackendSets states = fold (\<lambda>(k, s) out. AList.update k s out) (map (\<lambda>s. (vs_Key s, vs_Backends s)) states) []"
  by (simp add: BackendSets_def fold_map comp_def)

lemma view_at_table:
  "view_at (BackendSets (VIPStates keys t)) key =
    (if key \<in> set keys then map (\<lambda>b. addrport_String (be_addr b)) (Backends t key) else [])"
proof -
  let ?es = "map (\<lambda>s. (vs_Key s, vs_Backends s)) (VIPStates keys t)"
  have es: "set ?es = (\<lambda>k. (k, map (\<lambda>b. addrport_String (be_addr b)) (Backends t k))) ` set keys"
    by (auto simp: VIPStates_def vip_state_backends image_image) (auto simp: vip_state_def Let_def)
  have f: "fst ` set ?es = set keys" unfolding es by force
  have "view_at (BackendSets (VIPStates keys t)) key =
      (if key \<in> fst ` set ?es then map (\<lambda>b. addrport_String (be_addr b)) (Backends t key) else view_at [] key)"
    unfolding BackendSets_fold by (rule view_at_fold) (use es in auto)
  then show ?thesis unfolding f by (simp add: view_at_def)
qed

section \<open>Properties\<close>

definition demo_view_key :: "string \<Rightarrow> PortKey" where
  "demo_view_key ip = \<lparr>pk_ClusterIP = ip, pk_Port = 80, pk_Protocol = ''TCP''\<rparr>"

text \<open>C35. The comparison of two views is exact: it reports every key whose backend sets differ, as sets,
  once and in address order, with what is missing and what is extra; a key absent from a view counts
  as empty there.\<close>

theorem diff_backend_sets_exact:
  assumes "distinct (map fst want)" "distinct (map fst have)"
    and "\<forall>k \<in> fst ` set want \<union> fst ` set have. ParseAddr (pk_ClusterIP k) \<noteq> None"
  shows "set (map dv_Key (DiffBackendSets want have)) = {k. set (view_at want k) \<noteq> set (view_at have k)}
    \<and> sorted_wrt (\<lambda>a b. comparePortKey a b < 0) (map dv_Key (DiffBackendSets want have))
    \<and> (\<forall>d \<in> set (DiffBackendSets want have).
         set (dv_Want d) = set (view_at want (dv_Key d)) \<and> set (dv_Have d) = set (view_at have (dv_Key d))
         \<and> set (dv_Missing d) = set (dv_Want d) - set (dv_Have d) \<and> set (dv_Extra d) = set (dv_Have d) - set (dv_Want d))"
proof (intro conjI)
  let ?ds = "DiffBackendSets want have" and ?l = "diff_list want have"
  note k = diff_list_keys [OF assms(1,2)]
  show keys: "set (map dv_Key ?ds) = {k. set (view_at want k) \<noteq> set (view_at have k)}"
    using k(2) by (simp add: DiffBackendSets_list)
  have p: "ParseAddr (pk_ClusterIP (dv_Key d)) \<noteq> None" if "d \<in> set ?l" for d
  proof -
    have "dv_Key d \<in> fst ` set want \<union> fst ` set have"
      using that by (auto simp: diff_list_def visit_def Let_def rev_image_eqI split: if_split_asm)
    then show ?thesis using assms(3) by blast
  qed
  have "sorted (map (\<lambda>d. key_order (dv_Key d)) ?ds)"
    unfolding DiffBackendSets_list by (rule sorted_SortFunc) (use p in \<open>simp add: comparePortKey_order\<close>)
  then have s: "sorted (map key_order (map dv_Key ?ds))" by (simp add: comp_def)
  have "mset (map dv_Key ?ds) = mset (map dv_Key ?l)" by (simp add: DiffBackendSets_list)
  then have "distinct (map dv_Key ?ds)" using k(1) by (metis mset_eq_imp_distinct_iff)
  then have "distinct (map key_order (map dv_Key ?ds))" by (simp add: distinct_map inj_on_def inj_key_order)
  then have "sorted_wrt (<) (map key_order (map dv_Key ?ds))" using s by (simp add: strict_sorted_iff)
  moreover have "key_order x < key_order y \<longrightarrow> comparePortKey x y < 0"
    if "x \<in> set (map dv_Key ?ds)" "y \<in> set (map dv_Key ?ds)" for x y
    using that p comparePortKey_order [of x y] by (auto simp: DiffBackendSets_list cmp_def)
  ultimately show "sorted_wrt (\<lambda>a b. comparePortKey a b < 0) (map dv_Key ?ds)"
    unfolding sorted_wrt_map by (auto elim!: sorted_wrt_mono_rel [rotated])
  show "\<forall>d \<in> set ?ds.
      set (dv_Want d) = set (view_at want (dv_Key d)) \<and> set (dv_Have d) = set (view_at have (dv_Key d))
      \<and> set (dv_Missing d) = set (dv_Want d) - set (dv_Have d) \<and> set (dv_Extra d) = set (dv_Have d) - set (dv_Want d)"
  proof
    fix d assume "d \<in> set ?ds"
    then obtain k where "d \<in> set (visit want have k)" by (auto simp: DiffBackendSets_list diff_list_def)
    from visit_spec(2) [OF this] show "set (dv_Want d) = set (view_at want (dv_Key d)) \<and> set (dv_Have d) = set (view_at have (dv_Key d))
      \<and> set (dv_Missing d) = set (dv_Want d) - set (dv_Have d) \<and> set (dv_Extra d) = set (dv_Have d) - set (dv_Want d)" by simp
  qed
qed

theorem diff_backend_sets_exact_witness:
  "set (map dv_Key (DiffBackendSets [(demo_view_key ''10.43.0.2'', [''b'', ''a'', ''b'']), (demo_view_key ''10.43.0.1'', [''a''])]
     [(demo_view_key ''10.43.0.2'', [''a'', ''b''])])) = {demo_view_key ''10.43.0.1''}"
proof -
  let ?w = "[(demo_view_key ''10.43.0.2'', [''b'', ''a'', ''b'']), (demo_view_key ''10.43.0.1'', [''a''])]"
  let ?h = "[(demo_view_key ''10.43.0.2'', [''a'', ''b''])]"
  have "ParseAddr ''10.43.0.2'' \<noteq> None" "ParseAddr ''10.43.0.1'' \<noteq> None" by code_simp+
  then have "set (map dv_Key (DiffBackendSets ?w ?h)) = {k. set (view_at ?w k) \<noteq> set (view_at ?h k)}"
    by (intro diff_backend_sets_exact [THEN conjunct1]) (auto simp: demo_view_key_def)
  also have "\<dots> = {demo_view_key ''10.43.0.1''}" by (auto simp: view_at_def demo_view_key_def split: if_split_asm)
  finally show ?thesis .
qed

end
