(* ===== verification/Workers.thy ===== *)
theory Workers
  imports Services Affinity Aliases "HOL-Library.Multiset"
begin

text \<open>
  The service proxy's per-port workers (\<^verbatim>\<open>pkg/proxy/proxy.go\<close>). Every ClusterIP:port has one worker
  goroutine, the only one that opens and closes the port's listener; callers hand it events through a
  channel of sixteen places. A goroutine's turn is a step of \<open>px_step\<close>, so that a caller which looked a
  worker up may send to it after other steps. Looking up the worker, removing it and the capture of all
  workers by a shutdown are critical sections of one mutex.

  Binding sockets and opening NodePort groups are the fields of \<open>proxy_env\<close>; a socket's network name
  and the accept loop are left out. Channels that are closed are counted, because closing one twice
  panics.
\<close>

section \<open>Listeners\<close>

record 'k proxy_env =
  pe_api :: service_api
  pe_ifc :: "'k ifconfig"
  pe_ListenTCP :: "addrport \<Rightarrow> 'k \<Rightarrow> bool \<times> 'k"
  pe_ListenUDP :: "addrport \<Rightarrow> 'k \<Rightarrow> bool \<times> 'k"
  pe_OpenNodePort :: "int \<Rightarrow> 'k \<Rightarrow> bool \<times> 'k"
  pe_CloseTCP :: "addrport \<Rightarrow> 'k \<Rightarrow> 'k"
  pe_CloseUDP :: "addrport \<Rightarrow> 'k \<Rightarrow> 'k"
  pe_CloseNodePort :: "int \<Rightarrow> 'k \<Rightarrow> 'k"

record listener =
  ln_key :: PortKey
  ln_clusterIP :: "addrport option"
  ln_nodePorts :: "int option"
  ln_udp :: "addrport option"
  ln_aliasIP :: addr

definition openListener ::
  "'k proxy_env \<Rightarrow> PortKey \<Rightarrow> svc_port \<Rightarrow> proxyAliases \<times> 'k \<Rightarrow> listener option \<times> proxyAliases \<times> 'k" where
  "openListener env key port s =
     (case ParseAddr (pk_ClusterIP key) of
        None \<Rightarrow> (None, s)
      | Some ip \<Rightarrow>
          (case proxy_Ensure (pe_ifc env) ip s of
             (Inl e, s1) \<Rightarrow> (None, s1)
           | (Inr u, m1, k1) \<Rightarrow>
               let clusterAP = AddrPortFrom ip (word_of_int (sp_Port port));
                   ln = \<lparr>ln_key = key, ln_clusterIP = None, ln_nodePorts = None, ln_udp = None, ln_aliasIP = ip\<rparr> in
               if pk_Protocol key = api_UDP (pe_api env) then
                 (case pe_ListenUDP env clusterAP k1 of
                    (False, k2) \<Rightarrow> (None, snd (proxy_Remove (pe_ifc env) ip (m1, k2)))
                  | (True, k2) \<Rightarrow> (Some (ln\<lparr>ln_udp := Some clusterAP\<rparr>), m1, k2))
               else
                 (case pe_ListenTCP env clusterAP k1 of
                    (False, k2) \<Rightarrow> (None, snd (proxy_Remove (pe_ifc env) ip (m1, k2)))
                  | (True, k2) \<Rightarrow>
                      if sp_NodePort port \<noteq> 0 then
                        (case pe_OpenNodePort env (sp_NodePort port) k2 of
                           (False, k3) \<Rightarrow>
                             (None, snd (proxy_Remove (pe_ifc env) ip (m1, pe_CloseTCP env clusterAP k3)))
                         | (True, k3) \<Rightarrow>
                             (Some (ln\<lparr>ln_clusterIP := Some clusterAP, ln_nodePorts := Some (sp_NodePort port)\<rparr>), m1, k3))
                      else (Some (ln\<lparr>ln_clusterIP := Some clusterAP\<rparr>), m1, k2))))"

definition listener_Close :: "'k proxy_env \<Rightarrow> listener \<Rightarrow> proxyAliases \<times> 'k \<Rightarrow> proxyAliases \<times> 'k" where
  "listener_Close env l s =
     (let (m, k0) = s;
          k1 = (case ln_clusterIP l of None \<Rightarrow> k0 | Some ap \<Rightarrow> pe_CloseTCP env ap k0);
          k2 = (case ln_nodePorts l of None \<Rightarrow> k1 | Some n \<Rightarrow> pe_CloseNodePort env n k1);
          k3 = (case ln_udp l of None \<Rightarrow> k2 | Some ap \<Rightarrow> pe_CloseUDP env ap k2) in
      snd (proxy_Remove (pe_ifc env) (ln_aliasIP l) (m, k3)))"

section \<open>Workers\<close>

datatype portEvent =
    Barrier nat
  | DeletePort
  | SetPort svc_port serviceRef trafficPolicy affinityConfig "Endpoint list"

record portWorker =
  wk_key :: PortKey
  wk_ch :: "portEvent list"
  wk_stop :: nat
  wk_done :: bool
  wk_ln :: "listener option"
  wk_pending :: "svc_port option"
  wk_backoff :: int
  wk_armed :: bool

record 'k Proxy =
  px_workers :: "PortKey \<rightharpoonup> nat"
  px_objs :: "nat \<rightharpoonup> portWorker"
  px_next :: nat
  px_done :: bool
  px_captured :: "nat set"
  px_closing :: "nat set"
  px_senders :: "(nat \<times> portEvent) multiset"
  px_barriers :: "nat set"
  px_table :: RoutingTable
  px_aliases :: proxyAliases
  px_kernel :: 'k
  px_exempt :: "addr set"

definition openRetryInitial :: int where
  "openRetryInitial = 250 * 1000000"

definition openRetryMax :: int where
  "openRetryMax = 30 * 1000000000"

definition chan_size :: nat where
  "chan_size = 16"

definition new_worker :: "PortKey \<Rightarrow> portWorker" where
  "new_worker key = \<lparr>wk_key = key, wk_ch = [], wk_stop = 0, wk_done = False, wk_ln = None, wk_pending = None,
     wk_backoff = openRetryInitial, wk_armed = False\<rparr>"

definition px_worker :: "PortKey \<Rightarrow> 'k Proxy \<Rightarrow> nat option \<times> 'k Proxy" where
  "px_worker key p =
     (if px_done p then (None, p)
      else case px_workers p key of
        Some i \<Rightarrow> (Some i, p)
      | None \<Rightarrow>
          (Some (px_next p),
           p\<lparr>px_workers := (px_workers p)(key \<mapsto> px_next p), px_objs := (px_objs p)(px_next p \<mapsto> new_worker key),
             px_next := px_next p + 1\<rparr>))"

definition removeWorker :: "nat \<Rightarrow> portWorker \<Rightarrow> 'k Proxy \<Rightarrow> 'k Proxy" where
  "removeWorker i w p =
     (if px_workers p (wk_key w) = Some i
      then p\<lparr>px_workers := (px_workers p)(wk_key w := None), px_objs := (px_objs p)(i \<mapsto> w\<lparr>wk_stop := wk_stop w + 1\<rparr>)\<rparr>
      else p\<lparr>px_objs := (px_objs p)(i \<mapsto> w)\<rparr>)"

definition put_io :: "proxyAliases \<times> 'k \<Rightarrow> 'k Proxy \<Rightarrow> 'k Proxy" where
  "put_io s p = p\<lparr>px_aliases := fst s, px_kernel := snd s\<rparr>"

definition open_port :: "'k proxy_env \<Rightarrow> svc_port \<Rightarrow> nat \<Rightarrow> portWorker \<Rightarrow> 'k Proxy \<Rightarrow> 'k Proxy" where
  "open_port env port i w p =
     (case openListener env (wk_key w) port (px_aliases p, px_kernel p) of
        (None, s) \<Rightarrow>
          put_io s p\<lparr>px_objs := (px_objs p)(i \<mapsto> w\<lparr>wk_pending := Some port, wk_armed := True,
            wk_backoff := min (2 * wk_backoff w) openRetryMax\<rparr>)\<rparr>
      | (Some l, s) \<Rightarrow>
          put_io s p\<lparr>px_objs := (px_objs p)(i \<mapsto> w\<lparr>wk_ln := Some l, wk_pending := None, wk_backoff := openRetryInitial\<rparr>)\<rparr>)"

definition close_ln :: "'k proxy_env \<Rightarrow> portWorker \<Rightarrow> 'k Proxy \<Rightarrow> 'k Proxy" where
  "close_ln env w p =
     (case wk_ln w of None \<Rightarrow> p | Some l \<Rightarrow> put_io (listener_Close env l (px_aliases p, px_kernel p)) p)"

text \<open>The three cases of the worker's select: a closed stop channel, the retry timer, an event.\<close>

definition worker_stop :: "'k proxy_env \<Rightarrow> nat \<Rightarrow> portWorker \<Rightarrow> 'k Proxy \<Rightarrow> 'k Proxy" where
  "worker_stop env i w p =
     close_ln env w p\<lparr>px_objs := (px_objs p)(i \<mapsto> w\<lparr>wk_ln := None, wk_done := True\<rparr>)\<rparr>"

definition worker_retry :: "'k proxy_env \<Rightarrow> nat \<Rightarrow> portWorker \<Rightarrow> 'k Proxy \<Rightarrow> 'k Proxy" where
  "worker_retry env i w p =
     (let w' = w\<lparr>wk_armed := False\<rparr>; p' = p\<lparr>px_objs := (px_objs p)(i \<mapsto> w')\<rparr> in
      case (wk_ln w, wk_pending w) of (None, Some port) \<Rightarrow> open_port env port i w' p' | _ \<Rightarrow> p')"

fun worker_event :: "'k proxy_env \<Rightarrow> nat \<Rightarrow> portWorker \<Rightarrow> portEvent \<Rightarrow> 'k Proxy \<Rightarrow> 'k Proxy" where
  "worker_event env i w (Barrier b) p = p\<lparr>px_barriers := insert b (px_barriers p), px_objs := (px_objs p)(i \<mapsto> w)\<rparr>"
| "worker_event env i w DeletePort p =
     removeWorker i (w\<lparr>wk_ln := None, wk_done := True\<rparr>)
       (close_ln env w p\<lparr>px_table := rt_Delete (wk_key w) (px_table p)\<rparr>)"
| "worker_event env i w (SetPort port svc policy affinity endpoints) p =
     (let p' = p\<lparr>px_table := snd (installEndpoints (api_Validate (pe_api env)) (wk_key w) svc endpoints policy affinity (px_table p)),
                  px_objs := (px_objs p)(i \<mapsto> w)\<rparr> in
      if wk_ln w = None then open_port env port i w p' else p')"

section \<open>Callers\<close>

datatype proxy_error = ErrParseClusterIP | ErrShuttingDown | ErrWorkerStopped

definition isExemptVIP :: "'k Proxy \<Rightarrow> addr \<Rightarrow> bool" where
  "isExemptVIP p a \<longleftrightarrow> a \<in> px_exempt p"

text \<open>The part of \<^verbatim>\<open>reconcileServicePort\<close> before it sends: an error, nothing to do, or the worker to send to.\<close>

definition reconcile_begin ::
  "'k proxy_env \<Rightarrow> serviceRef \<Rightarrow> string \<Rightarrow> svc_port \<Rightarrow> trafficPolicy \<Rightarrow> affinityConfig \<Rightarrow> Endpoint list \<Rightarrow> 'k Proxy \<Rightarrow>
    proxy_error option \<times> 'k Proxy" where
  "reconcile_begin env svc clusterIP port policy affinity endpoints p =
     (case ParseAddr clusterIP of
        None \<Rightarrow> (Some ErrParseClusterIP, p)
      | Some a \<Rightarrow>
          if isExemptVIP p a then (None, p)
          else case px_worker (port_key (pe_api env) clusterIP port) p of
            (None, p') \<Rightarrow> (Some ErrShuttingDown, p')
          | (Some i, p') \<Rightarrow>
              (None, p'\<lparr>px_senders := add_mset (i, SetPort port svc policy affinity endpoints) (px_senders p')\<rparr>))"

definition delete_begin :: "PortKey \<Rightarrow> 'k Proxy \<Rightarrow> 'k Proxy" where
  "delete_begin key p =
     (case px_workers p key of None \<Rightarrow> p | Some i \<Rightarrow> p\<lparr>px_senders := add_mset (i, DeletePort) (px_senders p)\<rparr>)"

definition shutdown_begin :: "'k Proxy \<Rightarrow> 'k Proxy" where
  "shutdown_begin p = p\<lparr>px_done := True, px_captured := ran (px_workers p), px_closing := ran (px_workers p), px_workers := Map.empty\<rparr>"

definition shutdown_close :: "nat \<Rightarrow> portWorker \<Rightarrow> 'k Proxy \<Rightarrow> 'k Proxy" where
  "shutdown_close i w p =
     p\<lparr>px_closing := px_closing p - {i}, px_objs := (px_objs p)(i \<mapsto> w\<lparr>wk_stop := wk_stop w + 1\<rparr>)\<rparr>"

inductive px_step :: "'k proxy_env \<Rightarrow> 'k Proxy \<Rightarrow> 'k Proxy \<Rightarrow> bool" for env where
  reconcile: "px_step env p (snd (reconcile_begin env svc clusterIP port policy affinity endpoints p))"
| delete: "px_step env p (delete_begin key p)"
| barrier: "i \<in> ran (px_workers p) \<Longrightarrow> px_step env p (p\<lparr>px_senders := add_mset (i, Barrier b) (px_senders p)\<rparr>)"
| send: "(i, ev) \<in># px_senders p \<Longrightarrow> px_objs p i = Some w \<Longrightarrow> length (wk_ch w) < chan_size \<Longrightarrow>
    px_step env p (p\<lparr>px_senders := px_senders p - {#(i, ev)#}, px_objs := (px_objs p)(i \<mapsto> w\<lparr>wk_ch := wk_ch w @ [ev]\<rparr>)\<rparr>)"
| send_stopped: "(i, ev) \<in># px_senders p \<Longrightarrow> px_objs p i = Some w \<Longrightarrow> 0 < wk_stop w \<Longrightarrow>
    px_step env p (p\<lparr>px_senders := px_senders p - {#(i, ev)#}\<rparr>)"
| stopped: "px_objs p i = Some w \<Longrightarrow> \<not> wk_done w \<Longrightarrow> 0 < wk_stop w \<Longrightarrow> px_step env p (worker_stop env i w p)"
| retry: "px_objs p i = Some w \<Longrightarrow> \<not> wk_done w \<Longrightarrow> wk_armed w \<Longrightarrow> px_step env p (worker_retry env i w p)"
| event: "px_objs p i = Some w \<Longrightarrow> \<not> wk_done w \<Longrightarrow> wk_ch w = ev # ch \<Longrightarrow>
    px_step env p (worker_event env i (w\<lparr>wk_ch := ch\<rparr>) ev p)"
| shutdown: "\<not> px_done p \<Longrightarrow> px_step env p (shutdown_begin p)"
| close_stop: "i \<in> px_closing p \<Longrightarrow> px_objs p i = Some w \<Longrightarrow> px_step env p (shutdown_close i w p)"

definition px_init :: "RoutingTable \<Rightarrow> addr set \<Rightarrow> 'k \<Rightarrow> 'k Proxy" where
  "px_init t exempt k =
     \<lparr>px_workers = Map.empty, px_objs = Map.empty, px_next = 0, px_done = False, px_captured = {}, px_closing = {},
      px_senders = {#}, px_barriers = {}, px_table = t, px_aliases = {}, px_kernel = k, px_exempt = exempt\<rparr>"

inductive px_reach :: "'k proxy_env \<Rightarrow> RoutingTable \<Rightarrow> addr set \<Rightarrow> 'k \<Rightarrow> 'k Proxy \<Rightarrow> bool" for env t exempt k where
  init: "px_reach env t exempt k (px_init t exempt k)"
| step: "px_reach env t exempt k p \<Longrightarrow> px_step env p q \<Longrightarrow> px_reach env t exempt k q"

section \<open>The invariant\<close>

text \<open>
  A worker that still matters is in the map or was captured by the shutdown; only such a worker has a
  listener or a routing entry, and there is one per key.
\<close>

definition holds :: "'k Proxy \<Rightarrow> nat \<Rightarrow> bool" where
  "holds p i \<longleftrightarrow> i \<in> ran (px_workers p) \<or> i \<in> px_captured p"

definition maps_ok :: "'k Proxy \<Rightarrow> bool" where
  "maps_ok p \<longleftrightarrow>
     (\<forall>key i. px_workers p key = Some i \<longrightarrow> (\<exists>w. px_objs p i = Some w \<and> wk_key w = key \<and> wk_stop w = 0)) \<and>
     (\<forall>i \<in> px_captured p. \<exists>w. px_objs p i = Some w) \<and>
     (\<forall>i \<in> px_captured p. \<forall>j \<in> px_captured p. \<forall>w v. px_objs p i = Some w \<and> px_objs p j = Some v \<and> wk_key w = wk_key v \<longrightarrow> i = j) \<and>
     (\<forall>i \<ge> px_next p. px_objs p i = None) \<and>
     (if px_done p then px_workers p = Map.empty else px_captured p = {})"

definition chans_ok :: "'k Proxy \<Rightarrow> bool" where
  "chans_ok p \<longleftrightarrow>
     px_closing p \<subseteq> px_captured p \<and>
     (\<forall>i w. px_objs p i = Some w \<longrightarrow> wk_stop w \<le> 1 \<and> length (wk_ch w) \<le> chan_size \<and> (i \<in> px_closing p \<longrightarrow> wk_stop w = 0)) \<and>
     (\<forall>i ev. (i, ev) \<in># px_senders p \<longrightarrow> px_objs p i \<noteq> None)"

definition held_ok :: "'k Proxy \<Rightarrow> bool" where
  "held_ok p \<longleftrightarrow>
     (\<forall>i w. px_objs p i = Some w \<and> \<not> wk_done w \<longrightarrow> holds p i) \<and>
     (\<forall>i w. px_objs p i = Some w \<and> wk_ln w \<noteq> None \<longrightarrow> \<not> wk_done w) \<and>
     (\<forall>i w l. px_objs p i = Some w \<and> wk_ln w = Some l \<longrightarrow> ln_key l = wk_key w) \<and>
     (\<forall>key. sn_states (rt_snap (px_table p)) key \<noteq> None \<longrightarrow> (\<exists>i w. holds p i \<and> px_objs p i = Some w \<and> wk_key w = key))"

definition px_ok :: "'k Proxy \<Rightarrow> bool" where
  "px_ok p \<longleftrightarrow> maps_ok p \<and> chans_ok p \<and> held_ok p"

lemma px_okD:
  assumes "px_ok p"
  shows "px_workers p key = Some i \<Longrightarrow> \<exists>w. px_objs p i = Some w \<and> wk_key w = key \<and> wk_stop w = 0"
    and "i \<in> px_captured p \<Longrightarrow> \<exists>w. px_objs p i = Some w"
    and "i \<in> px_captured p \<Longrightarrow> px_done p"
    and "px_objs p i = Some w \<Longrightarrow> \<not> wk_done w \<Longrightarrow> holds p i"
    and "px_done p \<Longrightarrow> px_workers p = Map.empty"
  using assms by (auto simp: px_ok_def maps_ok_def held_ok_def split: if_split_asm)

text \<open>A turn of one worker: its own object changes, keeping key and stop channel, and at most its own
  routing entry appears.\<close>

lemma px_ok_turn:
  assumes ok: "px_ok p" and w: "px_objs p i = Some w" "px_objs q = (px_objs p)(i \<mapsto> w')"
    and same: "px_workers q = px_workers p" "px_next q = px_next p" "px_done q = px_done p"
      "px_captured q = px_captured p" "px_closing q = px_closing p" "px_senders q \<subseteq># px_senders p"
    and new: "wk_key w' = wk_key w" "wk_stop w' = wk_stop w" "length (wk_ch w') \<le> chan_size"
      "\<not> wk_done w' \<Longrightarrow> \<not> wk_done w" "wk_ln w' \<noteq> None \<Longrightarrow> \<not> wk_done w' \<and> ln_key (the (wk_ln w')) = wk_key w"
    and tab: "\<And>k. sn_states (rt_snap (px_table q)) k \<noteq> None \<Longrightarrow>
      sn_states (rt_snap (px_table p)) k \<noteq> None \<or> k = wk_key w \<and> holds p i"
  shows "px_ok q"
proof -
  have h: "holds q j = holds p j" for j by (simp add: holds_def same)
  have fwd: "\<exists>v. px_objs q j = Some v \<and> wk_key v = wk_key v0 \<and> wk_stop v = wk_stop v0" if "px_objs p j = Some v0" for j v0
    using w new(1,2) that by (cases "j = i") auto
  have bwd: "\<exists>v0. px_objs p j = Some v0 \<and> wk_key v = wk_key v0 \<and> wk_stop v = wk_stop v0" if "px_objs q j = Some v" for j v
    using w new(1,2) that by (cases "j = i") auto
  have none: "px_objs q j = None \<longleftrightarrow> px_objs p j = None" for j using w by auto
  have mp: "maps_ok p" and cp: "chans_ok p" using ok by (simp_all add: px_ok_def)
  have m: "maps_ok q"
    unfolding maps_ok_def same none
  proof (intro conjI allI ballI impI)
    fix key j assume "px_workers p key = Some j"
    then show "\<exists>v. px_objs q j = Some v \<and> wk_key v = key \<and> wk_stop v = 0" using mp fwd unfolding maps_ok_def by metis
  next
    fix j assume "j \<in> px_captured p"
    then show "\<exists>v. px_objs q j = Some v" using mp fwd unfolding maps_ok_def by metis
  next
    fix j j' v v' assume "j \<in> px_captured p" "j' \<in> px_captured p" "px_objs q j = Some v \<and> px_objs q j' = Some v' \<and> wk_key v = wk_key v'"
    then show "j = j'" using mp bwd unfolding maps_ok_def by metis
  qed (use mp in \<open>auto simp: maps_ok_def\<close>)
  have c: "chans_ok q"
    unfolding chans_ok_def same none
  proof (intro conjI allI impI)
    fix j v assume v: "px_objs q j = Some v"
    then show "wk_stop v \<le> 1" using cp bwd unfolding chans_ok_def by metis
    show "length (wk_ch v) \<le> chan_size" using cp v w new(3) unfolding chans_ok_def by (cases "j = i") auto
    show "wk_stop v = 0" if "j \<in> px_closing p" using cp bwd [OF v] that unfolding chans_ok_def by metis
  next
    fix j ev assume "(j, ev) \<in># px_senders q"
    then show "px_objs p j \<noteq> None" using cp mset_subset_eqD [OF same(6)] unfolding chans_ok_def by blast
  qed (use cp in \<open>auto simp: chans_ok_def\<close>)
  have "\<exists>j v. holds p j \<and> px_objs q j = Some v \<and> wk_key v = k" if e: "sn_states (rt_snap (px_table q)) k \<noteq> None" for k
  proof -
    obtain j v where "holds p j" "px_objs p j = Some v" "wk_key v = k"
      using tab [OF e] ok w(1) unfolding px_ok_def held_ok_def by blast
    then show ?thesis using w new(1) by (cases "j = i") auto
  qed
  moreover have "\<forall>j v. px_objs q j = Some v \<and> \<not> wk_done v \<longrightarrow> holds p j"
    "\<forall>j v. px_objs q j = Some v \<and> wk_ln v \<noteq> None \<longrightarrow> \<not> wk_done v"
    "\<forall>j v l. px_objs q j = Some v \<and> wk_ln v = Some l \<longrightarrow> ln_key l = wk_key v"
    using ok w new unfolding px_ok_def held_ok_def by (auto split: if_split_asm)
  ultimately have "held_ok q" unfolding held_ok_def h by blast
  with m c show ?thesis by (simp add: px_ok_def)
qed

lemma openListener_key: "openListener env key port s = (Some l, s') \<Longrightarrow> ln_key l = key"
  by (auto simp: openListener_def Let_def split: option.split_asm prod.split_asm sum.split_asm if_split_asm bool.split_asm)

lemma open_port_turn:
  "\<exists>w' io. open_port env port i w p = (put_io io p)\<lparr>px_objs := (px_objs p)(i \<mapsto> w')\<rparr> \<and> wk_key w' = wk_key w \<and>
     wk_stop w' = wk_stop w \<and> wk_ch w' = wk_ch w \<and> wk_done w' = wk_done w \<and>
     (wk_ln w' = wk_ln w \<or> (\<exists>l. wk_ln w' = Some l \<and> ln_key l = wk_key w))"
proof -
  obtain r io where o: "openListener env (wk_key w) port (px_aliases p, px_kernel p) = (r, io)"
    by (cases "openListener env (wk_key w) port (px_aliases p, px_kernel p)")
  show ?thesis
  proof (cases r)
    case None
    then show ?thesis using o unfolding open_port_def
      by (intro exI [of _ "w\<lparr>wk_pending := Some port, wk_armed := True, wk_backoff := min (2 * wk_backoff w) openRetryMax\<rparr>"]
          exI [of _ io]) simp
  next
    case (Some l)
    then show ?thesis using o openListener_key [OF o [unfolded Some]] unfolding open_port_def
      by (intro exI [of _ "w\<lparr>wk_ln := Some l, wk_pending := None, wk_backoff := openRetryInitial\<rparr>"] exI [of _ io]) simp
  qed
qed

lemma close_ln_put: "\<exists>io. close_ln env w p = put_io io p"
proof (cases "wk_ln w")
  case None
  then show ?thesis by (intro exI [of _ "(px_aliases p, px_kernel p)"]) (simp add: close_ln_def put_io_def)
qed (auto simp: close_ln_def simp del: split_paired_Ex)

lemma sn_states_install:
  "sn_states (rt_snap (snd (installEndpoints vl key svc eps policy aff t))) k \<noteq> None \<Longrightarrow>
    sn_states (rt_snap t) k \<noteq> None \<or> k = key"
  by (auto simp: installEndpoints_def install_store_def Let_def rt_store_def withState_def purgeAffinity_def dropAffinity_def
      advanceMeta_def split: prod.split_asm if_split_asm option.split_asm)

lemma sn_states_Delete: "sn_states (rt_snap (rt_Delete key t)) k = (if k = key then None else sn_states (rt_snap t) k)"
  by (simp add: rt_Delete_def Let_def purgeAffinity_def dropAffinity_def delete_store_def rt_store_def withState_def)

lemma px_ok_event:
  assumes "px_ok p" "px_objs p i = Some w" "\<not> wk_done w" "wk_ch w = ev # ch" "ev \<noteq> DeletePort"
  shows "px_ok (worker_event env i (w\<lparr>wk_ch := ch\<rparr>) ev p)"
proof -
  have len: "length ch \<le> chan_size" and h: "holds p i" and ln: "wk_ln w = Some l \<longrightarrow> ln_key l = wk_key w" for l
    using assms px_okD(4) [OF assms(1,2)] by (auto simp: px_ok_def chans_ok_def held_ok_def dest!: spec [of _ i])
  show ?thesis
  proof (cases ev)
    case (Barrier b)
    then show ?thesis using assms len ln
      by (intro px_ok_turn [OF assms(1,2), where w' = "w\<lparr>wk_ch := ch\<rparr>"]) auto
  next
    case (SetPort port svc policy affinity endpoints)
    let ?w = "w\<lparr>wk_ch := ch\<rparr>"
    let ?q = "p\<lparr>px_table := snd (installEndpoints (api_Validate (pe_api env)) (wk_key w) svc endpoints policy affinity (px_table p)),
      px_objs := (px_objs p)(i \<mapsto> ?w)\<rparr>"
    show ?thesis
    proof (cases "wk_ln w = None")
      case True
      obtain w' io where w': "open_port env port i ?w ?q = (put_io io ?q)\<lparr>px_objs := (px_objs ?q)(i \<mapsto> w')\<rparr>" "wk_key w' = wk_key w"
          "wk_stop w' = wk_stop w" "wk_ch w' = ch" "wk_done w' = wk_done w"
          "wk_ln w' = None \<or> (\<exists>l. wk_ln w' = Some l \<and> ln_key l = wk_key w)"
        using open_port_turn [of env port i ?w ?q] True by auto
      have "worker_event env i ?w ev p = open_port env port i ?w ?q" using SetPort True by (simp add: Let_def)
      then show ?thesis unfolding w'(1)
        using w' len h assms(3) sn_states_install [where t = "px_table p" and key = "wk_key w"]
        by (intro px_ok_turn [OF assms(1,2), where w' = w']) (auto simp: put_io_def simp del: not_None_eq)
    next
      case False
      then obtain l where l: "wk_ln w = Some l" by blast
      have "worker_event env i ?w ev p = ?q" using SetPort l by (simp add: Let_def)
      then show ?thesis
        using len h ln l assms(3) sn_states_install [where t = "px_table p" and key = "wk_key w"]
        by (intro px_ok_turn [OF assms(1,2), where w' = ?w]) (auto simp del: not_None_eq)
    qed
  qed (use assms in simp)
qed

lemma px_ok_remove:
  assumes ok: "px_ok p" and w: "px_objs p i = Some w" "px_workers p (wk_key w) = Some i"
    and fin: "wk_done w" "wk_ln w = None" "sn_states (rt_snap (px_table p)) (wk_key w) = None"
  defines "q \<equiv> p\<lparr>px_workers := (px_workers p)(wk_key w := None), px_objs := (px_objs p)(i \<mapsto> w\<lparr>wk_stop := wk_stop w + 1\<rparr>)\<rparr>"
  shows "px_ok q"
proof -
  have mp: "maps_ok p" and cp: "chans_ok p" and hp: "held_ok p" using ok by (simp_all add: px_ok_def)
  have nd: "\<not> px_done p" using px_okD(5) [OF ok] w(2) by auto
  have cap: "px_captured p = {}" using mp nd by (simp add: maps_ok_def)
  have key: "px_workers p k = Some i \<Longrightarrow> k = wk_key w" for k using px_okD(1) [OF ok, of k i] w(1) by auto
  have st: "wk_stop w = 0" using px_okD(1) [OF ok w(2)] w(1) by auto
  have h: "holds q j \<longleftrightarrow> holds p j \<and> j \<noteq> i" for j
  proof -
    have "j \<in> ran ((px_workers p)(wk_key w := None)) \<longleftrightarrow> (\<exists>k. k \<noteq> wk_key w \<and> px_workers p k = Some j)"
      by (auto simp: ran_def)
    also have "\<dots> \<longleftrightarrow> (\<exists>k. px_workers p k = Some j) \<and> j \<noteq> i" using w(2) key by (metis option.inject)
    also have "\<dots> \<longleftrightarrow> j \<in> ran (px_workers p) \<and> j \<noteq> i" by (simp add: ran_def)
    finally have "j \<in> ran ((px_workers p)(wk_key w := None)) \<longleftrightarrow> j \<in> ran (px_workers p) \<and> j \<noteq> i" .
    then show ?thesis by (simp add: holds_def q_def cap)
  qed
  have "maps_ok q"
    unfolding maps_ok_def
  proof (intro conjI allI ballI impI)
    fix k j assume "px_workers q k = Some j"
    then have j: "k \<noteq> wk_key w" "px_workers p k = Some j" by (auto simp: q_def split: if_split_asm)
    then have "j \<noteq> i" using key by blast
    then show "\<exists>v. px_objs q j = Some v \<and> wk_key v = k \<and> wk_stop v = 0" using px_okD(1) [OF ok j(2)] by (auto simp: q_def)
  next
    fix j assume "px_next q \<le> j"
    then have "px_objs p j = None" using mp by (simp add: q_def maps_ok_def)
    then show "px_objs q j = None" using w(1) by (auto simp: q_def)
  qed (simp_all add: q_def cap nd)
  moreover have "chans_ok q"
    unfolding chans_ok_def
  proof (intro conjI allI impI)
    show "px_closing q \<subseteq> px_captured q" using cp by (simp add: q_def chans_ok_def)
    fix j v assume v: "px_objs q j = Some v"
    have "wk_stop v \<le> 1 \<and> length (wk_ch v) \<le> chan_size" using cp v st w(1) by (cases "j = i") (auto simp: q_def chans_ok_def)
    then show "wk_stop v \<le> 1" "length (wk_ch v) \<le> chan_size" by blast+
    show "wk_stop v = 0" if "j \<in> px_closing q" using that cp cap by (auto simp: q_def chans_ok_def)
  next
    fix j ev assume "(j, ev) \<in># px_senders q"
    then show "px_objs q j \<noteq> None" using cp by (auto simp: q_def chans_ok_def)
  qed
  moreover have "held_ok q"
    unfolding held_ok_def h
  proof (intro conjI allI impI)
    fix j v assume "px_objs q j = Some v \<and> \<not> wk_done v"
    then show "holds p j" "j \<noteq> i" using hp fin unfolding q_def held_ok_def by (auto split: if_split_asm)
  next
    fix j v assume "px_objs q j = Some v \<and> wk_ln v \<noteq> None"
    then show "\<not> wk_done v" using hp fin unfolding q_def held_ok_def by (auto split: if_split_asm)
  next
    fix j v l assume "px_objs q j = Some v \<and> wk_ln v = Some l"
    then show "ln_key l = wk_key v" using hp fin unfolding q_def held_ok_def by (auto split: if_split_asm)
  next
    fix k assume "sn_states (rt_snap (px_table q)) k \<noteq> None"
    then have k: "sn_states (rt_snap (px_table p)) k \<noteq> None" "k \<noteq> wk_key w" using fin(3) by (auto simp: q_def)
    then obtain j v where "holds p j" "px_objs p j = Some v" "wk_key v = k" using hp unfolding held_ok_def by blast
    then show "\<exists>j v. (holds p j \<and> j \<noteq> i) \<and> px_objs q j = Some v \<and> wk_key v = k" using k(2) w(1)
      by (intro exI [of _ j] exI [of _ v]) (auto simp: q_def)
  qed
  ultimately show ?thesis by (simp add: px_ok_def)
qed

lemma px_ok_delete_event:
  assumes "px_ok p" "px_objs p i = Some w" "\<not> wk_done w" "wk_ch w = DeletePort # ch"
  shows "px_ok (worker_event env i (w\<lparr>wk_ch := ch\<rparr>) DeletePort p)"
proof -
  let ?w = "w\<lparr>wk_ch := ch, wk_ln := None, wk_done := True\<rparr>"
  obtain io where io: "close_ln env (w\<lparr>wk_ch := ch\<rparr>) p = put_io io p" using close_ln_put by blast
  let ?q0 = "(put_io io p)\<lparr>px_table := rt_Delete (wk_key w) (px_table p), px_objs := (px_objs p)(i \<mapsto> ?w)\<rparr>"
  have len: "length ch \<le> chan_size" using assms by (auto simp: px_ok_def chans_ok_def dest!: spec [of _ i])
  have q0: "px_ok ?q0"
    using len by (intro px_ok_turn [OF assms(1,2), where w' = ?w]) (auto simp: put_io_def sn_states_Delete split: if_split_asm)
  show ?thesis
  proof (cases "px_workers p (wk_key w) = Some i")
    case False
    then have "worker_event env i (w\<lparr>wk_ch := ch\<rparr>) DeletePort p = ?q0"
      by (simp add: removeWorker_def io put_io_def)
    then show ?thesis using q0 by simp
  next
    case True
    have "worker_event env i (w\<lparr>wk_ch := ch\<rparr>) DeletePort p =
        ?q0\<lparr>px_workers := (px_workers ?q0)(wk_key ?w := None), px_objs := (px_objs ?q0)(i \<mapsto> ?w\<lparr>wk_stop := wk_stop ?w + 1\<rparr>)\<rparr>"
      using True by (simp add: removeWorker_def io put_io_def)
    also have "px_ok \<dots>"
      using True by (intro px_ok_remove [OF q0]) (simp_all add: put_io_def sn_states_Delete)
    finally show ?thesis .
  qed
qed

lemma px_ok_worker:
  assumes ok: "px_ok p" and w: "px_worker key p = (r, q)"
  shows "px_ok q" and "r = Some i \<Longrightarrow> px_objs q i \<noteq> None"
proof -
  have mp: "maps_ok p" and cp: "chans_ok p" and hp: "held_ok p" using ok by (simp_all add: px_ok_def)
  have "px_ok q \<and> (r = Some i \<longrightarrow> px_objs q i \<noteq> None)"
  proof (cases "px_done p \<or> px_workers p key \<noteq> None")
    case True
    then show ?thesis using w ok px_okD(1) [OF ok, of key i] by (auto simp: px_worker_def split: if_split_asm option.split_asm)
  next
    case False
    let ?q = "p\<lparr>px_workers := (px_workers p)(key \<mapsto> px_next p), px_objs := (px_objs p)(px_next p \<mapsto> new_worker key), px_next := px_next p + 1\<rparr>"
    have q: "q = ?q" "r = Some (px_next p)" using w False by (auto simp: px_worker_def)
    have fresh: "px_objs p (px_next p) = None" using mp by (simp add: maps_ok_def)
    have cap: "px_captured p = {}" using mp False by (simp add: maps_ok_def)
    have old: "px_workers p k = Some j \<Longrightarrow> j \<noteq> px_next p" for k j using px_okD(1) [OF ok, of k j] fresh by auto
    have h: "holds ?q j \<longleftrightarrow> holds p j \<or> j = px_next p" for j
      using False by (auto simp: holds_def ran_def) (metis option.distinct(1))
    have "maps_ok ?q"
      using mp cap False old unfolding maps_ok_def new_worker_def by (simp split: if_split_asm)
    moreover have "chans_ok ?q"
      using cp cap unfolding chans_ok_def new_worker_def by (simp split: if_split_asm)
    moreover have "held_ok ?q"
      unfolding held_ok_def h
    proof (intro conjI allI impI)
      fix k assume "sn_states (rt_snap (px_table ?q)) k \<noteq> None"
      then obtain j v where "holds p j" "px_objs p j = Some v" "wk_key v = k" using hp unfolding held_ok_def by auto
      then show "\<exists>j v. (holds p j \<or> j = px_next p) \<and> px_objs ?q j = Some v \<and> wk_key v = k" using fresh
        by (intro exI [of _ j] exI [of _ v]) auto
    qed (use hp in \<open>auto simp: held_ok_def new_worker_def split: if_split_asm\<close>)
    ultimately show ?thesis unfolding q px_ok_def by simp
  qed
  then show "px_ok q" "r = Some i \<Longrightarrow> px_objs q i \<noteq> None" by blast+
qed

lemma px_ok_sender:
  "px_ok p \<Longrightarrow> px_objs p i \<noteq> None \<Longrightarrow> px_ok (p\<lparr>px_senders := add_mset (i, ev) (px_senders p)\<rparr>)"
  by (auto simp: px_ok_def maps_ok_def chans_ok_def held_ok_def holds_def)

lemma px_ok_reconcile: "px_ok p \<Longrightarrow> px_ok (snd (reconcile_begin env svc clusterIP port policy affinity endpoints p))"
  by (auto simp: reconcile_begin_def split: option.split prod.split dest: px_ok_worker intro!: px_ok_sender)

lemma px_ok_shutdown:
  assumes ok: "px_ok p" and nd: "\<not> px_done p"
  shows "px_ok (shutdown_begin p)"
proof -
  have mp: "maps_ok p" and cp: "chans_ok p" and hp: "held_ok p" using ok by (simp_all add: px_ok_def)
  have h: "holds (shutdown_begin p) j = holds p j" for j using mp nd by (auto simp: holds_def shutdown_begin_def maps_ok_def)
  have ex: "\<exists>w. px_objs p i = Some w \<and> px_workers p (wk_key w) = Some i \<and> wk_stop w = 0" if "i \<in> ran (px_workers p)" for i
    using that px_okD(1) [OF ok, of _ i] unfolding ran_def by fastforce
  have "maps_ok (shutdown_begin p)"
    unfolding maps_ok_def shutdown_begin_def
    using mp ex by (auto simp: maps_ok_def) (metis option.inject)+
  moreover have "chans_ok (shutdown_begin p)"
    unfolding chans_ok_def shutdown_begin_def using cp ex by (auto simp: chans_ok_def) (metis option.inject)+
  moreover have "held_ok (shutdown_begin p)" using hp unfolding held_ok_def h unfolding shutdown_begin_def by simp blast
  ultimately show ?thesis by (simp add: px_ok_def)
qed

lemma px_ok_shutdown_close:
  assumes ok: "px_ok p" and i: "i \<in> px_closing p" "px_objs p i = Some w"
  shows "px_ok (shutdown_close i w p)"
proof -
  have mp: "maps_ok p" and cp: "chans_ok p" and hp: "held_ok p" using ok by (simp_all add: px_ok_def)
  have cap: "i \<in> px_captured p" and st: "wk_stop w = 0" using cp i by (auto simp: chans_ok_def)
  have d: "px_done p" "px_workers p = Map.empty" using px_okD(3) [OF ok cap] px_okD(5) [OF ok] by auto
  have h: "holds (shutdown_close i w p) j = holds p j" for j by (simp add: holds_def shutdown_close_def)
  have bwd: "\<exists>v0. px_objs p j = Some v0 \<and> wk_key v0 = wk_key v \<and> wk_done v0 = wk_done v \<and> wk_ln v0 = wk_ln v \<and> wk_ch v0 = wk_ch v"
    if "px_objs (shutdown_close i w p) j = Some v" for j v
    using that i(2) by (auto simp: shutdown_close_def split: if_split_asm)
  have "maps_ok (shutdown_close i w p)"
    unfolding maps_ok_def
  proof (intro conjI allI ballI impI)
    fix j j' v v' assume "j \<in> px_captured (shutdown_close i w p)" "j' \<in> px_captured (shutdown_close i w p)"
      "px_objs (shutdown_close i w p) j = Some v \<and> px_objs (shutdown_close i w p) j' = Some v' \<and> wk_key v = wk_key v'"
    then show "j = j'" using mp bwd [of j v] bwd [of j' v'] unfolding maps_ok_def shutdown_close_def by auto
  qed (use mp d i(2) in \<open>auto simp: maps_ok_def shutdown_close_def\<close>)
  moreover have "chans_ok (shutdown_close i w p)"
    using cp st i(2) unfolding chans_ok_def shutdown_close_def by (auto split: if_split_asm)
  moreover have "held_ok (shutdown_close i w p)"
    unfolding held_ok_def h
  proof (intro conjI allI impI)
    fix k assume "sn_states (rt_snap (px_table (shutdown_close i w p))) k \<noteq> None"
    then obtain j v where "holds p j" "px_objs p j = Some v" "wk_key v = k"
      using hp unfolding held_ok_def shutdown_close_def by auto
    then show "\<exists>j v. holds p j \<and> px_objs (shutdown_close i w p) j = Some v \<and> wk_key v = k"
      using i(2) by (cases "j = i") (auto simp: shutdown_close_def)
  qed (use hp bwd in \<open>unfold held_ok_def, metis+\<close>)
  ultimately show ?thesis by (simp add: px_ok_def)
qed

lemma px_ok_step: "px_step env p q \<Longrightarrow> px_ok p \<Longrightarrow> px_ok q"
proof (induction rule: px_step.induct)
  case (delete p key)
  then show ?case using px_okD(1) [OF delete]
    by (auto simp: delete_begin_def split: option.split intro!: px_ok_sender)
next
  case (barrier i p b)
  then show ?case using px_okD(1) [OF barrier(2)] by (intro px_ok_sender) (auto simp: ran_def)
next
  case (send i ev p w)
  then show ?case
    by (intro px_ok_turn [OF send(4,2), where w' = "w\<lparr>wk_ch := wk_ch w @ [ev]\<rparr>"])
      (auto simp: px_ok_def held_ok_def)
next
  case (send_stopped i ev p w)
  then show ?case
    by (intro px_ok_turn [OF send_stopped(4,2), where w' = w])
      (auto simp: px_ok_def held_ok_def chans_ok_def)
next
  case (stopped p i w)
  obtain io where "close_ln env w p = put_io io p" using close_ln_put by blast
  then show ?case using stopped
    by (intro px_ok_turn [OF stopped(4,1), where w' = "w\<lparr>wk_ln := None, wk_done := True\<rparr>"])
      (auto simp: worker_stop_def put_io_def px_ok_def chans_ok_def)
next
  case (retry p i w)
  have c: "length (wk_ch w) \<le> chan_size" and l: "wk_ln w = Some l \<Longrightarrow> ln_key l = wk_key w" for l
    using retry by (auto simp: px_ok_def chans_ok_def held_ok_def)
  let ?w = "w\<lparr>wk_armed := False\<rparr>"
  let ?p = "p\<lparr>px_objs := (px_objs p)(i \<mapsto> ?w)\<rparr>"
  show ?case
  proof (cases "wk_ln w = None \<and> wk_pending w \<noteq> None")
    case True
    then obtain port where port: "wk_pending w = Some port" by blast
    obtain w' io where w': "open_port env port i ?w ?p = (put_io io ?p)\<lparr>px_objs := (px_objs ?p)(i \<mapsto> w')\<rparr>" "wk_key w' = wk_key w"
        "wk_stop w' = wk_stop w" "wk_ch w' = wk_ch w" "wk_done w' = wk_done w"
        "wk_ln w' = None \<or> (\<exists>l. wk_ln w' = Some l \<and> ln_key l = wk_key w)"
      using open_port_turn [of env port i ?w ?p] True by auto
    have "worker_retry env i w p = open_port env port i ?w ?p" using True port by (simp add: worker_retry_def Let_def)
    then show ?thesis unfolding w'(1)
      using w' c retry(2) by (intro px_ok_turn [OF retry(4,1), where w' = w']) (auto simp: put_io_def)
  next
    case False
    then have "worker_retry env i w p = ?p" by (auto simp: worker_retry_def Let_def split: option.split)
    then show ?thesis using c l retry(2) by (intro px_ok_turn [OF retry(4,1), where w' = ?w]) auto
  qed
next
  case (event p i w ev ch)
  then show ?case by (cases "ev = DeletePort") (simp_all add: px_ok_event px_ok_delete_event del: worker_event.simps)
qed (simp_all add: px_ok_reconcile px_ok_shutdown px_ok_shutdown_close)

lemma px_ok_init: "(\<forall>key. sn_states (rt_snap t) key = None) \<Longrightarrow> px_ok (px_init t exempt k)"
  by (simp add: px_ok_def maps_ok_def chans_ok_def held_ok_def px_init_def)

lemma px_reach_ok: "px_reach env t exempt k p \<Longrightarrow> \<forall>key. sn_states (rt_snap t) key = None \<Longrightarrow> px_ok p"
  by (induction rule: px_reach.induct) (auto simp: px_ok_init intro: px_ok_step)

section \<open>Properties\<close>

definition demo_api :: service_api where
  "demo_api = \<lparr>api_ExternalName = ''ExternalName'', api_ClusterIPNone = ''None'', api_PolicyLocal = ''Local'', api_ClientIP = ''ClientIP'',
     api_IPv4 = ''IPv4'', api_TCP = ''TCP'', api_UDP = ''UDP'', api_ProtocolValid = (\<lambda>p. p = ''TCP'' \<or> p = ''UDP''),
     api_WithDefaults = (\<lambda>v. v), api_Validate = (\<lambda>_. True)\<rparr>"

definition demo_env :: "unit proxy_env" where
  "demo_env = \<lparr>pe_api = demo_api, pe_ifc = (\<lambda>_ _ k. (None, k)), pe_ListenTCP = (\<lambda>_ k. (True, k)), pe_ListenUDP = (\<lambda>_ k. (True, k)),
     pe_OpenNodePort = (\<lambda>_ k. (True, k)), pe_CloseTCP = (\<lambda>_ k. k), pe_CloseUDP = (\<lambda>_ k. k), pe_CloseNodePort = (\<lambda>_ k. k)\<rparr>"

definition demo_port :: "int \<Rightarrow> svc_port" where
  "demo_port n = \<lparr>sp_Name = [], sp_Protocol = ''TCP'', sp_Port = n, sp_TargetPort = n, sp_NodePort = 0\<rparr>"

definition demo_ref :: serviceRef where
  "demo_ref = \<lparr>sr_Namespace = ''ns'', sr_Name = ''web''\<rparr>"

definition demo_aff :: affinityConfig where
  "demo_aff = \<lparr>ac_mode = affinityNone, ac_timeout = 0\<rparr>"

text \<open>A call that finds room in the channel of a registered or new worker, in its two steps.\<close>

definition enqueue :: "nat \<Rightarrow> portEvent \<Rightarrow> 'k Proxy \<Rightarrow> 'k Proxy" where
  "enqueue i ev p = p\<lparr>px_senders := {#}, px_objs := (px_objs p)(i \<mapsto> (the (px_objs p i))\<lparr>wk_ch := wk_ch (the (px_objs p i)) @ [ev]\<rparr>)\<rparr>"

lemma reach_send:
  assumes "px_reach env t exempt k (p\<lparr>px_senders := {#(i, ev)#}\<rparr>)" "px_objs p i = Some w" "length (wk_ch w) < chan_size" "px_senders p = {#}"
  shows "px_reach env t exempt k (enqueue i ev p)"
proof -
  have "px_step env (p\<lparr>px_senders := {#(i, ev)#}\<rparr>) (enqueue i ev p)"
    using px_step.send [of i ev "p\<lparr>px_senders := {#(i, ev)#}\<rparr>" w env] assms(2-4) by (simp add: enqueue_def)
  with assms(1) show ?thesis by (rule px_reach.step)
qed

lemma reach_reconcile:
  assumes "px_reach env t exempt k p" "ParseAddr ip = Some a" "a \<notin> px_exempt p" "px_senders p = {#}"
    and "px_worker (port_key (pe_api env) ip port) p = (Some i, q)" "px_objs q i = Some w" "length (wk_ch w) < chan_size" "px_senders q = {#}"
  shows "px_reach env t exempt k (enqueue i (SetPort port svc policy affinity eps) q)"
proof -
  have "snd (reconcile_begin env svc ip port policy affinity eps p) = q\<lparr>px_senders := {#(i, SetPort port svc policy affinity eps)#}\<rparr>"
    using assms(2-8) by (simp add: reconcile_begin_def isExemptVIP_def)
  then show ?thesis
    using px_reach.step [OF assms(1) px_step.reconcile [of env p svc ip port policy affinity eps]] reach_send assms(6-8) by metis
qed

lemma reach_delete:
  assumes "px_reach env t exempt k p" "px_workers p key = Some i" "px_objs p i = Some w" "length (wk_ch w) < chan_size" "px_senders p = {#}"
  shows "px_reach env t exempt k (enqueue i DeletePort p)"
  using px_reach.step [OF assms(1) px_step.delete [of env p key]] reach_send assms(2-5) by (simp add: delete_begin_def)

lemma demo_ParseAddr: "ParseAddr ''10.43.0.7'' = Some (IPv4 0x0A2B0007)"
  by code_simp

lemmas demo_simps = demo_env_def demo_api_def demo_port_def port_key_def defaultProto_def px_worker_def px_init_def enqueue_def
  new_worker_def chan_size_def

text \<open>
  An event that a worker accepted can be lost: it is queued behind a delete, after \<^verbatim>\<open>ReconcileDelete\<close> has
  returned, and the worker leaves at the delete. Every call returned without an error, and no worker
  is left to apply the event.
\<close>

lemma accepted_event_lost:
  "\<exists>(p :: unit Proxy) w. px_reach demo_env (proxy_table (pfx4 0x0A2A0100 24) NoAddr NoPrefix) {} () p
     \<and> px_workers p = Map.empty \<and> px_senders p = {#} \<and> \<not> px_done p
     \<and> px_objs p = [0 \<mapsto> w] \<and> wk_done w \<and> wk_ch w = [SetPort (demo_port 80) demo_ref trafficCluster demo_aff eps]"
proof -
  let ?t = "proxy_table (pfx4 0x0A2A0100 24) NoAddr NoPrefix" and ?key = "port_key demo_api ''10.43.0.7'' (demo_port 80)"
  let ?ev = "SetPort (demo_port 80) demo_ref trafficCluster demo_aff"
  let ?w0 = "new_worker ?key" and ?p0 = "px_init ?t {} ()"
  let ?q0 = "?p0\<lparr>px_workers := [?key \<mapsto> 0], px_objs := [0 \<mapsto> ?w0], px_next := 1\<rparr>"
  have k: "port_key (pe_api demo_env) ''10.43.0.7'' (demo_port 80) = ?key" by (simp add: demo_env_def)
  have r1: "px_reach demo_env ?t {} () (enqueue 0 (?ev []) ?q0)"
    by (rule reach_reconcile [OF px_reach.init demo_ParseAddr, where q = ?q0 and w = ?w0])
      (simp_all add: k px_worker_def px_init_def new_worker_def chan_size_def)
  let ?p1 = "?q0\<lparr>px_objs := [0 \<mapsto> ?w0\<lparr>wk_ch := [?ev []]\<rparr>]\<rparr>"
  have e1: "enqueue 0 (?ev []) ?q0 = ?p1" by (simp add: enqueue_def new_worker_def px_init_def)
  have r2: "px_reach demo_env ?t {} () (enqueue 0 DeletePort ?p1)"
    by (rule reach_delete [OF r1 [unfolded e1], where w = "?w0\<lparr>wk_ch := [?ev []]\<rparr>"])
      (simp_all add: px_init_def chan_size_def)
  let ?p2 = "?q0\<lparr>px_objs := [0 \<mapsto> ?w0\<lparr>wk_ch := [?ev [], DeletePort]\<rparr>]\<rparr>"
  have e2: "enqueue 0 DeletePort ?p1 = ?p2" by (simp add: enqueue_def px_init_def)
  have r3: "px_reach demo_env ?t {} () (enqueue 0 (?ev eps) ?p2)"
    by (rule reach_reconcile [OF r2 [unfolded e2] demo_ParseAddr, where q = ?p2 and w = "?w0\<lparr>wk_ch := [?ev [], DeletePort]\<rparr>"])
      (simp_all add: k px_worker_def px_init_def chan_size_def)
  let ?w3 = "?w0\<lparr>wk_ch := [?ev [], DeletePort, ?ev eps]\<rparr>"
  let ?p3 = "?q0\<lparr>px_objs := [0 \<mapsto> ?w3]\<rparr>"
  have e3: "enqueue 0 (?ev eps) ?p2 = ?p3" by (simp add: enqueue_def px_init_def)
  let ?p4 = "worker_event demo_env 0 (?w3\<lparr>wk_ch := [DeletePort, ?ev eps]\<rparr>) (?ev []) ?p3"
  have r4: "px_reach demo_env ?t {} () ?p4"
    by (rule px_reach.step [OF r3 [unfolded e3] px_step.event [where w = ?w3]]) (simp_all add: new_worker_def)
  let ?v = "?w3\<lparr>wk_ch := [DeletePort, ?ev eps]\<rparr>"
  let ?q = "?p3\<lparr>px_table := snd (installEndpoints (api_Validate (pe_api demo_env)) (wk_key ?v) demo_ref [] trafficCluster demo_aff (px_table ?p3)),
    px_objs := (px_objs ?p3)(0 \<mapsto> ?v)\<rparr>"
  have p4: "?p4 = open_port demo_env (demo_port 80) 0 ?v ?q" by (simp add: Let_def new_worker_def)
  obtain w4 io4 where o: "open_port demo_env (demo_port 80) 0 ?v ?q = (put_io io4 ?q)\<lparr>px_objs := (px_objs ?q)(0 \<mapsto> w4)\<rparr>"
      and w4: "wk_key w4 = ?key" "wk_ch w4 = [DeletePort, ?ev eps]" "\<not> wk_done w4"
    using open_port_turn [of demo_env "demo_port 80" 0 ?v ?q] by (auto simp: new_worker_def)
  have "px_objs ?p4 = [0 \<mapsto> w4]" "px_workers ?p4 = [?key \<mapsto> 0]" "px_senders ?p4 = {#}" "\<not> px_done ?p4"
    unfolding p4 o by (simp_all add: put_io_def px_init_def)
  with r4 obtain q4 where q4: "px_reach demo_env ?t {} () q4" "px_objs q4 = [0 \<mapsto> w4]" "px_workers q4 = [?key \<mapsto> 0]"
      "px_senders q4 = {#}" "\<not> px_done q4"
    by blast
  have r5: "px_reach demo_env ?t {} () (worker_event demo_env 0 (w4\<lparr>wk_ch := [?ev eps]\<rparr>) DeletePort q4)"
    by (rule px_reach.step [OF q4(1) px_step.event [where w = w4]]) (simp_all add: w4 q4)
  obtain io where "close_ln demo_env (w4\<lparr>wk_ch := [?ev eps]\<rparr>) q4 = put_io io q4" using close_ln_put by blast
  then show ?thesis
    using r5 q4 w4 by (intro exI [of _ "worker_event demo_env 0 (w4\<lparr>wk_ch := [?ev eps]\<rparr>) DeletePort q4"])
      (simp add: removeWorker_def put_io_def, rule exI, rule conjI, rule refl, simp)
qed

text \<open>
  The alias of a VIP is not counted per port: when one port of a Service goes, the alias goes with it
  while the Service's other port still has its listener.
\<close>

lemma demo_open:
  fixes p :: "unit Proxy" and n :: int
  defines "key \<equiv> port_key demo_api ''10.43.0.7'' (demo_port n)"
  assumes p: "px_reach demo_env t {} () p" "px_senders p = {#}" "\<not> px_done p" "px_workers p key = None" "px_exempt p = {}"
  shows "\<exists>q w l. px_reach demo_env t {} () q \<and> px_senders q = {#} \<and> \<not> px_done q \<and> px_exempt q = {} \<and> px_next q = px_next p + 1 \<and>
    px_workers q = (px_workers p)(key \<mapsto> px_next p) \<and> px_objs q = (px_objs p)(px_next p \<mapsto> w) \<and>
    wk_key w = key \<and> wk_ch w = [] \<and> \<not> wk_done w \<and> wk_ln w = Some l \<and> ln_aliasIP l = IPv4 0x0A2B0007 \<and> ln_nodePorts l = None"
proof -
  let ?i = "px_next p" and ?w = "new_worker key" and ?ev = "SetPort (demo_port n) demo_ref trafficCluster demo_aff []"
  let ?q = "p\<lparr>px_workers := (px_workers p)(key \<mapsto> ?i), px_objs := (px_objs p)(?i \<mapsto> ?w), px_next := ?i + 1\<rparr>"
  have api: "pe_api demo_env = demo_api" by (simp add: demo_env_def)
  have "px_reach demo_env t {} () (enqueue ?i ?ev ?q)"
    by (rule reach_reconcile [OF p(1) demo_ParseAddr, where q = ?q and w = ?w])
      (simp_all add: api p key_def [symmetric] px_worker_def new_worker_def chan_size_def)
  then have r: "px_reach demo_env t {} () (worker_event demo_env ?i ?w ?ev (enqueue ?i ?ev ?q))" (is "px_reach _ _ _ _ ?r")
  proof (rule px_reach.step)
    show "px_step demo_env (enqueue ?i ?ev ?q) ?r"
      using px_step.event [of "enqueue ?i ?ev ?q" ?i "?w\<lparr>wk_ch := [?ev]\<rparr>" ?ev "[]" demo_env]
      by (simp add: enqueue_def new_worker_def del: worker_event.simps)
  qed
  obtain l m where "openListener demo_env key (demo_port n) (px_aliases p, px_kernel p) = (Some l, m, ())"
      "ln_aliasIP l = IPv4 0x0A2B0007" "ln_nodePorts l = None"
    by (cases "IPv4 0x0A2B0007 \<in> px_aliases p")
      (auto simp: openListener_def key_def demo_env_def demo_api_def demo_port_def port_key_def defaultProto_def demo_ParseAddr proxy_Ensure_def Let_def)
  then show ?thesis
    using r p by (intro exI [of _ ?r]) (simp add: Let_def open_port_def enqueue_def put_io_def new_worker_def,
        rule exI, rule conjI, rule refl, simp)
qed

lemma shared_alias_removed:
  "\<exists>(p :: unit Proxy) w l. px_reach demo_env (proxy_table (pfx4 0x0A2A0100 24) NoAddr NoPrefix) {} () p
     \<and> px_objs p 0 = Some w \<and> \<not> wk_done w \<and> wk_ln w = Some l \<and> ln_aliasIP l \<notin> px_aliases p"
proof -
  let ?t = "proxy_table (pfx4 0x0A2A0100 24) NoAddr NoPrefix"
  let ?k = "\<lambda>n. port_key demo_api ''10.43.0.7'' (demo_port n)"
  have ne: "?k 443 \<noteq> ?k 80" by (simp add: port_key_def demo_port_def)
  obtain p1 v1 l1 where p1: "px_reach demo_env ?t {} () p1" "px_senders p1 = {#}" "\<not> px_done p1" "px_exempt p1 = {}" "px_next p1 = 1"
      "px_workers p1 = [?k 80 \<mapsto> 0]" "px_objs p1 = [0 \<mapsto> v1]" "\<not> wk_done v1" "wk_ln v1 = Some l1" "ln_aliasIP l1 = IPv4 0x0A2B0007"
    using demo_open [of ?t "px_init ?t {} ()" 80, OF px_reach.init] by (auto simp: px_init_def)
  obtain p2 v2 l2 where p2: "px_reach demo_env ?t {} () p2" "px_senders p2 = {#}" "px_workers p2 = [?k 80 \<mapsto> 0, ?k 443 \<mapsto> 1]"
      "px_objs p2 = [0 \<mapsto> v1, 1 \<mapsto> v2]" "wk_key v2 = ?k 443" "wk_ch v2 = []" "\<not> wk_done v2" "wk_ln v2 = Some l2"
      "ln_aliasIP l2 = IPv4 0x0A2B0007" "ln_nodePorts l2 = None"
    using demo_open [of ?t p1 443, OF p1(1-3) _ p1(4)] p1(5-7) ne by auto
  have "px_reach demo_env ?t {} () (enqueue 1 DeletePort p2)"
    by (rule reach_delete [OF p2(1), where key = "?k 443" and w = v2]) (simp_all add: p2 chan_size_def)
  have v2: "v2\<lparr>wk_ch := []\<rparr> = v2" using p2(6) by (cases v2) simp
  from \<open>px_reach demo_env ?t {} () (enqueue 1 DeletePort p2)\<close>
  have r: "px_reach demo_env ?t {} () (worker_event demo_env 1 v2 DeletePort (enqueue 1 DeletePort p2))" (is "px_reach _ _ _ _ ?r")
  proof (rule px_reach.step)
    show "px_step demo_env (enqueue 1 DeletePort p2) ?r"
      using px_step.event [of "enqueue 1 DeletePort p2" 1 "v2\<lparr>wk_ch := [DeletePort]\<rparr>" DeletePort "[]" demo_env] p2(2,4,6,7) v2
      by (simp add: enqueue_def del: worker_event.simps)
  qed
  have "IPv4 0x0A2B0007 \<notin> fst (listener_Close demo_env l2 io)" for io
    using p2(9) by (cases "IPv4 0x0A2B0007 \<in> fst io") (simp_all add: listener_Close_def demo_env_def proxy_Remove_def Let_def split_beta)
  then have "px_objs ?r 0 = Some v1 \<and> ln_aliasIP l1 \<notin> px_aliases ?r"
    using p2(3-8) ne p1(10) by (simp add: enqueue_def removeWorker_def close_ln_def put_io_def)
  then show ?thesis using r p1(8,9) by blast
qed



end
