(* ===== verification/Watch.thy ===== *)
theory Watch
  imports Workers Releases
begin

text \<open>
  The service watcher (\<^verbatim>\<open>pkg/proxy/watch.go\<close>) and its anti-entropy pass (\<^verbatim>\<open>antientropy.go\<close>). A handler
  is a function from the watcher's state and an informer object to the calls it makes on the proxy,
  in their order; \<open>apply_call\<close> is what the port's worker does with a call.

  The informers belong to client-go: an informer set is the contents of its two stores, and because
  it changes under the watcher, the contents at every read of the pass are fields of \<open>pass_env\<close>, with
  the outcomes of the lists, the clock and the replacement set. The stripes make a delivery one
  step. Go maps that are iterated are association lists in the order of the iteration.
\<close>

section \<open>Calls on the proxy\<close>

datatype proxy_call =
    ReconcilePort serviceRef string svc_port trafficPolicy affinityConfig "Endpoint list"
  | ReconcileDelete PortKey

fun apply_call :: "service_api \<Rightarrow> addr set \<Rightarrow> proxy_call \<Rightarrow> RoutingTable \<Rightarrow> RoutingTable" where
  "apply_call api exempt (ReconcilePort svc clusterIP port policy affinity eps) t =
     (case ParseAddr clusterIP of
        None \<Rightarrow> t
      | Some a \<Rightarrow>
          if a \<in> exempt then t
          else snd (installEndpoints (api_Validate api) (port_key api clusterIP port) svc eps policy affinity t))"
| "apply_call api exempt (ReconcileDelete key) t = rt_Delete key t"

section \<open>Handlers\<close>

record informerSet =
  is_svcs :: "Service list"
  is_slices :: "EndpointSlice list"

datatype informer_obj = ServiceObj Service | SliceObj EndpointSlice | Tombstone informer_obj | OtherObj

fun toService :: "informer_obj \<Rightarrow> Service option" where
  "toService (ServiceObj svc) = Some svc"
| "toService (Tombstone (ServiceObj svc)) = Some svc"
| "toService obj = None"

fun toSlice :: "informer_obj \<Rightarrow> EndpointSlice option" where
  "toSlice (SliceObj sl) = Some sl"
| "toSlice (Tombstone (SliceObj sl)) = Some sl"
| "toSlice obj = None"

text \<open>The informer set is named by a number that grows with every replacement.\<close>

record Watcher =
  wt_inf :: nat
  wt_static :: "string \<rightharpoonup> Endpoint list"
  wt_eTPLocalWarned :: "string set"
  wt_synced :: bool
  wt_episodeRelisted :: bool
  wt_nextRelist :: "int option"
  wt_relistBackoff :: int
  wt_relists :: nat
  wt_divWarned :: "PortKey set"
  wt_breakerWarned :: bool
  wt_repairedFromLive :: "string list"

abbreviation svc_key :: "Service \<Rightarrow> string" where
  "svc_key svc \<equiv> service_key (sv_Namespace svc) (sv_Name svc)"

definition slicesForService :: "informerSet \<Rightarrow> string \<Rightarrow> string \<Rightarrow> EndpointSlice list" where
  "slicesForService ifs ns name = filter (\<lambda>sl. es_Namespace sl = ns \<and> es_ServiceName sl = name) (is_slices ifs)"

definition applyService ::
  "service_api \<Rightarrow> (string \<rightharpoonup> Endpoint list) \<Rightarrow> Service \<Rightarrow> EndpointSlice list \<Rightarrow> proxy_call list" where
  "applyService api static svc slices =
     (case serviceToVIP api svc of
        None \<Rightarrow> []
      | Some (vip, policy, affinity, _) \<Rightarrow>
          map (\<lambda>p. ReconcilePort \<lparr>sr_Namespace = sv_Namespace svc, sr_Name = sv_Name svc\<rparr> (vip_ClusterIP vip) p policy affinity
                 (backendsForPort api static (svc_key svc) slices (sp_Name p)))
            (vip_Ports vip))"

definition reconcileService :: "service_api \<Rightarrow> (string \<rightharpoonup> Endpoint list) \<Rightarrow> informerSet \<Rightarrow> Service \<Rightarrow> proxy_call list" where
  "reconcileService api static ifs svc =
     (if serviceToVIP api svc = None then []
      else applyService api static svc (slicesForService ifs (sv_Namespace svc) (sv_Name svc)))"

definition deleteServicePorts :: "service_api \<Rightarrow> Service \<Rightarrow> proxy_call list" where
  "deleteServicePorts api svc =
     (case serviceToVIP api svc of
        None \<Rightarrow> []
      | Some (vip, _) \<Rightarrow>
          map (\<lambda>p. ReconcileDelete \<lparr>pk_ClusterIP = vip_ClusterIP vip, pk_Port = sp_Port p, pk_Protocol = sp_Protocol p\<rparr>) (vip_Ports vip))"

text \<open>The warning's NodePorts, when there is one.\<close>

definition warnExternalLocal :: "service_api \<Rightarrow> Service \<Rightarrow> Watcher \<Rightarrow> int list option \<times> Watcher" where
  "warnExternalLocal api svc w =
     (case serviceToVIP api svc of
        Some (vip, _, _, True) \<Rightarrow>
          if svc_key svc \<in> wt_eTPLocalWarned w then (None, w)
          else (Some (filter (\<lambda>n. n \<noteq> 0) (map sp_NodePort (vip_Ports vip))),
                w\<lparr>wt_eTPLocalWarned := insert (svc_key svc) (wt_eTPLocalWarned w)\<rparr>)
      | _ \<Rightarrow> (None, w\<lparr>wt_eTPLocalWarned := wt_eTPLocalWarned w - {svc_key svc}\<rparr>))"

definition onService :: "service_api \<Rightarrow> informerSet \<Rightarrow> informer_obj \<Rightarrow> Watcher \<Rightarrow> proxy_call list \<times> Watcher" where
  "onService api ifs obj w =
     (case obj of
        ServiceObj svc \<Rightarrow> (reconcileService api (wt_static w) ifs svc, snd (warnExternalLocal api svc w))
      | _ \<Rightarrow> ([], w))"

definition onServiceDelete :: "service_api \<Rightarrow> informerSet \<Rightarrow> informer_obj \<Rightarrow> Watcher \<Rightarrow> proxy_call list \<times> Watcher" where
  "onServiceDelete api ifs obj w =
     (case toService obj of
        None \<Rightarrow> ([], w)
      | Some svc \<Rightarrow> (deleteServicePorts api svc, w\<lparr>wt_eTPLocalWarned := wt_eTPLocalWarned w - {svc_key svc}\<rparr>))"

definition onSlice :: "service_api \<Rightarrow> informerSet \<Rightarrow> informer_obj \<Rightarrow> Watcher \<Rightarrow> proxy_call list \<times> Watcher" where
  "onSlice api ifs obj w =
     (case toSlice obj of
        None \<Rightarrow> ([], w)
      | Some sl \<Rightarrow>
          if es_ServiceName sl = [] then ([], w)
          else case find (\<lambda>svc. svc_key svc = service_key (es_Namespace sl) (es_ServiceName sl)) (is_svcs ifs) of
            None \<Rightarrow> ([], w)
          | Some svc \<Rightarrow> (reconcileService api (wt_static w) ifs svc, w))"

text \<open>A handler acts only while the set that registered it is the current one.\<close>

definition gated :: "nat \<Rightarrow> (informer_obj \<Rightarrow> Watcher \<Rightarrow> proxy_call list \<times> Watcher) \<Rightarrow> informer_obj \<Rightarrow> Watcher \<Rightarrow> proxy_call list \<times> Watcher" where
  "gated n fn obj w = (if wt_inf w = n then fn obj w else ([], w))"

definition reconcileStripes :: nat where
  "reconcileStripes = 32"

definition serviceStripe :: "string \<Rightarrow> nat" where
  "serviceStripe key =
     unat (foldl (\<lambda>h c. (h XOR of_char c) * 16777619) (2166136261 :: u32) key) mod reconcileStripes"

section \<open>Views\<close>

record serviceView =
  vw_svcs :: "(string \<times> Service) list"
  vw_slices :: "string \<Rightarrow> EndpointSlice list"
  vw_svcRV :: string
  vw_sliceRV :: string

definition newServiceView :: serviceView where
  "newServiceView = \<lparr>vw_svcs = [], vw_slices = (\<lambda>_. []), vw_svcRV = [], vw_sliceRV = []\<rparr>"

definition addService :: "Service \<Rightarrow> serviceView \<Rightarrow> serviceView" where
  "addService svc v = v\<lparr>vw_svcs := AList.update (svc_key svc) svc (vw_svcs v)\<rparr>"

definition addSlice :: "EndpointSlice \<Rightarrow> serviceView \<Rightarrow> serviceView" where
  "addSlice sl v =
     (if es_ServiceName sl = [] then v
      else let key = service_key (es_Namespace sl) (es_ServiceName sl) in
        v\<lparr>vw_slices := (vw_slices v)(key := vw_slices v key @ [sl])\<rparr>)"

definition storeView :: "informerSet \<Rightarrow> serviceView" where
  "storeView ifs = fold addSlice (is_slices ifs) (fold addService (is_svcs ifs) newServiceView)"

text \<open>\<^verbatim>\<open>listAll\<close>: \<open>page\<close> answers a continuation token with items, the list's version and the next token; the
  API decides how many pages there are, hence the fuel.\<close>

fun listAll ::
  "(string \<Rightarrow> ('a list \<times> string \<times> string) option) \<Rightarrow> nat \<Rightarrow> string \<Rightarrow> 'a list \<Rightarrow> string \<Rightarrow> ('a list \<times> string) option option" where
  "listAll page 0 cont out rv = None"
| "listAll page (Suc fuel) cont out rv =
     (case page cont of
        None \<Rightarrow> Some None
      | Some (items, prv, next) \<Rightarrow>
          let rv' = (if cont = [] then prv else rv); out' = out @ items in
          if next = [] then Some (Some (out', rv')) else listAll page fuel next out' rv')"

definition listLive ::
  "(Service list \<times> string) option \<Rightarrow> (EndpointSlice list \<times> string) option \<Rightarrow> serviceView option" where
  "listLive svcs slices =
     (case svcs of
        None \<Rightarrow> None
      | Some (ss, svcRV) \<Rightarrow>
          (case slices of
             None \<Rightarrow> None
           | Some (ls, sliceRV) \<Rightarrow>
               Some (fold addSlice ls (fold addService ss (newServiceView\<lparr>vw_svcRV := svcRV, vw_sliceRV := sliceRV\<rparr>)))))"

definition backendSets :: "service_api \<Rightarrow> (string \<rightharpoonup> Endpoint list) \<Rightarrow> string \<Rightarrow> serviceView \<Rightarrow> view" where
  "backendSets api static key v =
     (case map_of (vw_svcs v) key of None \<Rightarrow> [] | Some svc \<Rightarrow> APIBackendSets api [svc] (vw_slices v key) static)"

definition divergences ::
  "service_api \<Rightarrow> (string \<rightharpoonup> Endpoint list) \<Rightarrow> serviceView \<Rightarrow> serviceView \<Rightarrow> (string \<times> Divergence list) list" where
  "divergences api static live store =
     filter (\<lambda>(k, d). d \<noteq> [])
       (map (\<lambda>k. (k, DiffBackendSets (backendSets api static k live) (backendSets api static k store)))
         (remdups (map fst (vw_svcs live) @ map fst (vw_svcs store))))"

section \<open>The anti-entropy pass\<close>

definition divergenceSample :: nat where
  "divergenceSample = 8"

definition relistBackoffInitial :: int where
  "relistBackoffInitial = 60 * 1000000000"

definition relistBackoffMax :: int where
  "relistBackoffMax = 15 * 60 * 1000000000"

datatype watch_log =
    DivergenceWarn string PortKey "string list" "string list"
  | DivergencePersists string PortKey "string list" "string list"
  | RepairWithheld
  | RepairStillWithheld

datatype relist_outcome =
    HandlersRefused
  | NotSynced
  | Relisted informerSet informerSet bool

record pass_env =
  pa_svcs1 :: "(Service list \<times> string) option"
  pa_slices1 :: "(EndpointSlice list \<times> string) option"
  pa_svcs2 :: "(Service list \<times> string) option"
  pa_slices2 :: "(EndpointSlice list \<times> string) option"
  pa_store1 :: informerSet
  pa_store2 :: informerSet
  pa_confirm :: bool
  pa_cancelled :: bool
  pa_inf :: "string \<Rightarrow> informerSet"
  pa_relist :: relist_outcome
  pa_split :: "string \<Rightarrow> (string \<times> string) option"
  pa_now :: int
  pa_later :: int

definition sample :: "string list \<Rightarrow> string list" where
  "sample s = take divergenceSample s"

fun report_key :: "string \<Rightarrow> Divergence list \<Rightarrow> PortKey set \<Rightarrow> watch_log list \<times> PortKey set" where
  "report_key key [] warned = ([], warned)"
| "report_key key (d # ds) warned =
     (let l = (if dv_Key d \<in> warned then DivergencePersists else DivergenceWarn) key (dv_Key d) (sample (dv_Missing d)) (sample (dv_Extra d));
          (ls, warned') = report_key key ds (insert (dv_Key d) warned) in
      (l # ls, warned'))"

fun reportDivergences :: "(string \<times> Divergence list) list \<Rightarrow> PortKey set \<Rightarrow> watch_log list \<times> PortKey set" where
  "reportDivergences [] warned = ([], warned)"
| "reportDivergences ((key, ds) # divs) warned =
     (let (l1, w1) = report_key key ds warned; (l2, w2) = reportDivergences divs w1 in (l1 @ l2, w2))"

definition endKeyEpisodes :: "(string \<times> Divergence list) list \<Rightarrow> PortKey set \<Rightarrow> PortKey set" where
  "endKeyEpisodes divs warned = {k \<in> warned. \<exists>(key, ds) \<in> set divs. k \<in> dv_Key ` set ds}"

definition anyBackend :: "view \<Rightarrow> bool" where
  "anyBackend sets \<longleftrightarrow> list_ex (\<lambda>(k, s). s \<noteq> []) sets"

definition divs_at :: "(string \<times> Divergence list) list \<Rightarrow> string \<Rightarrow> Divergence list" where
  "divs_at divs key = (case map_of divs key of None \<Rightarrow> [] | Some ds \<Rightarrow> ds)"

definition breakerTripped ::
  "service_api \<Rightarrow> (string \<rightharpoonup> Endpoint list) \<Rightarrow> serviceView \<Rightarrow> serviceView \<Rightarrow> (string \<times> Divergence list) list \<Rightarrow> bool" where
  "breakerTripped api static live store divs =
     (if vw_svcs live = [] \<and> vw_svcs store \<noteq> [] then True
      else let ready = filter (\<lambda>key. anyBackend (backendSets api static key store)) (map fst (vw_svcs store));
               losing = filter (\<lambda>key. list_ex (\<lambda>d. dv_Extra d \<noteq> []) (divs_at divs key)) ready in
        0 < length ready \<and> length ready < 2 * length losing)"

definition rvNewer :: "string \<Rightarrow> string \<Rightarrow> bool" where
  "rvNewer a b = (case (ParseUint64 a, ParseUint64 b) of (Some x, Some y) \<Rightarrow> y < x | _ \<Rightarrow> False)"

text \<open>\<open>split\<close> is \<^verbatim>\<open>cache.SplitMetaNamespaceKey\<close> of client-go.\<close>

definition storeNewerThan :: "(string \<Rightarrow> (string \<times> string) option) \<Rightarrow> informerSet \<Rightarrow> string \<Rightarrow> serviceView \<Rightarrow> bool" where
  "storeNewerThan split ifs key live \<longleftrightarrow>
     (case find (\<lambda>svc. svc_key svc = key) (is_svcs ifs) of
        Some svc \<Rightarrow> rvNewer (sv_ResourceVersion svc) (vw_svcRV live) | None \<Rightarrow> False)
     \<or> (case split key of
          None \<Rightarrow> False
        | Some (ns, name) \<Rightarrow>
            list_ex (\<lambda>sl. rvNewer (es_ResourceVersion sl) (vw_sliceRV live)) (slicesForService ifs ns name))"

definition repairService ::
  "service_api \<Rightarrow> pass_env \<Rightarrow> (string \<rightharpoonup> Endpoint list) \<Rightarrow> serviceView \<Rightarrow> string \<times> Divergence list \<Rightarrow> (proxy_call list) option" where
  "repairService api pa static live kd =
     (case kd of (key, ds) \<Rightarrow>
        if storeNewerThan (pa_split pa) (pa_inf pa key) key live then None
        else
          let liveSets = backendSets api static key live in
          Some ((case map_of (vw_svcs live) key of None \<Rightarrow> [] | Some svc \<Rightarrow> applyService api static svc (vw_slices live key)) @
                map (\<lambda>d. ReconcileDelete (dv_Key d)) (filter (\<lambda>d. map_of liveSets (dv_Key d) = None) ds)))"

fun repair_loop ::
  "service_api \<Rightarrow> pass_env \<Rightarrow> serviceView \<Rightarrow> (string \<times> Divergence list) list \<Rightarrow> Watcher \<Rightarrow> proxy_call list \<times> Watcher" where
  "repair_loop api pa live [] w = ([], w)"
| "repair_loop api pa live (kd # divs) w =
     (case repairService api pa (wt_static w) live kd of
        None \<Rightarrow> repair_loop api pa live divs w
      | Some cs \<Rightarrow>
          (case repair_loop api pa live divs (w\<lparr>wt_repairedFromLive := List.insert (fst kd) (wt_repairedFromLive w)\<rparr>) of
             (cs', w') \<Rightarrow> (cs @ cs', w')))"

definition settleRepaired ::
  "service_api \<Rightarrow> (string \<Rightarrow> informerSet) \<Rightarrow> serviceView \<Rightarrow> (string \<times> Divergence list) list \<Rightarrow> Watcher \<Rightarrow> proxy_call list \<times> Watcher" where
  "settleRepaired api at store divs w =
     (let settled = filter (\<lambda>key. map_of divs key = None) (wt_repairedFromLive w) in
      (concat (map (\<lambda>key. case map_of (vw_svcs store) key of
                       None \<Rightarrow> [] | Some svc \<Rightarrow> reconcileService api (wt_static w) (at key) svc) settled),
       w\<lparr>wt_repairedFromLive := filter (\<lambda>key. map_of divs key \<noteq> None) (wt_repairedFromLive w)\<rparr>))"

definition applyStore :: "service_api \<Rightarrow> (string \<rightharpoonup> Endpoint list) \<Rightarrow> informerSet \<Rightarrow> proxy_call list" where
  "applyStore api static ifs = concat (map (\<lambda>(k, svc). reconcileService api static ifs svc) (vw_svcs (storeView ifs)))"

definition relist :: "service_api \<Rightarrow> relist_outcome \<Rightarrow> Watcher \<Rightarrow> bool \<times> proxy_call list \<times> Watcher" where
  "relist api outcome w =
     (case outcome of
        Relisted old new applied \<Rightarrow>
          let gone = filter (\<lambda>(key, svc). map_of (vw_svcs (storeView new)) key = None) (vw_svcs (storeView old)) in
          (True,
           concat (map (\<lambda>(key, svc). deleteServicePorts api svc) gone) @ applyStore api (wt_static w) new,
           w\<lparr>wt_inf := wt_inf w + 1, wt_relists := wt_relists w + 1, wt_synced := applied, wt_repairedFromLive := []\<rparr>)
      | _ \<Rightarrow> (False, [], w))"

definition maybeRelist :: "service_api \<Rightarrow> pass_env \<Rightarrow> Watcher \<Rightarrow> proxy_call list \<times> Watcher" where
  "maybeRelist api pa w =
     (if wt_episodeRelisted w \<or> (case wt_nextRelist w of None \<Rightarrow> False | Some t \<Rightarrow> pa_now pa < t) then ([], w)
      else case relist api (pa_relist pa) (w\<lparr>wt_episodeRelisted := True\<rparr>) of
        (False, cs, w') \<Rightarrow> (cs, w')
      | (True, cs, w') \<Rightarrow>
          (cs, w'\<lparr>wt_nextRelist := Some (pa_later pa + wt_relistBackoff w'),
                  wt_relistBackoff := min (2 * wt_relistBackoff w') relistBackoffMax\<rparr>))"

definition endEpisode :: "int \<Rightarrow> Watcher \<Rightarrow> Watcher" where
  "endEpisode now w =
     w\<lparr>wt_episodeRelisted := False, wt_breakerWarned := False,
       wt_relistBackoff := (case wt_nextRelist w of
          Some t \<Rightarrow> if now < t then wt_relistBackoff w else relistBackoffInitial
        | None \<Rightarrow> wt_relistBackoff w)\<rparr>"

text \<open>The pass after its lists: \<open>live\<close> and \<open>store\<close> are the views that were compared last.\<close>

definition pass_views ::
  "service_api \<Rightarrow> pass_env \<Rightarrow> serviceView \<Rightarrow> serviceView \<Rightarrow> Watcher \<Rightarrow> bool \<times> proxy_call list \<times> watch_log list \<times> Watcher" where
  "pass_views api pa live store w0 =
     (let divs = divergences api (wt_static w0) live store;
          (settle, w1) = settleRepaired api (pa_inf pa) store divs w0;
          w2 = w1\<lparr>wt_divWarned := endKeyEpisodes divs (wt_divWarned w1)\<rparr> in
      if divs = [] then (False, settle, [], endEpisode (pa_now pa) w2)
      else
        let (logs, warned) = reportDivergences divs (wt_divWarned w2); w3 = w2\<lparr>wt_divWarned := warned\<rparr> in
        if breakerTripped api (wt_static w3) live store divs then
          (case maybeRelist api pa (w3\<lparr>wt_breakerWarned := True\<rparr>) of
             (cs, w4) \<Rightarrow>
               (True, settle @ cs, logs @ [if wt_breakerWarned w3 then RepairStillWithheld else RepairWithheld], w4))
        else
          (case repair_loop api pa live divs w3 of
             (repair, w4) \<Rightarrow>
               (case maybeRelist api pa w4 of (cs, w5) \<Rightarrow> (True, settle @ repair @ cs, logs, w5))))"

text \<open>The views to act on: a divergence is listed again after a delay, unless the pass is cancelled.\<close>

definition pass_lists :: "service_api \<Rightarrow> pass_env \<Rightarrow> Watcher \<Rightarrow> (serviceView \<times> serviceView) option" where
  "pass_lists api pa w =
     (case listLive (pa_svcs1 pa) (pa_slices1 pa) of
        None \<Rightarrow> None
      | Some live1 \<Rightarrow>
          let store1 = storeView (pa_store1 pa) in
          if divergences api (wt_static w) live1 store1 \<noteq> [] \<and> pa_confirm pa then
            if pa_cancelled pa then None
            else map_option (\<lambda>live2. (live2, storeView (pa_store2 pa))) (listLive (pa_svcs2 pa) (pa_slices2 pa))
          else Some (live1, store1))"

definition antiEntropyPass ::
  "service_api \<Rightarrow> pass_env \<Rightarrow> Watcher \<Rightarrow> bool \<times> proxy_call list \<times> watch_log list \<times> Watcher" where
  "antiEntropyPass api pa w =
     (case pass_lists api pa w of None \<Rightarrow> (False, [], [], w) | Some (live, store) \<Rightarrow> pass_views api pa live store w)"

section \<open>What the calls install\<close>

definition routed :: "RoutingTable \<Rightarrow> PortKey \<Rightarrow> string set" where
  "routed t key = addrport_String ` be_addr ` set (Backends t key)"

lemma advanceMeta_table: "advanceMeta t key svc ready locals policy = (m, t1) \<Longrightarrow>
    rt_snap t1 = rt_snap t \<and> rt_podCIDR t1 = rt_podCIDR t \<and> rt_meta t1 key \<noteq> None \<and> (\<forall>k. rt_meta t k \<noteq> None \<longrightarrow> rt_meta t1 k \<noteq> None)"
  by (auto simp: advanceMeta_def Let_def split: option.split_asm if_split_asm)

lemma Backends_install:
  "Backends (snd (installEndpoints vl key svc eps policy aff t)) k = (if k = key then sort_key be_key (ready_backends vl t eps) else Backends t k)"
  by (auto simp: installEndpoints_def install_store_def Let_def Backends_def rt_store_def withState_def purgeAffinity_def dropAffinity_def
      split: prod.split option.split dest!: advanceMeta_table)

lemma dom_advanceMeta: "advanceMeta t key svc ready locals policy = (m, t1) \<Longrightarrow> dom (rt_meta t1) = insert key (dom (rt_meta t))"
  by (auto simp: advanceMeta_def Let_def split: option.split_asm if_split_asm)

lemma dom_meta_install: "dom (rt_meta (snd (installEndpoints vl key svc eps policy aff t))) = insert key (dom (rt_meta t))"
proof -
  let ?ready = "sort_key be_key (ready_backends vl t eps)"
  obtain m t1 where a: "advanceMeta t key svc ?ready (filter (\<lambda>b. nodeLocal (be_locality b)) ?ready) policy = (m, t1)"
    by (cases "advanceMeta t key svc ?ready (filter (\<lambda>b. nodeLocal (be_locality b)) ?ready) policy")
  have "rt_meta (snd (installEndpoints vl key svc eps policy aff t)) = rt_meta t1"
    by (simp add: installEndpoints_def install_store_def Let_def a rt_store_def purgeAffinity_def dropAffinity_def)
  then show ?thesis using dom_advanceMeta [OF a] by simp
qed

lemma Backends_Delete: "Backends (rt_Delete key t) k = (if k = key then [] else Backends t k)"
  by (simp add: Backends_def sn_states_Delete)

lemma meta_Delete: "rt_meta (rt_Delete key t) = (rt_meta t)(key := None)"
  by (simp add: rt_Delete_def Let_def purgeAffinity_def dropAffinity_def delete_store_def rt_store_def)

lemma routed_install:
  "routed (snd (installEndpoints (api_Validate api) key svc eps policy aff t)) k =
     (if k = key then set (admitted_strings api eps) else routed t k)"
  by (simp add: routed_def Backends_install set_admitted_strings ready_backends_addrs)

lemma routed_Delete: "routed (rt_Delete key t) k = (if k = key then {} else routed t k)"
  by (simp add: routed_def Backends_Delete)

text \<open>A worker that takes an event does with the table what \<open>apply_call\<close> says.\<close>

lemma worker_event_table:
  "px_table (worker_event env i w (SetPort port svc policy affinity eps) p) =
     snd (installEndpoints (api_Validate (pe_api env)) (wk_key w) svc eps policy affinity (px_table p))"
  "px_table (worker_event env i w DeletePort p) = rt_Delete (wk_key w) (px_table p)"
  by (simp_all add: Let_def open_port_def put_io_def removeWorker_def split: option.split prod.split)

lemma view_at_fold_else:
  "view_at (fold (\<lambda>(k, s) out. AList.update k s out) es v) key =
     (if key \<in> fst ` set es then view_at (fold (\<lambda>(k, s) out. AList.update k s out) es []) key else view_at v key)"
proof (induction es rule: rev_induct)
  case (snoc e es)
  then show ?case by (cases e) (auto simp: view_at_update)
qed simp

lemma fst_fold_update: "fst ` set (fold (\<lambda>(k, s) out. AList.update k s out) es v) = fst ` set es \<union> fst ` set v"
proof (induction es arbitrary: v)
  case (Cons e es)
  then show ?case by (cases e) (simp add: dom_update)
qed simp

text \<open>One Service: its ports get the sets of the view, in the order of the ports, and nothing else changes.\<close>

definition reachable_vip :: "service_api \<Rightarrow> addr set \<Rightarrow> Service \<Rightarrow> bool" where
  "reachable_vip api exempt svc \<longleftrightarrow>
     (case serviceToVIP api svc of
        None \<Rightarrow> True
      | Some (vip, _) \<Rightarrow> (case ParseAddr (vip_ClusterIP vip) of None \<Rightarrow> False | Some a \<Rightarrow> a \<notin> exempt))"

lemma routed_applyService:
  assumes "reachable_vip api exempt svc" "slices_of slices (svc_key svc) = slices"
  shows "routed (fold (apply_call api exempt) (applyService api static svc slices) t) key =
    (if key \<in> fst ` set (api_ports api slices static svc) then set (view_at (APIBackendSets api [svc] slices static) key) else routed t key)"
proof (cases "serviceToVIP api svc")
  case None
  then show ?thesis by (simp add: applyService_def api_ports_def)
next
  case (Some r)
  obtain vip policy affinity u where r: "r = (vip, policy, affinity, u)" by (cases r) auto
  obtain a where a: "ParseAddr (vip_ClusterIP vip) = Some a" "a \<notin> exempt"
    using assms(1) Some r by (auto simp: reachable_vip_def split: option.split_asm)
  let ?eps = "\<lambda>p. backendsForPort api static (svc_key svc) slices (sp_Name p)"
  let ?call = "\<lambda>p. ReconcilePort \<lparr>sr_Namespace = sv_Namespace svc, sr_Name = sv_Name svc\<rparr> (vip_ClusterIP vip) p policy affinity (?eps p)"
  let ?entry = "\<lambda>p. (port_key api (vip_ClusterIP vip) p, normalizeSet (admitted_strings api (?eps p)))"
  have "routed (fold (apply_call api exempt) (map ?call ps) t) key =
      (if key \<in> fst ` set (map ?entry ps) then set (view_at (fold (\<lambda>(k, s) out. AList.update k s out) (map ?entry ps) []) key) else routed t key)" for ps
  proof (induction ps rule: rev_induct)
    case (snoc p ps)
    then show ?case by (auto simp: a routed_install view_at_update normalizeSet_def)
  qed simp
  then show ?thesis
    using Some r assms(2) by (simp add: applyService_def api_ports_def APIBackendSets_def Let_def)
qed

lemma fst_APIBackendSets: "fst ` set (APIBackendSets api [svc] slices static) = fst ` set (api_ports api slices static svc)"
  by (simp add: APIBackendSets_def fst_fold_update)

section \<open>Views are well formed\<close>

definition view_ok :: "serviceView \<Rightarrow> bool" where
  "view_ok v \<longleftrightarrow> distinct (map fst (vw_svcs v)) \<and> (\<forall>k svc. map_of (vw_svcs v) k = Some svc \<longrightarrow> svc_key svc = k)
     \<and> (\<forall>k. slices_of (vw_slices v k) k = vw_slices v k)"

lemma view_ok_addService: "view_ok v \<Longrightarrow> view_ok (addService svc v)"
  by (simp add: view_ok_def addService_def distinct_update update_conv')

lemma view_ok_addSlice: "view_ok v \<Longrightarrow> view_ok (addSlice sl v)"
  unfolding view_ok_def addSlice_def by (auto simp: Let_def slices_of_def)

lemma view_ok_fold: "view_ok v \<Longrightarrow> view_ok (fold addSlice ls (fold addService ss v))"
  by (intro fold_invariant [where Q = "\<lambda>_. True" and P = view_ok]) (auto intro: view_ok_addService view_ok_addSlice)

lemma view_ok_storeView: "view_ok (storeView ifs)"
  unfolding storeView_def by (rule view_ok_fold) (simp add: view_ok_def newServiceView_def slices_of_def)

lemma view_ok_listLive: "listLive svcs slices = Some v \<Longrightarrow> view_ok v"
proof -
  have "view_ok (newServiceView\<lparr>vw_svcRV := a, vw_sliceRV := b\<rparr>)" for a b
    by (simp add: view_ok_def newServiceView_def slices_of_def)
  then show "listLive svcs slices = Some v \<Longrightarrow> view_ok v"
    unfolding listLive_def by (auto split: option.split_asm intro!: view_ok_fold)
qed

lemma vw_slices_storeView: "vw_slices (storeView ifs) k = slices_of (is_slices ifs) k"
proof -
  have 1: "vw_slices (fold addSlice ls v) k = vw_slices v k @ slices_of ls k" for ls v
    by (induction ls arbitrary: v) (simp_all add: addSlice_def slices_of_def Let_def)
  have 2: "vw_slices (fold addService ss v) = vw_slices v" for ss v
    by (induction ss arbitrary: v) (simp_all add: addService_def)
  show ?thesis by (simp add: storeView_def 1 2 newServiceView_def)
qed

section \<open>Repairs\<close>

text \<open>The keys a view serves for a Service, and a table that routes what a view says.\<close>

definition serves :: "service_api \<Rightarrow> (string \<rightharpoonup> Endpoint list) \<Rightarrow> serviceView \<Rightarrow> string \<Rightarrow> PortKey \<Rightarrow> bool" where
  "serves api static v k key \<longleftrightarrow> key \<in> fst ` set (backendSets api static k v)"

abbreviation sets_at :: "service_api \<Rightarrow> (string \<rightharpoonup> Endpoint list) \<Rightarrow> serviceView \<Rightarrow> string \<Rightarrow> PortKey \<Rightarrow> string set" where
  "sets_at api static v k key \<equiv> set (view_at (backendSets api static k v) key)"

definition agrees :: "service_api \<Rightarrow> (string \<rightharpoonup> Endpoint list) \<Rightarrow> RoutingTable \<Rightarrow> serviceView \<Rightarrow> bool" where
  "agrees api static t v \<longleftrightarrow> (\<forall>key. routed t key = (\<Union>k \<in> fst ` set (vw_svcs v). sets_at api static v k key))"

definition owned :: "service_api \<Rightarrow> (string \<rightharpoonup> Endpoint list) \<Rightarrow> serviceView set \<Rightarrow> bool" where
  "owned api static vs \<longleftrightarrow> (\<forall>v \<in> vs. \<forall>v' \<in> vs. \<forall>k k' key. serves api static v k key \<and> serves api static v' k' key \<longrightarrow> k = k')"

lemma sets_at_absent: "\<not> serves api static v k key \<Longrightarrow> sets_at api static v k key = {}"
  by (simp add: serves_def view_at_absent)

lemma not_served: "k \<notin> fst ` set (vw_svcs v) \<Longrightarrow> \<not> serves api static v k key"
  by (simp add: serves_def backendSets_def map_of_eq_None_iff [THEN iffD2])

lemma UN_only: "(\<And>k. k \<noteq> k0 \<Longrightarrow> f k = {}) \<Longrightarrow> (k0 \<notin> A \<Longrightarrow> f k0 = {}) \<Longrightarrow> (\<Union>k \<in> A. f k) = f k0"
  by (auto) (metis empty_iff)+

lemma agree_at:
  assumes "owned api static vs" "v \<in> vs" "v0 \<in> vs" "serves api static v0 k0 key"
  shows "(\<Union>k \<in> fst ` set (vw_svcs v). sets_at api static v k key) = sets_at api static v k0 key"
proof (rule UN_only)
  show "sets_at api static v k key = {}" if "k \<noteq> k0" for k
    using assms that unfolding owned_def by (intro sets_at_absent) metis
  show "sets_at api static v k0 key = {}" if "k0 \<notin> fst ` set (vw_svcs v)"
    using that by (intro sets_at_absent not_served)
qed

lemma routed_deletes: "routed (fold (apply_call api exempt) (map ReconcileDelete keys) t) key = (if key \<in> set keys then {} else routed t key)"
  by (induction keys arbitrary: t) (auto simp: routed_Delete)

lemma routed_repair:
  assumes "view_ok live" "\<forall>svc. map_of (vw_svcs live) k = Some svc \<longrightarrow> reachable_vip api exempt svc"
    and "repairService api pa static live (k, ds) = Some cs"
  shows "routed (fold (apply_call api exempt) cs t) key =
    (if serves api static live k key \<or> key \<in> dv_Key ` set ds then sets_at api static live k key else routed t key)"
proof -
  let ?del = "map dv_Key (filter (\<lambda>d. map_of (backendSets api static k live) (dv_Key d) = None) ds)"
  let ?app = "case map_of (vw_svcs live) k of None \<Rightarrow> [] | Some svc \<Rightarrow> applyService api static svc (vw_slices live k)"
  have cs: "cs = ?app @ map ReconcileDelete ?del"
    using assms(3) by (auto simp: repairService_def Let_def comp_def split: if_split_asm)
  have app: "routed (fold (apply_call api exempt) ?app t) key =
      (if serves api static live k key then sets_at api static live k key else routed t key)"
  proof (cases "map_of (vw_svcs live) k")
    case None
    then show ?thesis by (simp add: serves_def backendSets_def)
  next
    case (Some svc)
    then have "svc_key svc = k" "slices_of (vw_slices live k) k = vw_slices live k" using assms(1) by (simp_all add: view_ok_def)
    then show ?thesis
      using routed_applyService [of api exempt svc "vw_slices live k" static t key] assms(2) Some
      by (simp add: serves_def backendSets_def fst_APIBackendSets)
  qed
  have "key \<in> set ?del \<longleftrightarrow> key \<in> dv_Key ` set ds \<and> \<not> serves api static live k key"
    by (auto simp: serves_def map_of_eq_None_iff)
  then show ?thesis unfolding cs fold_append comp_def routed_deletes app by (auto simp: sets_at_absent)
qed

definition touches :: "service_api \<Rightarrow> (string \<rightharpoonup> Endpoint list) \<Rightarrow> serviceView \<Rightarrow> string \<times> Divergence list \<Rightarrow> PortKey \<Rightarrow> bool" where
  "touches api static live kd key \<longleftrightarrow> serves api static live (fst kd) key \<or> key \<in> dv_Key ` set (snd kd)"

lemma routed_repair_loop:
  assumes "view_ok live" "\<forall>k svc. map_of (vw_svcs live) k = Some svc \<longrightarrow> reachable_vip api exempt svc"
    and "\<forall>kd \<in> set divs. \<not> storeNewerThan (pa_split pa) (pa_inf pa (fst kd)) (fst kd) live"
    and "\<forall>kd \<in> set divs. \<forall>kd' \<in> set divs. touches api static live kd key \<and> touches api static live kd' key \<longrightarrow> fst kd = fst kd'"
    and "wt_static w = static"
  shows "routed (fold (apply_call api exempt) (fst (repair_loop api pa live divs w)) t) key =
    (case find (\<lambda>kd. touches api static live kd key) divs of
       Some kd \<Rightarrow> sets_at api static live (fst kd) key | None \<Rightarrow> routed t key)"
  using assms(3-5)
proof (induction divs arbitrary: w t)
  case (Cons kd divs)
  obtain k ds where kd: "kd = (k, ds)" by (cases kd)
  obtain cs where cs: "repairService api pa static live (k, ds) = Some cs"
    using Cons.prems(1) kd by (auto simp: repairService_def)
  let ?w = "w\<lparr>wt_repairedFromLive := List.insert k (wt_repairedFromLive w)\<rparr>" and ?t = "fold (apply_call api exempt) cs t"
  have r: "fst (repair_loop api pa live (kd # divs) w) = cs @ fst (repair_loop api pa live divs ?w)"
    using cs kd Cons.prems(3) by (simp split: prod.split)
  have IH: "routed (fold (apply_call api exempt) (fst (repair_loop api pa live divs ?w)) ?t) key =
      (case find (\<lambda>kd. touches api static live kd key) divs of
         Some kd \<Rightarrow> sets_at api static live (fst kd) key | None \<Rightarrow> routed ?t key)"
  proof (rule Cons.IH)
    show "\<forall>kd \<in> set divs. \<not> storeNewerThan (pa_split pa) (pa_inf pa (fst kd)) (fst kd) live" using Cons.prems(1) by simp
    show "\<forall>kd \<in> set divs. \<forall>kd' \<in> set divs. touches api static live kd key \<and> touches api static live kd' key \<longrightarrow> fst kd = fst kd'"
      using Cons.prems(2) by (meson list.set_intros(2))
  qed (simp add: Cons.prems(3))
  have head: "routed ?t key = (if touches api static live kd key then sets_at api static live k key else routed t key)"
    using routed_repair [OF assms(1) _ cs] assms(2) kd by (simp add: touches_def)
  show ?case
  proof (cases "find (\<lambda>kd. touches api static live kd key) divs")
    case None
    then show ?thesis using IH head r kd by simp
  next
    case (Some kd')
    then have "kd' \<in> set divs" "touches api static live kd' key" by (auto simp: find_Some_iff)
    then have "fst kd' = k" if "touches api static live kd key"
      using Cons.prems(2) kd that by (metis fst_conv list.set_intros)
    then show ?thesis using IH r Some kd by (cases "touches api static live kd key") simp_all
  qed
qed simp

lemma repair_loop_episode: "wt_episodeRelisted (snd (repair_loop api pa live ds w)) = wt_episodeRelisted w"
  by (induction ds arbitrary: w) (simp_all add: split_beta split: option.split)

lemma divergences_at:
  assumes "(k, ds) \<in> set (divergences api static live store)"
  shows "dv_Key ` set ds = {key. sets_at api static live k key \<noteq> sets_at api static store k key}"
proof -
  have "ds = DiffBackendSets (backendSets api static k live) (backendSets api static k store)"
    using assms by (auto simp: divergences_def)
  then show ?thesis by (simp add: diff_keys)
qed

lemma no_divergence:
  assumes "k \<notin> fst ` set (divergences api static live store)"
  shows "sets_at api static live k key = sets_at api static store k key"
proof (cases "k \<in> fst ` set (vw_svcs live) \<union> fst ` set (vw_svcs store)")
  case True
  then have "DiffBackendSets (backendSets api static k live) (backendSets api static k store) = []"
    using assms by (auto simp: divergences_def image_iff)
  then show ?thesis using diff_keys [of "backendSets api static k live" "backendSets api static k store"] by auto
next
  case False
  then show ?thesis using not_served [of k] sets_at_absent by (metis UnCI)
qed

lemma repair_converges:
  assumes views: "view_ok live" "owned api static {live, store}"
    and "\<forall>k svc. map_of (vw_svcs live) k = Some svc \<longrightarrow> reachable_vip api exempt svc"
    and "\<forall>kd \<in> set (divergences api static live store). \<not> storeNewerThan (pa_split pa) (pa_inf pa (fst kd)) (fst kd) live"
    and "wt_static w = static" "agrees api static t store"
  shows "agrees api static (fold (apply_call api exempt) (fst (repair_loop api pa live (divergences api static live store) w)) t) live"
  unfolding agrees_def
proof
  fix key
  let ?divs = "divergences api static live store" and ?U = "\<lambda>v. \<Union>k \<in> fst ` set (vw_svcs v). sets_at api static v k key"
  let ?owner = "\<lambda>k. serves api static live k key \<or> serves api static store k key"
  have diff: "?owner k" if "sets_at api static live k key \<noteq> sets_at api static store k key" for k
    using that sets_at_absent by metis
  have t: "?owner (fst kd)" if "kd \<in> set ?divs" "touches api static live kd key" for kd
    using that diff divergences_at [of "fst kd" "snd kd"] by (auto simp: touches_def)
  have uniq: "k = k'" if "?owner k" "?owner k'" for k k' using that views(2) unfolding owned_def by blast
  have loop: "routed (fold (apply_call api exempt) (fst (repair_loop api pa live ?divs w)) t) key =
      (case find (\<lambda>kd. touches api static live kd key) ?divs of
         Some kd \<Rightarrow> sets_at api static live (fst kd) key | None \<Rightarrow> routed t key)"
    using t uniq by (intro routed_repair_loop assms) blast
  show "routed (fold (apply_call api exempt) (fst (repair_loop api pa live ?divs w)) t) key = ?U live"
  proof (cases "\<exists>k. ?owner k")
    case False
    then have "find (\<lambda>kd. touches api static live kd key) ?divs = None" using t by (auto simp: find_None_iff)
    moreover have "?U store = {}" "?U live = {}" using False by (simp_all add: sets_at_absent)
    ultimately show ?thesis using loop assms(6) by (simp add: agrees_def)
  next
    case True
    then obtain k where k: "?owner k" by blast
    have U: "?U v = sets_at api static v k key" if "v \<in> {live, store}" for v
      using k agree_at [OF views(2) that] by blast
    show ?thesis
    proof (cases "find (\<lambda>kd. touches api static live kd key) ?divs")
      case (Some kd)
      then have "kd \<in> set ?divs" "touches api static live kd key" by (auto simp: find_Some_iff)
      then have "fst kd = k" using t k uniq by blast
      then show ?thesis using loop Some U by simp
    next
      case None
      have "sets_at api static live k key = sets_at api static store k key"
      proof (cases "k \<in> fst ` set ?divs")
        case True
        then obtain ds where d: "(k, ds) \<in> set ?divs" by auto
        then have "key \<notin> dv_Key ` set ds" using None by (auto simp: find_None_iff touches_def)
        then show ?thesis using divergences_at [OF d] by blast
      qed (rule no_divergence)
      moreover have "routed t key = ?U store" using assms(6) unfolding agrees_def by blast
      ultimately show ?thesis using loop None U [of live] U [of store] by simp
    qed
  qed
qed

section \<open>The circuit breaker\<close>

lemma distinct_fold_update: "distinct (map fst v) \<Longrightarrow> distinct (map fst (fold (\<lambda>(k, s) out. AList.update k s out) es v))"
  by (induction es arbitrary: v) (auto simp: distinct_update split: prod.split)

lemma list_ex_view: "distinct (map fst v) \<Longrightarrow> list_ex (\<lambda>(k, s). s \<noteq> []) v \<longleftrightarrow> (\<exists>key. view_at v key \<noteq> [])"
proof
  assume "distinct (map fst v)" "list_ex (\<lambda>(k, s). s \<noteq> []) v"
  then obtain k s where "map_of v k = Some s" "s \<noteq> []" by (auto simp: list_ex_iff)
  then show "\<exists>key. view_at v key \<noteq> []" by (auto simp: view_at_def intro!: exI [of _ k])
next
  assume "\<exists>key. view_at v key \<noteq> []"
  then obtain key s where "map_of v key = Some s" "s \<noteq> []" by (auto simp: view_at_def split: option.split_asm)
  then show "list_ex (\<lambda>(k, s). s \<noteq> []) v" by (auto simp: list_ex_iff dest!: map_of_SomeD)
qed

lemma anyBackend_iff: "anyBackend (backendSets api static k v) \<longleftrightarrow> (\<exists>key. sets_at api static v k key \<noteq> {})"
proof -
  have "distinct (map fst (backendSets api static k v))"
    by (auto simp: backendSets_def APIBackendSets_def split: option.split intro: distinct_fold_update)
  then show ?thesis by (simp add: anyBackend_def list_ex_view)
qed

lemma map_of_nonempty:
  "map_of (filter (\<lambda>(k, d). d \<noteq> []) (map (\<lambda>k. (k, f k)) ks)) k = (if k \<in> set ks \<and> f k \<noteq> [] then Some (f k) else None)"
  by (induction ks) auto

lemma divs_at_divergences:
  assumes "k \<in> fst ` set (vw_svcs store)"
  shows "divs_at (divergences api static live store) k = DiffBackendSets (backendSets api static k live) (backendSets api static k store)"
  using assms by (auto simp: divs_at_def divergences_def map_of_nonempty)

lemma losing_iff:
  assumes "k \<in> fst ` set (vw_svcs store)"
  shows "list_ex (\<lambda>d. dv_Extra d \<noteq> []) (divs_at (divergences api static live store) k) \<longleftrightarrow>
    (\<exists>key. \<not> sets_at api static store k key \<subseteq> sets_at api static live k key)"
proof -
  let ?ds = "DiffBackendSets (backendSets api static k live) (backendSets api static k store)"
  have x: "dv_Extra d \<noteq> [] \<longleftrightarrow> \<not> sets_at api static store k (dv_Key d) \<subseteq> sets_at api static live k (dv_Key d)" if d: "d \<in> set ?ds" for d
  proof -
    obtain key where "d \<in> set (visit (backendSets api static k live) (backendSets api static k store) key)"
      using d by (auto simp: DiffBackendSets_list diff_list_def)
    from visit_spec(2) [OF this]
    have "set (dv_Extra d) = sets_at api static store k (dv_Key d) - sets_at api static live k (dv_Key d)" by simp
    then show ?thesis by (metis Diff_eq_empty_iff set_empty)
  qed
  have key: "key \<in> dv_Key ` set ?ds" if "\<not> sets_at api static store k key \<subseteq> sets_at api static live k key" for key
    unfolding diff_keys using that by auto
  show ?thesis
    unfolding divs_at_divergences [OF assms] list_ex_iff
  proof
    assume "\<exists>d \<in> set ?ds. dv_Extra d \<noteq> []"
    then show "\<exists>key. \<not> sets_at api static store k key \<subseteq> sets_at api static live k key" using x by metis
  next
    assume "\<exists>key. \<not> sets_at api static store k key \<subseteq> sets_at api static live k key"
    then obtain key where n: "\<not> sets_at api static store k key \<subseteq> sets_at api static live k key" ..
    then obtain d where "d \<in> set ?ds" "key = dv_Key d" using key by blast
    then show "\<exists>d \<in> set ?ds. dv_Extra d \<noteq> []" using x n by blast
  qed
qed

lemma breaker_bound:
  assumes "view_ok store" "\<not> breakerTripped api static live store (divergences api static live store)"
  shows "2 * card {k \<in> fst ` set (vw_svcs store). \<exists>key. \<not> sets_at api static store k key \<subseteq> sets_at api static live k key}
    \<le> card {k \<in> fst ` set (vw_svcs store). \<exists>key. sets_at api static store k key \<noteq> {}}"
proof -
  let ?ks = "map fst (vw_svcs store)" and ?lose = "\<lambda>k. \<exists>key. \<not> sets_at api static store k key \<subseteq> sets_at api static live k key"
  let ?ready = "filter (\<lambda>k. \<exists>key. sets_at api static store k key \<noteq> {}) ?ks"
  have d: "distinct ?ks" using assms(1) by (simp add: view_ok_def)
  have l: "filter (\<lambda>k. list_ex (\<lambda>d. dv_Extra d \<noteq> []) (divs_at (divergences api static live store) k)) ?ready = filter ?lose ?ks"
    unfolding filter_filter by (rule filter_cong [OF refl]) (use losing_iff in \<open>fastforce\<close>)
  have "2 * length (filter ?lose ?ks) \<le> length ?ready"
  proof (cases "?ready = []")
    case True
    then have "filter ?lose ?ks = []" by (auto simp: filter_empty_conv)
    then show ?thesis by simp
  next
    case False
    then show ?thesis using assms(2) l by (auto simp: breakerTripped_def Let_def anyBackend_iff split: if_split_asm)
  qed
  moreover have "card {k \<in> set ?ks. P k} = length (filter P ?ks)" for P
    using distinct_card [OF distinct_filter [OF d]] by (metis set_filter)
  ultimately show ?thesis by simp
qed

section \<open>Applying a store\<close>

definition svc_keys :: "service_api \<Rightarrow> Service \<Rightarrow> PortKey set" where
  "svc_keys api svc =
     (case serviceToVIP api svc of None \<Rightarrow> {} | Some (vip, _) \<Rightarrow> port_key api (vip_ClusterIP vip) ` set (vip_Ports vip))"

lemma fst_api_ports: "fst ` set (api_ports api slices static svc) = svc_keys api svc"
  by (simp add: api_ports_def svc_keys_def Let_def image_image split: option.split)

abbreviation upd :: "PortKey \<times> BackendSet \<Rightarrow> view \<Rightarrow> view" where
  "upd \<equiv> \<lambda>(k, s) out. AList.update k s out"

lemma set_endpointsForPort: "set (endpointsForPort api sls n) = (\<Union>sl \<in> set sls. set (endpointsForPort api [sl] n))"
  by (induction sls) (auto split: option.split)

lemma set_backendsForPort:
  "set sls = set sls' \<Longrightarrow> set (backendsForPort api static k sls n) = set (backendsForPort api static k sls' n)"
  by (simp add: backendsForPort_def set_endpointsForPort [of api sls] set_endpointsForPort [of api sls'] split: option.split)

lemma set_slices_of: "set (slices_of sls k) = {sl \<in> set sls. es_ServiceName sl \<noteq> [] \<and> service_key (es_Namespace sl) (es_ServiceName sl) = k}"
  by (auto simp: slices_of_def)

lemma api_ports_cong:
  assumes "set sls = set sls'"
  shows "api_ports api sls static svc = api_ports api sls' static svc"
proof -
  have "set (backendsForPort api static k (slices_of sls k) n) = set (backendsForPort api static k (slices_of sls' k) n)" for k n
    using assms by (intro set_backendsForPort) (simp add: set_slices_of)
  then have "normalizeSet (admitted_strings api (backendsForPort api static k (slices_of sls k) n)) =
      normalizeSet (admitted_strings api (backendsForPort api static k (slices_of sls' k) n))" for k n
    unfolding normalizeSet_eq_iff set_admitted_strings by simp
  then show ?thesis by (simp add: api_ports_def Let_def split: option.split)
qed

lemma view_at_concat:
  assumes "\<forall>x \<in> set xs. key \<in> fst ` set (f x) \<longrightarrow> x = y" "y \<in> set xs" "key \<in> fst ` set (f y)"
  shows "view_at (fold upd (concat (map f xs)) []) key = view_at (fold upd (f y) []) key"
  using assms(1,2)
proof (induction xs rule: rev_induct)
  case (snoc x xs)
  have e: "view_at (fold upd (concat (map f (xs @ [x]))) []) key =
      (if key \<in> fst ` set (f x) then view_at (fold upd (f x) []) key else view_at (fold upd (concat (map f xs)) []) key)"
    using view_at_fold_else [of "f x" "fold upd (concat (map f xs)) []" key] by simp
  show ?case
  proof (cases "key \<in> fst ` set (f x)")
    case True
    then have "x = y" using snoc.prems(1) by simp
    then show ?thesis using e True by simp
  next
    case False
    then have "x \<noteq> y" using assms(3) by blast
    then have "y \<in> set xs" using snoc.prems(2) by auto
    moreover have "\<forall>x \<in> set xs. key \<in> fst ` set (f x) \<longrightarrow> x = y" using snoc.prems(1) unfolding set_append by blast
    ultimately have "view_at (fold upd (concat (map f xs)) []) key = view_at (fold upd (f y) []) key" using snoc.IH by blast
    then show ?thesis using e False by (simp only: if_False)
  qed
qed simp

lemma service_key_inj:
  assumes "service_key a b = service_key a' b'" "CHR ''/'' \<notin> set a" "CHR ''/'' \<notin> set a'"
  shows "a = a' \<and> b = b'"
proof -
  let ?ns = "takeWhile (\<lambda>c. c \<noteq> CHR ''/'')"
  have ns: "?ns (service_key x y) = x" if "CHR ''/'' \<notin> set x" for x y
    using that by (subst service_key_def, subst takeWhile_append2) auto
  have "a = ?ns (service_key a b)" using ns [OF assms(2)] by simp
  also have "\<dots> = a'" unfolding assms(1) by (rule ns [OF assms(3)])
  finally show ?thesis using assms(1) by (simp add: service_key_def)
qed

definition plain_names :: "informerSet \<Rightarrow> bool" where
  "plain_names ifs \<longleftrightarrow> (\<forall>svc \<in> set (is_svcs ifs). CHR ''/'' \<notin> set (sv_Namespace svc) \<and> sv_Name svc \<noteq> [])
     \<and> (\<forall>sl \<in> set (is_slices ifs). CHR ''/'' \<notin> set (es_Namespace sl))"

lemma slicesForService_of:
  assumes "plain_names ifs" "svc \<in> set (is_svcs ifs)"
  shows "slicesForService ifs (sv_Namespace svc) (sv_Name svc) = slices_of (is_slices ifs) (svc_key svc)"
  unfolding slicesForService_def slices_of_def
proof (rule filter_cong [OF refl])
  fix sl assume sl: "sl \<in> set (is_slices ifs)"
  have n: "CHR ''/'' \<notin> set (es_Namespace sl)" "CHR ''/'' \<notin> set (sv_Namespace svc)" "sv_Name svc \<noteq> []"
    using assms sl by (simp_all add: plain_names_def)
  show "(es_Namespace sl = sv_Namespace svc \<and> es_ServiceName sl = sv_Name svc) =
      (es_ServiceName sl \<noteq> [] \<and> service_key (es_Namespace sl) (es_ServiceName sl) = svc_key svc)"
  proof
    assume "es_ServiceName sl \<noteq> [] \<and> service_key (es_Namespace sl) (es_ServiceName sl) = svc_key svc"
    then show "es_Namespace sl = sv_Namespace svc \<and> es_ServiceName sl = sv_Name svc" using service_key_inj n(1,2) by blast
  qed (simp add: n(3))
qed

lemma routed_reconcileService:
  assumes "plain_names ifs" "svc \<in> set (is_svcs ifs)" "reachable_vip api exempt svc"
  shows "routed (fold (apply_call api exempt) (reconcileService api static ifs svc) t) key =
    (if key \<in> svc_keys api svc then set (view_at (fold upd (api_ports api (is_slices ifs) static svc) []) key) else routed t key)"
proof -
  let ?sls = "slices_of (is_slices ifs) (svc_key svc)"
  have idem: "slices_of ?sls (svc_key svc) = ?sls" by (simp add: slices_of_def)
  then have "api_ports api ?sls static svc = api_ports api (is_slices ifs) static svc" by (simp add: api_ports_def split: option.split)
  then show ?thesis
    using routed_applyService [OF assms(3) idem] slicesForService_of [OF assms(1,2)]
    by (simp add: reconcileService_def APIBackendSets_def fst_api_ports svc_keys_def applyService_def)
qed

lemma update_new: "k \<notin> fst ` set al \<Longrightarrow> AList.update k v al = al @ [(k, v)]"
  by (induction al) auto

lemma vw_svcs_storeView:
  assumes "distinct (map svc_key (is_svcs ifs))"
  shows "vw_svcs (storeView ifs) = map (\<lambda>svc. (svc_key svc, svc)) (is_svcs ifs)"
proof -
  have 1: "vw_svcs (fold addSlice ls v) = vw_svcs v" for ls v
    by (induction ls arbitrary: v) (simp_all add: addSlice_def Let_def)
  have "vw_svcs (fold addService ss newServiceView) = map (\<lambda>svc. (svc_key svc, svc)) ss" if "distinct (map svc_key ss)" for ss
    using that
  proof (induction ss rule: rev_induct)
    case (snoc svc ss)
    then show ?case by (auto simp: addService_def intro!: update_new)
  qed (simp add: newServiceView_def)
  then show ?thesis using assms by (simp add: storeView_def 1)
qed

lemma routed_applyStore:
  assumes "plain_names ifs" "\<forall>svc \<in> set ss. svc \<in> set (is_svcs ifs) \<and> reachable_vip api exempt svc"
  shows "routed (fold (apply_call api exempt) (concat (map (reconcileService api static ifs) ss)) t) key =
    (if \<exists>svc \<in> set ss. key \<in> svc_keys api svc
     then set (view_at (fold upd (concat (map (api_ports api (is_slices ifs) static) ss)) []) key) else routed t key)"
  using assms(2)
proof (induction ss rule: rev_induct)
  case (snoc svc ss)
  have "view_at (fold upd (concat (map (api_ports api (is_slices ifs) static) (ss @ [svc]))) []) key =
      (if key \<in> svc_keys api svc then view_at (fold upd (api_ports api (is_slices ifs) static svc) []) key
       else view_at (fold upd (concat (map (api_ports api (is_slices ifs) static) ss)) []) key)"
    using view_at_fold_else [of "api_ports api (is_slices ifs) static svc"] by (simp add: fst_api_ports)
  then show ?case using snoc by (auto simp: routed_reconcileService [OF assms(1)])
qed simp

lemma meta_call:
  assumes "\<forall>k. Backends t k \<noteq> [] \<longrightarrow> rt_meta t k \<noteq> None" "Backends (apply_call api exempt c t) k \<noteq> []"
  shows "rt_meta (apply_call api exempt c t) k \<noteq> None"
proof (cases c)
  case c: (ReconcilePort svc ip port policy aff eps)
  let ?t = "snd (installEndpoints (api_Validate api) (port_key api ip port) svc eps policy aff t)"
  consider "apply_call api exempt c t = t" | "apply_call api exempt c t = ?t"
    by (cases "ParseAddr ip"; cases "the (ParseAddr ip) \<in> exempt") (simp_all add: c)
  then show ?thesis
  proof cases
    case 1
    then show ?thesis using assms by metis
  next
    case 2
    have "rt_meta t k \<noteq> None \<or> k = port_key api ip port"
      using assms unfolding 2 Backends_install by (cases "k = port_key api ip port") simp_all
    then show ?thesis unfolding 2 using dom_meta_install by blast
  qed
next
  case (ReconcileDelete key)
  then show ?thesis using assms by (cases "k = key") (simp_all add: Backends_Delete meta_Delete)
qed

lemma metas_kept:
  assumes "\<forall>k. Backends t k \<noteq> [] \<longrightarrow> rt_meta t k \<noteq> None"
  shows "\<forall>k. Backends (fold (apply_call api exempt) cs t) k \<noteq> [] \<longrightarrow> rt_meta (fold (apply_call api exempt) cs t) k \<noteq> None"
  by (rule fold_invariant [where Q = "\<lambda>_. True" and P = "\<lambda>t. \<forall>k. Backends t k \<noteq> [] \<longrightarrow> rt_meta t k \<noteq> None"])
    (use assms meta_call in blast)+

section \<open>Properties\<close>

definition demo_svc :: "int list \<Rightarrow> Service" where
  "demo_svc ports = \<lparr>sv_Namespace = ''ns'', sv_Name = ''web'', sv_Type = ''ClusterIP'', sv_ClusterIP = ''10.43.0.7'', sv_Ports = map demo_port ports,
     sv_InternalTrafficPolicy = None, sv_ExternalTrafficPolicy = ''Cluster'', sv_SessionAffinity = ''None'', sv_SessionAffinityConfig = None,
     sv_ResourceVersion = ''5''\<rparr>"

definition demo_slice :: EndpointSlice where
  "demo_slice = \<lparr>es_Namespace = ''ns'', es_Name = ''web-1'', es_ServiceName = ''web'', es_ResourceVersion = ''6'', es_AddressType = ''IPv4'',
     es_Ports = [\<lparr>lp_Name = None, lp_Port = Some 80\<rparr>], es_Endpoints = [\<lparr>se_Addresses = [''10.42.1.5''], se_Ready = Some True\<rparr>]\<rparr>"

lemma demo_reachable: "reachable_vip demo_api {} (demo_svc ports)"
  by (simp add: reachable_vip_def serviceToVIP_def demo_svc_def demo_api_def demo_ParseAddr Let_def)

lemma demo_vip:
  "serviceToVIP demo_api (demo_svc [80]) =
     Some (\<lparr>vip_Namespace = ''ns'', vip_Name = ''web'', vip_ClusterIP = ''10.43.0.7'', vip_Ports = [demo_port 80]\<rparr>, trafficCluster, demo_aff, False)"
  "serviceToVIP demo_api (demo_svc [80, 443]) =
     Some (\<lparr>vip_Namespace = ''ns'', vip_Name = ''web'', vip_ClusterIP = ''10.43.0.7'', vip_Ports = [demo_port 80, demo_port 443]\<rparr>,
       trafficCluster, demo_aff, False)"
  by code_simp+

lemma demo_eps: "endpointsForPort demo_api [demo_slice] [] = [\<lparr>ep_IP = ''10.42.1.5'', ep_Port = 80, ep_Ready = True\<rparr>]"
  by (simp add: demo_slice_def demo_api_def slice_endpoints_def)

lemma demo_admitted: "admitted_strings demo_api [\<lparr>ep_IP = ''10.42.1.5'', ep_Port = 80, ep_Ready = True\<rparr>] = [''10.42.1.5:80'']"
proof -
  have "ParseAddr ''10.42.1.5'' = Some (IPv4 0x0A2A0105)" by code_simp
  moreover have "addrport_String (AddrPortFrom (IPv4 0x0A2A0105) 80) = ''10.42.1.5:80''" by code_simp
  ultimately show ?thesis by (simp add: admitEndpoint_def demo_api_def)
qed

lemma demo_entry:
  "normalizeSet (admitted_strings demo_api (backendsForPort demo_api Map.empty (svc_key (demo_svc ps))
     (slices_of [demo_slice] (svc_key (demo_svc ps))) (sp_Name (demo_port n)))) = [''10.42.1.5:80'']"
proof -
  have "slices_of [demo_slice] (svc_key (demo_svc ps)) = [demo_slice]" by (simp add: slices_of_def demo_slice_def demo_svc_def)
  moreover have "normalizeSet [''10.42.1.5:80''] = [''10.42.1.5:80'']" by (simp add: normalizeSet_def sort_compact_def)
  ultimately show ?thesis by (simp only: backendsForPort_def option.case demo_port_def svc_port.simps demo_eps demo_admitted)
qed

lemma demo_sets:
  "APIBackendSets demo_api [demo_svc [80]] [demo_slice] Map.empty = [(port_key demo_api ''10.43.0.7'' (demo_port 80), [''10.42.1.5:80''])]"
  "APIBackendSets demo_api [demo_svc [80, 443]] [demo_slice] Map.empty =
    [(port_key demo_api ''10.43.0.7'' (demo_port 80), [''10.42.1.5:80'']), (port_key demo_api ''10.43.0.7'' (demo_port 443), [''10.42.1.5:80''])]"
  by (simp_all add: APIBackendSets_def api_ports_def demo_vip Let_def demo_entry) (simp add: port_key_def demo_port_def)

text \<open>
  An update that drops a port of a Service leaves the port in the table: the handler delivers the
  ports the new object has and never deletes one, and the anti-entropy pass compares the store, not
  the table.
\<close>

lemma dropped_port_stays:
  fixes w w' :: Watcher and t :: RoutingTable
  defines "key \<equiv> port_key demo_api ''10.43.0.7'' (demo_port 443)" and "ifs \<equiv> \<lparr>is_svcs = [], is_slices = [demo_slice]\<rparr>"
  assumes "wt_static w = Map.empty" "wt_static w' = Map.empty"
  shows "routed (fold (apply_call demo_api {}) (fst (onService demo_api ifs (ServiceObj (demo_svc [80, 443])) w) @
      fst (onService demo_api ifs (ServiceObj (demo_svc [80])) w')) t) key = {''10.42.1.5:80''}"
    and "map_of (APIBackendSets demo_api [demo_svc [80]] [demo_slice] Map.empty) key = None"
proof -
  have sls: "slicesForService ifs (sv_Namespace (demo_svc ps)) (sv_Name (demo_svc ps)) = [demo_slice]"
    "slices_of [demo_slice] (svc_key (demo_svc ps)) = [demo_slice]" for ps
    by (simp_all add: slicesForService_def slices_of_def ifs_def demo_svc_def demo_slice_def)
  have calls: "fst (onService demo_api ifs (ServiceObj (demo_svc ps)) v) = applyService demo_api Map.empty (demo_svc ps) [demo_slice]"
    if "wt_static v = Map.empty" for ps v
    using that sls(1) by (simp add: onService_def reconcileService_def applyService_def)
  have k: "key \<in> fst ` set (api_ports demo_api [demo_slice] Map.empty (demo_svc [80, 443]))"
    "key \<notin> fst ` set (api_ports demo_api [demo_slice] Map.empty (demo_svc [80]))"
    by (simp_all add: fst_api_ports svc_keys_def demo_vip key_def) (simp add: port_key_def demo_port_def)
  have v: "view_at (APIBackendSets demo_api [demo_svc [80, 443]] [demo_slice] Map.empty) key = [''10.42.1.5:80'']"
    by (simp add: demo_sets view_at_def key_def port_key_def demo_port_def)
  show "routed (fold (apply_call demo_api {}) (fst (onService demo_api ifs (ServiceObj (demo_svc [80, 443])) w) @
      fst (onService demo_api ifs (ServiceObj (demo_svc [80])) w')) t) key = {''10.42.1.5:80''}"
    using k v by (simp add: calls [OF assms(3)] calls [OF assms(4)] routed_applyService [OF demo_reachable sls(2)])
  show "map_of (APIBackendSets demo_api [demo_svc [80]] [demo_slice] Map.empty) key = None"
    unfolding demo_sets(1) key_def by (simp add: port_key_def demo_port_def)
qed


definition demo_ifs :: informerSet where
  "demo_ifs = \<lparr>is_svcs = [demo_svc [80]], is_slices = [demo_slice]\<rparr>"



definition demo_pass :: pass_env where
  "demo_pass = \<lparr>pa_svcs1 = Some ([demo_svc [80]], ''9''), pa_slices1 = Some ([demo_slice], ''9''),
     pa_svcs2 = Some ([demo_svc [80]], ''9''), pa_slices2 = Some ([demo_slice], ''9''),
     pa_store1 = \<lparr>is_svcs = [], is_slices = []\<rparr>, pa_store2 = \<lparr>is_svcs = [], is_slices = []\<rparr>, pa_confirm = True, pa_cancelled = False,
     pa_inf = (\<lambda>_. \<lparr>is_svcs = [], is_slices = []\<rparr>), pa_relist = HandlersRefused, pa_split = (\<lambda>_. None), pa_now = 0, pa_later = 0\<rparr>"

definition demo_watcher :: Watcher where
  "demo_watcher = \<lparr>wt_inf = 1, wt_static = Map.empty, wt_eTPLocalWarned = {}, wt_synced = True, wt_episodeRelisted = True,
     wt_nextRelist = None, wt_relistBackoff = relistBackoffInitial, wt_relists = 1, wt_divWarned = {}, wt_breakerWarned = False,
     wt_repairedFromLive = []\<rparr>"

definition demo_live :: serviceView where
  "demo_live = \<lparr>vw_svcs = [(''ns/web'', demo_svc [80])], vw_slices = (\<lambda>_. [])(''ns/web'' := [demo_slice]), vw_svcRV = ''9'', vw_sliceRV = ''9''\<rparr>"

lemma demo_live_list: "listLive (Some ([demo_svc [80]], ''9'')) (Some ([demo_slice], ''9'')) = Some demo_live"
  by (simp add: listLive_def newServiceView_def addService_def addSlice_def demo_live_def demo_slice_def service_key_def demo_svc_def)

lemma demo_live_sets:
  "backendSets demo_api Map.empty k demo_live =
     (if k = ''ns/web'' then [(port_key demo_api ''10.43.0.7'' (demo_port 80), [''10.42.1.5:80''])] else [])"
  by (simp add: backendSets_def demo_live_def demo_sets)


end
