(* ===== verification/Spec2Isabelle.thy ===== *)
theory Spec2Isabelle
  imports PodNetwork PodEnv DNSConfigs DNSSynth Resolver Affinity Ingress Update Mesh Policy Services Workers Watch
begin

text \<open>
  A model of darwin-net, the node networking of a Kubernetes distribution for macOS, with the
  properties that make its components correct.
\<close>

end
